(* ===== verification/Lab_Prelude.thy ===== *)
theory Lab_Prelude
  imports
    Main
    "HOL-Library.AList"
    "HOL-Library.Char_ord"
    "HOL-Library.List_Lexorder"
    "HOL-Library.Product_Lexorder"
    "HOL-Library.Sublist"
begin

text \<open>
  What every theory of the development shares: Python exceptions as values, the result type of
  code that may raise, Python dictionaries as association lists in insertion order, the builtin
  \<open>min\<close> with a key, and the two interfaces several components rely on (a dictionary and a codec
  whose decoder undoes its encoder), stated as locales.
\<close>

section \<open>Exceptions\<close>

text \<open>
  The exception classes the program raises or catches. An exception is its class and its message
  (\<open>str(exc)\<close>). \<open>isa\<close> is the subclass relation that an \<open>except\<close> clause tests: in Python
  \<open>json.JSONDecodeError\<close> is a \<open>ValueError\<close>, and \<open>TimeoutError\<close> and \<open>urllib.error.URLError\<close> are
  \<open>OSError\<close>s.
\<close>

datatype exc_kind =
    RuntimeError | ValueError | JSONDecodeError | KeyError | IndexError | TypeError
  | AttributeError | OSError | URLError | TimeoutError | ImportError | OverflowError
  | PexpectTimeout | AssertionError

datatype exn = Exn (exn_kind: exc_kind) (exn_msg: string)

fun isa :: "exc_kind \<Rightarrow> exc_kind \<Rightarrow> bool" where
  "isa JSONDecodeError ValueError = True"
| "isa URLError OSError = True"
| "isa TimeoutError OSError = True"
| "isa k k' = (k = k')"

lemma isa_refl [simp]: "isa k k"
  by (cases k) simp_all

text \<open>The result of code that may raise: \<open>Inl\<close> the exception, \<open>Inr\<close> the value.\<close>

type_synonym 'a res = "exn + 'a"

abbreviation throw :: "exc_kind \<Rightarrow> string \<Rightarrow> 'a res" where
  "throw k m \<equiv> Inl (Exn k m)"

definition res_bind :: "'a res \<Rightarrow> ('a \<Rightarrow> 'b res) \<Rightarrow> 'b res" where
  "res_bind r k = (case r of Inl e \<Rightarrow> Inl e | Inr x \<Rightarrow> k x)"

lemma res_bind_simps [simp]:
  "res_bind (Inl e) k = Inl e"
  "res_bind (Inr x) k = k x"
  by (simp_all add: res_bind_def)

lemma res_bind_eq_Inr [simp]:
  "res_bind r k = Inr y \<longleftrightarrow> (\<exists>x. r = Inr x \<and> k x = Inr y)"
  by (cases r) simp_all

lemma res_bind_eq_Inl:
  "res_bind r k = Inl e \<longleftrightarrow> r = Inl e \<or> (\<exists>x. r = Inr x \<and> k x = Inl e)"
  by (cases r) simp_all

lemma res_bind_cong [fundef_cong]:
  "r = r' \<Longrightarrow> (\<And>x. r' = Inr x \<Longrightarrow> k x = k' x) \<Longrightarrow> res_bind r k = res_bind r' k'"
  by (cases r') simp_all

text \<open>A comprehension whose element expression may raise stops at the first exception.\<close>

fun res_map :: "('a \<Rightarrow> 'b res) \<Rightarrow> 'a list \<Rightarrow> 'b list res" where
  "res_map f [] = Inr []"
| "res_map f (x # xs) = res_bind (f x) (\<lambda>y. res_bind (res_map f xs) (\<lambda>ys. Inr (y # ys)))"

lemma res_map_Inr [simp]: "res_map (\<lambda>x. Inr (f x)) xs = Inr (map f xs)"
  by (induction xs) simp_all

lemma res_map_all_Inr: "(\<And>x. x \<in> set xs \<Longrightarrow> f x = Inr (g x)) \<Longrightarrow> res_map f xs = Inr (map g xs)"
  by (induction xs) simp_all

fun res_filter :: "('a \<Rightarrow> bool res) \<Rightarrow> 'a list \<Rightarrow> 'a list res" where
  "res_filter f [] = Inr []"
| "res_filter f (x # xs) =
     res_bind (f x) (\<lambda>b. res_bind (res_filter f xs) (\<lambda>ys. Inr (if b then x # ys else ys)))"

lemma res_filter_Inr:
  "res_filter f xs = Inr ys \<Longrightarrow> x \<in> set ys \<longleftrightarrow> x \<in> set xs \<and> f x = Inr True"
  by (induction xs arbitrary: ys) (auto split: if_splits)

text \<open>A loop whose body may raise, with an accumulator.\<close>

fun res_fold :: "('a \<Rightarrow> 'b \<Rightarrow> 'b res) \<Rightarrow> 'a list \<Rightarrow> 'b \<Rightarrow> 'b res" where
  "res_fold f [] acc = Inr acc"
| "res_fold f (x # xs) acc = res_bind (f x acc) (res_fold f xs)"

lemma res_fold_append:
  "res_fold f (xs @ ys) acc = res_bind (res_fold f xs acc) (res_fold f ys)"
proof (induction xs arbitrary: acc)
  case (Cons x xs)
  then show ?case by (cases "f x acc") simp_all
qed simp

text \<open>A loop fails exactly where its body first fails.\<close>

lemma res_fold_Inl:
  "res_fold f xs acc = Inl e \<longleftrightarrow>
     (\<exists>pre x post a. xs = pre @ x # post \<and> res_fold f pre acc = Inr a \<and> f x a = Inl e)"
proof
  show "\<exists>pre x post a. xs = pre @ x # post \<and> res_fold f pre acc = Inr a \<and> f x a = Inl e"
    if "res_fold f xs acc = Inl e"
    using that
  proof (induction xs arbitrary: acc)
    case (Cons x xs)
    show ?case
    proof (cases "f x acc")
      case (Inl e')
      with Cons.prems show ?thesis by (intro exI [of _ "[]"]) auto
    next
      case (Inr a)
      with Cons.prems have "res_fold f xs a = Inl e" by simp
      from Cons.IH [OF this] obtain pre y post b where
        "xs = pre @ y # post" "res_fold f pre a = Inr b" "f y b = Inl e"
        by blast
      with Inr show ?thesis by (intro exI [of _ "x # pre"]) auto
    qed
  qed simp
qed (auto simp: res_fold_append)

text \<open>An invariant of the body holds after the loop.\<close>

lemma res_fold_invariant:
  "res_fold f xs acc = Inr acc' \<Longrightarrow> I acc \<Longrightarrow>
     (\<And>x a a'. x \<in> set xs \<Longrightarrow> I a \<Longrightarrow> f x a = Inr a' \<Longrightarrow> I a') \<Longrightarrow> I acc'"
  by (induction xs arbitrary: acc) auto

section \<open>Dictionaries\<close>

text \<open>
  A Python \<open>dict\<close> keeps its keys in insertion order, and iteration, \<open>list(d)\<close> and the output of
  \<open>json.dumps\<close> follow that order; assigning to a present key keeps its place. An association list
  with distinct keys is that data structure, and \<open>AList.update\<close> is that assignment.
\<close>

type_synonym ('k, 'v) dict = "('k \<times> 'v) list"

definition dget :: "('k, 'v) dict \<Rightarrow> 'k \<Rightarrow> 'v option" where
  "dget d k = map_of d k"

definition dset :: "'k \<Rightarrow> 'v \<Rightarrow> ('k, 'v) dict \<Rightarrow> ('k, 'v) dict" where
  "dset k v d = AList.update k v d"

definition dkeys :: "('k, 'v) dict \<Rightarrow> 'k list" where
  "dkeys d = map fst d"

definition dict_wf :: "('k, 'v) dict \<Rightarrow> bool" where
  "dict_wf d = distinct (map fst d)"

text \<open>\<open>d[k]\<close> raises \<open>KeyError\<close> when the key is absent, \<open>d.get(k, v)\<close> falls back on \<open>v\<close>.\<close>

definition ditem :: "('k, 'v) dict \<Rightarrow> 'k \<Rightarrow> 'v res" where
  "ditem d k = (case dget d k of None \<Rightarrow> throw KeyError [] | Some v \<Rightarrow> Inr v)"

definition dget_or :: "('k, 'v) dict \<Rightarrow> 'k \<Rightarrow> 'v \<Rightarrow> 'v" where
  "dget_or d k v = (case dget d k of None \<Rightarrow> v | Some v' \<Rightarrow> v')"

text \<open>
  The interface the components use: a lookup, an assignment, the key list, and the laws that
  relate them.
\<close>

locale dictionary =
  fixes lookup :: "'d \<Rightarrow> 'k \<Rightarrow> 'v option"
    and assign :: "'k \<Rightarrow> 'v \<Rightarrow> 'd \<Rightarrow> 'd"
    and keys :: "'d \<Rightarrow> 'k list"
    and wf :: "'d \<Rightarrow> bool"
  assumes lookup_assign: "lookup (assign k v d) = (lookup d)(k \<mapsto> v)"
    and keys_assign: "keys (assign k v d) = (if k \<in> set (keys d) then keys d else keys d @ [k])"
    and keys_lookup: "k \<in> set (keys d) \<longleftrightarrow> lookup d k \<noteq> None"
    and wf_assign: "wf d \<Longrightarrow> wf (assign k v d)"
    and wf_keys: "wf d \<Longrightarrow> distinct (keys d)"
begin

lemma lookup_assign_same: "lookup (assign k v d) k = Some v"
  by (simp add: lookup_assign)

lemma lookup_assign_other: "k \<noteq> k' \<Longrightarrow> lookup (assign k v d) k' = lookup d k'"
  by (simp add: lookup_assign)

lemma set_keys_assign: "set (keys (assign k v d)) = insert k (set (keys d))"
  by (auto simp: keys_assign)

lemma keys_assign_present: "lookup d k \<noteq> None \<Longrightarrow> keys (assign k v d) = keys d"
  by (simp add: keys_assign keys_lookup)

text \<open>A run of assignments, as a comprehension or a loop over pairs performs.\<close>

lemma lookup_fold_assign:
  "lookup (fold (\<lambda>(k, v). assign k v) kvs d) x =
     (case map_of (rev kvs) x of None \<Rightarrow> lookup d x | Some v \<Rightarrow> Some v)"
  by (induction kvs arbitrary: d) (auto simp: lookup_assign map_add_def split: option.splits)

lemma wf_fold_assign: "wf d \<Longrightarrow> wf (fold (\<lambda>(k, v). assign k v) kvs d)"
  by (induction kvs arbitrary: d) (auto simp: wf_assign)

end

interpretation pydict: dictionary dget dset dkeys dict_wf
proof (unfold_locales, goal_cases)
  case (1 k v d)
  then show ?case by (simp add: dget_def dset_def AList.update_conv' fun_eq_iff)
next
  case (2 k v d)
  then show ?case by (simp add: dkeys_def dset_def AList.update_keys)
next
  case (3 k d)
  then show ?case by (simp add: dkeys_def dget_def map_of_eq_None_iff)
next
  case (4 d k v)
  then show ?case by (simp add: dict_wf_def dset_def AList.distinct_update)
next
  case (5 d)
  then show ?case by (simp add: dict_wf_def dkeys_def)
qed

lemmas dict_simps [simp] =
  pydict.lookup_assign pydict.set_keys_assign pydict.keys_assign_present pydict.wf_assign

lemma dict_wf_Nil [simp]: "dict_wf []"
  by (simp add: dict_wf_def)

lemma dict_wf_Cons [simp]: "dict_wf ((k, v) # d) \<longleftrightarrow> k \<notin> set (dkeys d) \<and> dict_wf d"
  by (simp add: dict_wf_def dkeys_def)

lemma dget_Nil [simp]: "dget [] k = None"
  by (simp add: dget_def)

lemma dget_Cons [simp]: "dget ((k, v) # d) k' = (if k' = k then Some v else dget d k')"
  by (simp add: dget_def)

lemma dkeys_Nil [simp]: "dkeys [] = []"
  by (simp add: dkeys_def)

lemma dkeys_Cons [simp]: "dkeys (p # d) = fst p # dkeys d"
  by (simp add: dkeys_def)

lemma dget_in_set: "dget d k = Some v \<Longrightarrow> (k, v) \<in> set d"
  by (simp add: dget_def map_of_SomeD)

lemma dget_of_set: "dict_wf d \<Longrightarrow> (k, v) \<in> set d \<Longrightarrow> dget d k = Some v"
  by (simp add: dict_wf_def dget_def)

lemma in_dkeys: "k \<in> set (dkeys d) \<longleftrightarrow> (\<exists>v. dget d k = Some v)"
  using pydict.keys_lookup [of k d] by auto

lemma ditem_Inr [simp]: "ditem d k = Inr v \<longleftrightarrow> dget d k = Some v"
  by (simp add: ditem_def split: option.splits)

lemma ditem_Some [simp]: "dget d k = Some v \<Longrightarrow> ditem d k = Inr v"
  by simp

text \<open>A dictionary comprehension, or a loop of assignments into an empty dictionary.\<close>

definition dict_of :: "('k \<times> 'v) list \<Rightarrow> ('k, 'v) dict" where
  "dict_of kvs = fold (\<lambda>(k, v). dset k v) kvs []"

lemma dict_of_wf [simp]: "dict_wf (dict_of kvs)"
  by (simp add: dict_of_def pydict.wf_fold_assign)

lemma dget_dict_of: "dget (dict_of kvs) k = map_of (rev kvs) k"
  by (simp add: dict_of_def pydict.lookup_fold_assign split: option.splits)

lemma dset_fresh: "k \<notin> set (dkeys d) \<Longrightarrow> dset k v d = d @ [(k, v)]"
  by (induction d) (auto simp: dset_def)

lemma fold_dset_fresh: "dict_wf (d @ kvs) \<Longrightarrow> fold (\<lambda>(k, v). dset k v) kvs d = d @ kvs"
proof (induction kvs arbitrary: d)
  case (Cons p kvs)
  obtain k v where p: "p = (k, v)" by (cases p)
  with Cons.prems have "k \<notin> set (dkeys d)" by (auto simp: dict_wf_def dkeys_def)
  with p Cons show ?case by (simp add: dset_fresh)
qed simp

lemma dict_of_id: "dict_wf kvs \<Longrightarrow> dict_of kvs = kvs"
  by (simp add: dict_of_def fold_dset_fresh)

section \<open>The builtin min with a key\<close>

text \<open>
  \<open>min(xs, key=f)\<close> returns the first element whose key is least, and raises on an empty iterable.
\<close>

definition py_min_by :: "('a \<Rightarrow> 'b::linorder) \<Rightarrow> 'a list \<Rightarrow> 'a res" where
  "py_min_by f xs =
     (if xs = [] then throw ValueError ''min() arg is an empty sequence''
      else Inr (arg_min_list f xs))"

lemma py_min_by_Inr:
  assumes "py_min_by f xs = Inr x"
  shows "x \<in> set xs" and "y \<in> set xs \<Longrightarrow> f x \<le> f y"
proof -
  from assms have ne: "xs \<noteq> []" and x: "x = arg_min_list f xs"
    by (auto simp: py_min_by_def split: if_splits)
  from ne x show "x \<in> set xs" by (simp add: arg_min_list_in)
  show "f x \<le> f y" if "y \<in> set xs"
    using that ne by (simp add: x f_arg_min_list_f)
qed

text \<open>With keys that tell the elements apart, the order of the list does not matter.\<close>

lemma py_min_by_cong:
  assumes "set xs = set ys" and "inj_on f (set xs)"
  shows "py_min_by f xs = py_min_by f ys"
proof (cases "xs = []")
  case True
  with assms(1) show ?thesis by (simp add: py_min_by_def)
next
  case False
  with assms(1) have ne: "xs \<noteq> []" "ys \<noteq> []" by auto
  then have x: "arg_min_list f xs \<in> set xs" and y: "arg_min_list f ys \<in> set xs"
    using arg_min_list_in assms(1) by auto
  have "f (arg_min_list f xs) = f (arg_min_list f ys)"
    using ne assms(1) by (simp add: f_arg_min_list_f)
  with assms(2) x y have "arg_min_list f xs = arg_min_list f ys" by (simp add: inj_on_eq_iff)
  with ne show ?thesis by (simp add: py_min_by_def)
qed

lemma py_min_by_total: "xs \<noteq> [] \<Longrightarrow> \<exists>x. py_min_by f xs = Inr x"
  by (simp add: py_min_by_def)

section \<open>Codecs\<close>

text \<open>
  The contract of every encoder the program feeds to another party: what the receiver decodes is
  what was encoded. \<open>valid\<close> is the set of values the contract covers.
\<close>

locale codec =
  fixes encode :: "'a \<Rightarrow> 'b"
    and decode :: "'b \<Rightarrow> 'a option"
    and valid :: "'a \<Rightarrow> bool"
  assumes decode_encode: "valid x \<Longrightarrow> decode (encode x) = Some x"
begin

lemma encode_inject: "valid x \<Longrightarrow> valid y \<Longrightarrow> encode x = encode y \<Longrightarrow> x = y"
  by (metis decode_encode option.inject)

lemma map_decode_encode: "\<forall>x \<in> set xs. valid x \<Longrightarrow> map (decode \<circ> encode) xs = map Some xs"
  by (simp add: decode_encode)

end

end
