(* ===== verification/Py_String.thy ===== *)
theory Py_String
  imports Lab_Prelude
begin

text \<open>
  The Python string operations the program uses. A \<open>str\<close> is a \<open>string\<close>, one \<open>char\<close> per code point:
  the model's strings hold the code points 0 to 255, and every operation below is the Python one on
  those (whitespace, digits and case as Python has them there). The lemmas show the round trips
  (\<open>split\<close> and \<open>join\<close>, \<open>str(int)\<close> and \<open>int(str)\<close>) and what replacing, cutting and re-joining text
  can bring into it, which the redaction of passwords rests on.
\<close>

section \<open>Characters\<close>

definition is_digit :: "char \<Rightarrow> bool" where
  "is_digit c \<longleftrightarrow> 48 \<le> (of_char c :: nat) \<and> (of_char c :: nat) \<le> 57"

definition is_hex :: "char \<Rightarrow> bool" where
  "is_hex c \<longleftrightarrow> is_digit c \<or> (65 \<le> (of_char c :: nat) \<and> (of_char c :: nat) \<le> 70)
     \<or> (97 \<le> (of_char c :: nat) \<and> (of_char c :: nat) \<le> 102)"

text \<open>\<open>str.isspace\<close> on these code points: the whitespace of \<open>strip()\<close> and \<open>split()\<close>.\<close>

definition is_ws :: "char \<Rightarrow> bool" where
  "is_ws c \<longleftrightarrow> (9 \<le> (of_char c :: nat) \<and> (of_char c :: nat) \<le> 13)
     \<or> (28 \<le> (of_char c :: nat) \<and> (of_char c :: nat) \<le> 32)
     \<or> (of_char c :: nat) = 133 \<or> (of_char c :: nat) = 160"

definition lower_char :: "char \<Rightarrow> char" where
  "lower_char c =
     (let n = (of_char c :: nat)
      in if (65 \<le> n \<and> n \<le> 90) \<or> (192 \<le> n \<and> n \<le> 222 \<and> n \<noteq> 215) then char_of (n + 32) else c)"

definition py_lower :: "string \<Rightarrow> string" where
  "py_lower s = map lower_char s"

section \<open>strip, split, join\<close>

definition py_strip :: "string \<Rightarrow> string" where
  "py_strip s = rev (dropWhile is_ws (rev (dropWhile is_ws s)))"

text \<open>\<open>s.split()\<close>: the maximal runs of non-whitespace.\<close>

function py_words :: "string \<Rightarrow> string list" where
  "py_words s =
     (let t = dropWhile is_ws s
      in if t = [] then [] else takeWhile (\<lambda>c. \<not> is_ws c) t # py_words (dropWhile (\<lambda>c. \<not> is_ws c) t))"
  by pat_completeness auto

lemma py_words_decreases:
  assumes "dropWhile is_ws s \<noteq> []"
  shows "length (dropWhile (\<lambda>c. \<not> is_ws c) (dropWhile is_ws s)) < length s"
proof -
  from assms obtain c t where ct: "dropWhile is_ws s = c # t" and c: "\<not> is_ws c"
    by (metis dropWhile_eq_Cons_conv neq_Nil_conv)
  have "length (dropWhile (\<lambda>c. \<not> is_ws c) t) \<le> length t"
    by (rule length_dropWhile_le)
  moreover have "length (c # t) \<le> length s"
    using ct length_dropWhile_le [of is_ws s] by simp
  ultimately show ?thesis by (simp add: ct c)
qed

termination py_words
  by (relation "measure length") (simp_all add: py_words_decreases)

declare py_words.simps [simp del]

text \<open>\<open>s.split(c, n)\<close> with a one-character separator: at most \<open>n\<close> cuts. \<open>s.split(c)\<close> has no limit.\<close>

fun split_max :: "char \<Rightarrow> nat \<Rightarrow> string \<Rightarrow> string list" where
  "split_max c 0 s = [s]"
| "split_max c (Suc n) s =
     (case dropWhile (\<lambda>x. x \<noteq> c) s of
        [] \<Rightarrow> [s]
      | _ # r \<Rightarrow> takeWhile (\<lambda>x. x \<noteq> c) s # split_max c n r)"

definition py_split :: "char \<Rightarrow> string \<Rightarrow> string list" where
  "py_split c s = split_max c (length s) s"

fun py_join :: "string \<Rightarrow> string list \<Rightarrow> string" where
  "py_join sep [] = []"
| "py_join sep [x] = x"
| "py_join sep (x # y # ys) = x @ sep @ py_join sep (y # ys)"

lemma split_max_not_Nil [simp]: "split_max c n s \<noteq> []"
  by (cases n) (auto split: list.splits)

lemma py_split_not_Nil [simp]: "py_split c s \<noteq> []"
  by (simp add: py_split_def)

lemma py_join_Cons: "xs \<noteq> [] \<Longrightarrow> py_join sep (x # xs) = x @ sep @ py_join sep xs"
  by (cases xs) simp_all

lemma join_split_max: "py_join [c] (split_max c n s) = s"
proof (induction n arbitrary: s)
  case 0
  show ?case by simp
next
  case (Suc n)
  show ?case
  proof (cases "dropWhile (\<lambda>x. x \<noteq> c) s")
    case Nil
    then show ?thesis by (simp del: dropWhile_eq_Nil_conv)
  next
    case (Cons d r)
    with Cons have "d = c" using hd_dropWhile [of "\<lambda>x. x \<noteq> c" s] by auto
    with Cons have "takeWhile (\<lambda>x. x \<noteq> c) s @ c # r = s"
      using takeWhile_dropWhile_id [of "\<lambda>x. x \<noteq> c" s] by simp
    with Cons Suc show ?thesis by (simp add: py_join_Cons)
  qed
qed

lemma join_py_split: "py_join [c] (py_split c s) = s"
  by (simp add: py_split_def join_split_max)

lemma split_max_length: "length (split_max c n s) \<le> Suc n"
  by (induction n arbitrary: s) (auto split: list.splits)

text \<open>Enough cuts leave no separator inside a piece, so fields without it come back whole.\<close>

lemma split_max_enough: "length s \<le> n \<Longrightarrow> x \<in> set (split_max c n s) \<Longrightarrow> c \<notin> set x"
proof (induction n arbitrary: s)
  case 0
  then show ?case by simp
next
  case (Suc n)
  show ?case
  proof (cases "dropWhile (\<lambda>x. x \<noteq> c) s")
    case Nil
    with Suc.prems have "x = s" by (simp del: dropWhile_eq_Nil_conv)
    with Nil show ?thesis by auto
  next
    case (Cons d r)
    then have "length r \<le> n"
      using Suc.prems(1) length_dropWhile_le [of "\<lambda>x. x \<noteq> c" s] by simp
    with Cons Suc show ?thesis
      by (auto dest: set_takeWhileD)
  qed
qed

lemma py_split_no_sep: "x \<in> set (py_split c s) \<Longrightarrow> c \<notin> set x"
  unfolding py_split_def by (rule split_max_enough) simp_all

lemma split_max_append_sep:
  "c \<notin> set x \<Longrightarrow> split_max c (Suc n) (x @ c # r) = x # split_max c n r"
proof -
  assume c: "c \<notin> set x"
  then have "dropWhile (\<lambda>d. d \<noteq> c) (x @ c # r) = c # r"
    by (induction x) auto
  moreover from c have "takeWhile (\<lambda>d. d \<noteq> c) (x @ c # r) = x"
    by (induction x) auto
  ultimately show ?thesis by simp
qed

lemma split_max_no_sep: "c \<notin> set x \<Longrightarrow> split_max c n x = [x]"
proof (cases n)
  case (Suc m)
  assume "c \<notin> set x"
  then have "dropWhile (\<lambda>d. d \<noteq> c) x = []" by (induction x) auto
  with Suc show ?thesis by (simp del: dropWhile_eq_Nil_conv)
qed simp

section \<open>Substrings, cutting and replacing\<close>

definition py_in :: "string \<Rightarrow> string \<Rightarrow> bool" where
  "py_in p s = sublist p s"

text \<open>\<open>s[-n:]\<close>, for positive \<open>n\<close>.\<close>

definition last_n :: "nat \<Rightarrow> string \<Rightarrow> string" where
  "last_n n s = drop (length s - n) s"

text \<open>
  \<open>s.replace(old, new)\<close>: left to right, non-overlapping; an empty \<open>old\<close> matches at every position.
\<close>

function py_replace :: "string \<Rightarrow> string \<Rightarrow> string \<Rightarrow> string" where
  "py_replace old new [] = (if old = [] then new else [])"
| "py_replace old new (c # cs) =
     (if old = [] then new @ c # py_replace old new cs
      else if prefix old (c # cs) then new @ py_replace old new (drop (length old) (c # cs))
      else c # py_replace old new cs)"
  by pat_completeness auto
termination
  by (relation "measure (\<lambda>(old, new, s). length s)") auto

lemma sublist_last_n [simp]: "sublist (last_n n s) s"
  by (simp add: last_n_def)

lemma prefix_py_replace:
  assumes "new = a # m" and "a \<notin> set q" and "old \<noteq> []"
  shows "prefix q (py_replace old new s) \<Longrightarrow> prefix q s"
  using assms(2)
proof (induction s arbitrary: q)
  case Nil
  with assms(3) show ?case by simp
next
  case (Cons c cs)
  show ?case
  proof (cases q)
    case Nil
    then show ?thesis by simp
  next
    case (Cons d q')
    with Cons.prems Cons.IH [of q'] assms show ?thesis
      by (auto split: if_splits)
  qed
qed

lemma sublist_between:
  assumes "sublist p (a # m @ [b])" and "a \<notin> set p" and "b \<notin> set p"
  shows "sublist p m"
proof -
  from assms(1) obtain us vs where e: "a # m @ [b] = us @ p @ vs"
    by (auto simp: sublist_def)
  show ?thesis
  proof (cases "p = []")
    case False
    from e assms(2) False obtain us' where us: "us = a # us'" by (cases us) (auto simp: Cons_eq_append_conv)
    with e have e2: "m @ [b] = us' @ p @ vs" by simp
    from e2 assms(3) False obtain vs' where "vs = vs' @ [b]"
      by (cases vs rule: rev_cases) (auto dest: last_in_set, metis append_is_Nil_conv last_appendR last_in_set last_snoc)
    with e2 show ?thesis by (auto simp: sublist_def)
  qed simp
qed

text \<open>
  After \<open>out.replace(p, "<redacted>")\<close> the text no longer contains \<open>p\<close>, as long as \<open>p\<close> has neither
  of the marker's brackets and is not itself part of the marker's word: a new occurrence could only
  arise inside a marker or across its edge.
\<close>

lemma replace_removes_here:
  assumes new: "new = a # m @ [b]" and ab: "a \<notin> set p" "b \<notin> set p" and m: "\<not> sublist p m" and o: "\<not> sublist p o'"
  shows "\<not> sublist p (new @ o')"
proof
  assume "sublist p (new @ o')"
  then consider "sublist p new" | "sublist p o'" | q1 q2 where "p = q1 @ q2" "suffix q1 new" "prefix q2 o'"
    unfolding sublist_append by blast
  then show False
  proof cases
    case 1
    then show False using sublist_between [of p a m b] new ab m by simp
  next
    case 3
    have "q1 = []"
    proof (rule ccontr)
      assume "q1 \<noteq> []"
      with 3(2) new have "last q1 = b"
        by (auto simp: suffix_def) (metis append_Cons append_assoc last_appendR last_snoc)
      with \<open>q1 \<noteq> []\<close> 3(1) ab(2) show False by auto
    qed
    with 3 o show False by (auto dest: prefix_imp_sublist)
  qed (use o in simp)
qed

lemma replace_removes:
  assumes new: "new = a # m @ [b]" and ab: "a \<notin> set p" "b \<notin> set p" and p: "p \<noteq> []"
    and m: "\<not> sublist p m"
  shows "\<not> sublist p (py_replace p new s)"
proof (induction s rule: length_induct)
  case (1 s)
  show ?case
  proof (cases s)
    case Nil
    with p show ?thesis by simp
  next
    case (Cons c cs)
    show ?thesis
    proof (cases "prefix p (c # cs)")
      case True
      let ?o = "py_replace p new (drop (length p) (c # cs))"
      have out: "py_replace p new s = new @ ?o" using Cons True p by simp
      have "length (drop (length p) (c # cs)) < length s" using Cons p by (cases p) simp_all
      with 1 have o: "\<not> sublist p ?o" by blast
      show ?thesis unfolding out by (rule replace_removes_here [OF new ab m o])
    next
      case False
      have out: "py_replace p new s = c # py_replace p new cs" using Cons False p by simp
      from 1 Cons have o: "\<not> sublist p (py_replace p new cs)" by simp
      have "\<not> prefix p (c # py_replace p new cs)"
      proof
        assume pre: "prefix p (c # py_replace p new cs)"
        from p obtain d q where dq: "p = d # q" by (cases p) auto
        with pre have "d = c" and q: "prefix q (py_replace p new cs)" by auto
        have "prefix q cs"
          by (rule prefix_py_replace [where a = a and m = "m @ [b]", OF _ _ p q]) (use new ab dq in auto)
        with dq \<open>d = c\<close> False show False by simp
      qed
      with o out show ?thesis by (simp add: sublist_Cons_right)
    qed
  qed
qed


section \<open>Joining words again\<close>

lemma sublist_py_words: "w \<in> set (py_words s) \<Longrightarrow> sublist w s"
proof (induction s rule: py_words.induct)
  case (1 s)
  let ?t = "dropWhile is_ws s"
  have t: "sublist ?t s" by simp
  show ?case
  proof (cases "?t = []")
    case True
    with 1 show ?thesis by (simp add: py_words.simps [of s])
  next
    case False
    then have "py_words s = takeWhile (\<lambda>c. \<not> is_ws c) ?t # py_words (dropWhile (\<lambda>c. \<not> is_ws c) ?t)"
      by (simp add: py_words.simps [of s] Let_def del: dropWhile_eq_Nil_conv)
    with 1 consider "w = takeWhile (\<lambda>c. \<not> is_ws c) ?t"
      | "w \<in> set (py_words (dropWhile (\<lambda>c. \<not> is_ws c) ?t))"
      by auto
    then show ?thesis
    proof cases
      case 1
      then show ?thesis using t sublist_takeWhile sublist_order.order.trans by metis
    next
      case 2
      with "1.IH" False have "sublist w (dropWhile (\<lambda>c. \<not> is_ws c) ?t)" by auto
      then show ?thesis using t sublist_dropWhile sublist_order.order.trans by metis
    qed
  qed
qed

text \<open>
  A text without separator characters that occurs in a joined list occurs in one of its pieces.
\<close>

lemma sublist_py_join:
  "sublist p (py_join [c] xs) \<Longrightarrow> c \<notin> set p \<Longrightarrow> p \<noteq> [] \<Longrightarrow> \<exists>x \<in> set xs. sublist p x"
proof (induction xs rule: induct_list012)
  case (3 x y zs)
  let ?r = "py_join [c] (y # zs)"
  from 3(3) have "sublist p (x @ c # ?r)" by simp
  then consider "sublist p x" | "sublist p (c # ?r)"
    | q1 q2 where "p = q1 @ q2" "suffix q1 x" "prefix q2 (c # ?r)"
    unfolding sublist_append by blast
  then show ?case
  proof cases
    case 2
    with 3(4,5) have "sublist p ?r" by (cases p) (auto simp: sublist_Cons_right)
    with 3(2,4,5) show ?thesis by auto
  next
    case 3
    with \<open>c \<notin> set p\<close> have "q2 = []" by (cases q2) auto
    with 3 show ?thesis by (auto dest: suffix_imp_sublist)
  qed auto
qed simp_all

text \<open>So \<open>" ".join(out.split())\<close> cannot bring a whitespace-free text into \<open>out\<close>.\<close>

lemma sublist_squeeze:
  assumes "sublist p (py_join [CHR '' ''] (py_words s))" and "\<forall>c \<in> set p. \<not> is_ws c" and "p \<noteq> []"
  shows "sublist p s"
proof -
  have "CHR '' '' \<notin> set p" using assms(2) by (auto simp: is_ws_def)
  with sublist_py_join [OF assms(1)] assms(3) obtain w where "w \<in> set (py_words s)" "sublist p w"
    by blast
  then show ?thesis by (metis sublist_py_words sublist_order.order.trans)
qed

section \<open>Integers as text\<close>

definition digit_char :: "nat \<Rightarrow> char" where
  "digit_char d = char_of (48 + d)"

definition digit_val :: "char \<Rightarrow> nat" where
  "digit_val c = of_char c - 48"

text \<open>\<open>str(n)\<close>.\<close>

fun nat_str :: "nat \<Rightarrow> string" where
  "nat_str n = (if n < 10 then [digit_char n] else nat_str (n div 10) @ [digit_char (n mod 10)])"

declare nat_str.simps [simp del]

definition int_str :: "int \<Rightarrow> string" where
  "int_str i = (if i < 0 then CHR ''-'' # nat_str (nat (- i)) else nat_str (nat i))"

text \<open>
  \<open>int(s)\<close>: surrounding whitespace, one sign, and decimal digits with single underscores between
  digits; anything else raises \<open>ValueError\<close>.
\<close>

fun digits_tail :: "nat \<Rightarrow> string \<Rightarrow> nat option" where
  "digits_tail a [] = Some a"
| "digits_tail a (c # cs) =
     (if is_digit c then digits_tail (10 * a + digit_val c) cs
      else if c = CHR ''_'' then
        (case cs of
           [] \<Rightarrow> None
         | d # ds \<Rightarrow> if is_digit d then digits_tail (10 * a + digit_val d) ds else None)
      else None)"

fun digits_nat :: "string \<Rightarrow> nat option" where
  "digits_nat [] = None"
| "digits_nat (c # cs) = (if is_digit c then digits_tail (digit_val c) cs else None)"

definition py_int :: "string \<Rightarrow> int res" where
  "py_int s =
     (let t = py_strip s;
          r = (case t of
                 [] \<Rightarrow> None
               | c # cs \<Rightarrow>
                   if c = CHR ''-'' then map_option (\<lambda>n. - int n) (digits_nat cs)
                   else if c = CHR ''+'' then map_option int (digits_nat cs)
                   else map_option int (digits_nat t))
      in case r of
           None \<Rightarrow> throw ValueError (''invalid literal for int() with base 10: '' @ s)
         | Some i \<Rightarrow> Inr i)"

lemma of_char_digit_char: "d < 10 \<Longrightarrow> (of_char (digit_char d) :: nat) = 48 + d"
  by (simp add: digit_char_def)

lemma is_digit_digit_char [simp]: "d < 10 \<Longrightarrow> is_digit (digit_char d)"
  by (simp add: is_digit_def of_char_digit_char)

lemma digit_val_digit_char [simp]: "d < 10 \<Longrightarrow> digit_val (digit_char d) = d"
  by (simp add: digit_val_def of_char_digit_char)

lemma is_digit_not_ws: "is_digit c \<Longrightarrow> \<not> is_ws c"
  by (auto simp: is_digit_def is_ws_def)

lemma nat_str_digits: "c \<in> set (nat_str n) \<Longrightarrow> is_digit c"
proof (induction n rule: nat_str.induct)
  case (1 n)
  then show ?case by (cases "n < 10") (auto simp: nat_str.simps [of n])
qed

lemma nat_str_not_Nil [simp]: "nat_str n \<noteq> []"
  by (subst nat_str.simps) simp

lemma digits_tail_append:
  "\<forall>c \<in> set xs. is_digit c \<Longrightarrow> digits_tail a (xs @ ys) = digits_tail (foldl (\<lambda>b c. 10 * b + digit_val c) a xs) ys"
  by (induction xs arbitrary: a) simp_all

lemma foldl_nat_str: "foldl (\<lambda>b c. 10 * b + digit_val c) 0 (nat_str n) = n"
proof (induction n rule: nat_str.induct)
  case (1 n)
  then show ?case by (cases "n < 10") (simp_all add: nat_str.simps [of n])
qed

lemma digits_nat_nat_str: "digits_nat (nat_str n) = Some n"
proof (cases "nat_str n")
  case (Cons c cs)
  have all: "\<forall>d \<in> set (c # cs). is_digit d" using nat_str_digits [of _ n] Cons by simp
  have "digits_nat (nat_str n) = digits_tail 0 (c # cs)" using Cons all by simp
  also have "\<dots> = digits_tail (foldl (\<lambda>b c. 10 * b + digit_val c) 0 (c # cs)) []"
    using digits_tail_append [of "c # cs" 0 "[]"] all by simp
  also have "\<dots> = Some n" using foldl_nat_str [of n] Cons by simp
  finally show ?thesis .
qed simp

lemma py_strip_id: "s \<noteq> [] \<Longrightarrow> \<not> is_ws (hd s) \<Longrightarrow> \<not> is_ws (last s) \<Longrightarrow> py_strip s = s"
proof -
  assume s: "s \<noteq> []" "\<not> is_ws (hd s)" "\<not> is_ws (last s)"
  then have "dropWhile is_ws s = s" by (simp add: dropWhile_eq_self_iff)
  moreover from s have "dropWhile is_ws (rev s) = rev s" by (simp add: dropWhile_eq_self_iff hd_rev)
  ultimately show ?thesis by (simp add: py_strip_def)
qed

lemma nat_str_hd_last: "is_digit (hd (nat_str n))" "is_digit (last (nat_str n))"
  using nat_str_digits [of "hd (nat_str n)" n] nat_str_digits [of "last (nat_str n)" n] by simp_all

theorem py_int_int_str: "py_int (int_str i) = Inr i"
proof (cases "i < 0")
  case True
  have "py_strip (CHR ''-'' # nat_str (nat (- i))) = CHR ''-'' # nat_str (nat (- i))"
    using nat_str_hd_last(2) [of "nat (- i)"] is_digit_not_ws
    by (intro py_strip_id) (auto simp: is_ws_def)
  with True show ?thesis by (simp add: py_int_def int_str_def digits_nat_nat_str)
next
  case False
  have st: "py_strip (nat_str (nat i)) = nat_str (nat i)"
    using nat_str_hd_last [of "nat i"] is_digit_not_ws by (intro py_strip_id) auto
  obtain c cs where cs: "nat_str (nat i) = c # cs" by (cases "nat_str (nat i)") auto
  then have "is_digit c" using nat_str_hd_last(1) [of "nat i"] by simp
  then have "c \<noteq> CHR ''-''" "c \<noteq> CHR ''+''" by (auto simp: is_digit_def)
  with False st cs show ?thesis
    using digits_nat_nat_str [of "nat i"] by (simp add: py_int_def int_str_def)
qed

interpretation decimal: codec int_str "\<lambda>s. case py_int s of Inl _ \<Rightarrow> None | Inr i \<Rightarrow> Some i" "\<lambda>_. True"
  by unfold_locales (simp add: py_int_int_str)

section \<open>The regular expressions of the program\<close>

text \<open>
  \<open>re.findall(re.escape(m) + r"(\d+)", s)\<close>: the digit runs that follow \<open>m\<close>, left to right, for a
  non-empty marker \<open>m\<close>; \<open>re.search\<close> with the same pattern finds the first of them.
\<close>

function find_numbers :: "string \<Rightarrow> string \<Rightarrow> string list" where
  "find_numbers m [] = []"
| "find_numbers m (c # cs) =
     (let r = drop (length m) (c # cs); ds = takeWhile is_digit r
      in if prefix m (c # cs) \<and> ds \<noteq> [] then ds # find_numbers m (drop (length ds) r)
         else find_numbers m cs)"
  by pat_completeness auto
termination
  by (relation "measure (\<lambda>(m, s). length s)") auto

lemma find_numbers_digits: "ds \<in> set (find_numbers m s) \<Longrightarrow> ds \<noteq> [] \<and> (\<forall>c \<in> set ds. is_digit c)"
proof (induction m s rule: find_numbers.induct)
  case (2 m c cs)
  let ?r = "drop (length m) (c # cs)"
  show ?case
  proof (cases "prefix m (c # cs) \<and> takeWhile is_digit ?r \<noteq> []")
    case True
    with 2 show ?thesis by (auto simp: Let_def dest: set_takeWhileD)
  next
    case False
    then have "find_numbers m (c # cs) = find_numbers m cs"
      by (simp only: find_numbers.simps Let_def if_False)
    with 2 False show ?thesis by metis
  qed
qed simp

text \<open>A MAC address after a literal: \<open>lit([0-9A-Fa-f]{2}(?::[0-9A-Fa-f]{2}){5})\<close>, leftmost match.\<close>

definition mac_shape :: "string \<Rightarrow> bool" where
  "mac_shape s \<longleftrightarrow> length s = 17 \<and>
     list_all (\<lambda>(i, c). if i mod 3 = 2 then c = CHR '':'' else is_hex c) (enumerate 0 s)"

fun search_mac :: "string \<Rightarrow> string \<Rightarrow> string option" where
  "search_mac lit [] = None"
| "search_mac lit (c # cs) =
     (let m = take 17 (drop (length lit) (c # cs))
      in if prefix lit (c # cs) \<and> mac_shape m then Some m else search_mac lit cs)"

lemma search_mac_shape: "search_mac lit s = Some m \<Longrightarrow> mac_shape m"
  by (induction s) (auto simp: Let_def split: if_splits)

end
