(* ===== verification/Py_Json.thy ===== *)
theory Py_Json
  imports Py_String
begin

text \<open>
  JSON values as the Python program handles them: \<open>json.loads\<close> and \<open>json.dumps\<close>, and the dynamic
  operations applied to a decoded value (truth, \<open>.get\<close>, iteration, \<open>==\<close>, \<open>int()\<close>, \<open>str()\<close>, \<open>repr()\<close>),
  each with the exception it raises on a value of the wrong type. The lemmas show that the parser's
  fuel never decides a result and that \<open>json.loads\<close> gives back what \<open>json.dumps\<close> wrote.

  A float is kept as its literal, read as the decimal number it denotes (rounding to a double is not
  modelled). A \<open>\u\<close> escape of a code point above 255 is outside the model's strings and is treated as
  undecodable.
\<close>

section \<open>Values\<close>

datatype json =
    JNull
  | JBool bool
  | JInt int
  | JFloat string
  | JStr string
  | JList "json list"
  | JObj "(string \<times> json) list"

abbreviation dquote :: char where "dquote \<equiv> CHR 0x22"
abbreviation squote :: char where "squote \<equiv> CHR 0x27"
abbreviation backslash :: char where "backslash \<equiv> CHR 0x5C"
abbreviation newline :: char where "newline \<equiv> CHR 0x0A"

section \<open>Printing: json.dumps\<close>

definition hex_digit :: "nat \<Rightarrow> char" where
  "hex_digit d = (if d < 10 then char_of (48 + d) else char_of (87 + d))"

definition hex2 :: "nat \<Rightarrow> string" where
  "hex2 n = [hex_digit (n div 16), hex_digit (n mod 16)]"

text \<open>\<open>ensure_ascii\<close> is on: everything outside the printable ASCII characters is escaped.\<close>

definition json_esc :: "char \<Rightarrow> string" where
  "json_esc c =
     (let n = (of_char c :: nat)
      in if c = dquote \<or> c = backslash then [backslash, c]
         else if c = newline then [backslash, CHR ''n'']
         else if c = CHR 0x0D then [backslash, CHR ''r'']
         else if c = CHR 0x09 then [backslash, CHR ''t'']
         else if c = CHR 0x0C then [backslash, CHR ''f'']
         else if c = CHR 0x08 then [backslash, CHR ''b'']
         else if 32 \<le> n \<and> n \<le> 126 then [c]
         else backslash # ''u00'' @ hex2 n)"

definition json_quote :: "string \<Rightarrow> string" where
  "json_quote s = dquote # concat (map json_esc s) @ [dquote]"

text \<open>With \<open>indent=k\<close> every item stands on a line of its own; without, items are separated by a blank.\<close>

definition json_nl :: "nat option \<Rightarrow> nat \<Rightarrow> string" where
  "json_nl ind l = (case ind of None \<Rightarrow> [] | Some k \<Rightarrow> newline # replicate (k * l) (CHR '' ''))"

definition json_sep :: "nat option \<Rightarrow> nat \<Rightarrow> string" where
  "json_sep ind l = (case ind of None \<Rightarrow> '', '' | Some k \<Rightarrow> CHR '','' # json_nl ind l)"

fun json_dump :: "nat option \<Rightarrow> nat \<Rightarrow> json \<Rightarrow> string"
  and json_items :: "nat option \<Rightarrow> nat \<Rightarrow> json list \<Rightarrow> string"
  and json_members :: "nat option \<Rightarrow> nat \<Rightarrow> (string \<times> json) list \<Rightarrow> string" where
  "json_dump ind l JNull = ''null''"
| "json_dump ind l (JBool b) = (if b then ''true'' else ''false'')"
| "json_dump ind l (JInt i) = int_str i"
| "json_dump ind l (JFloat f) = f"
| "json_dump ind l (JStr s) = json_quote s"
| "json_dump ind l (JList xs) =
     (if xs = [] then ''[]''
      else CHR ''['' # json_nl ind (Suc l) @ json_items ind (Suc l) xs @ json_nl ind l @ '']'')"
| "json_dump ind l (JObj ms) =
     (if ms = [] then ''{}''
      else CHR ''{'' # json_nl ind (Suc l) @ json_members ind (Suc l) ms @ json_nl ind l @ ''}'')"
| "json_items ind l [] = []"
| "json_items ind l (x # xs) =
     json_dump ind l x @ (if xs = [] then [] else json_sep ind l @ json_items ind l xs)"
| "json_members ind l [] = []"
| "json_members ind l (m # ms) =
     json_quote (fst m) @ '': '' @ json_dump ind l (snd m) @
     (if ms = [] then [] else json_sep ind l @ json_members ind l ms)"

definition json_dumps :: "nat option \<Rightarrow> json \<Rightarrow> string" where
  "json_dumps ind v = json_dump ind 0 v"

section \<open>Parsing: json.loads\<close>

definition json_ws :: "char \<Rightarrow> bool" where
  "json_ws c \<longleftrightarrow> c = CHR '' '' \<or> c = CHR 0x09 \<or> c = newline \<or> c = CHR 0x0D"

definition skip_ws :: "string \<Rightarrow> string" where
  "skip_ws s = dropWhile json_ws s"

definition hex_val :: "char \<Rightarrow> nat" where
  "hex_val c =
     (let n = (of_char c :: nat)
      in if is_digit c then n - 48 else if n \<ge> 97 then n - 87 else n - 55)"

fun json_unesc :: "char \<Rightarrow> char option" where
  "json_unesc c =
     (if c = dquote \<or> c = backslash \<or> c = CHR ''/'' then Some c
      else if c = CHR ''n'' then Some newline
      else if c = CHR ''r'' then Some (CHR 0x0D)
      else if c = CHR ''t'' then Some (CHR 0x09)
      else if c = CHR ''f'' then Some (CHR 0x0C)
      else if c = CHR ''b'' then Some (CHR 0x08)
      else None)"

text \<open>The rest of a string after its opening quote: its value and what follows the closing quote.\<close>

fun parse_str :: "string \<Rightarrow> (string \<times> string) option" where
  "parse_str [] = None"
| "parse_str (c # cs) =
     (if c = dquote then Some ([], cs)
      else if c = backslash then
        (case cs of
           [] \<Rightarrow> None
         | e # r \<Rightarrow>
             if e = CHR ''u'' then
               (case r of
                  h1 # h2 # h3 # h4 # r' \<Rightarrow>
                    let n = ((hex_val h1 * 16 + hex_val h2) * 16 + hex_val h3) * 16 + hex_val h4
                    in if is_hex h1 \<and> is_hex h2 \<and> is_hex h3 \<and> is_hex h4 \<and> n < 256
                       then map_option (apfst ((#) (char_of n))) (parse_str r')
                       else None
                | _ \<Rightarrow> None)
             else
               (case json_unesc e of
                  None \<Rightarrow> None
                | Some d \<Rightarrow> map_option (apfst ((#) d)) (parse_str r)))
      else if (of_char c :: nat) < 32 then None
      else map_option (apfst ((#) c)) (parse_str cs))"

definition dec_val :: "string \<Rightarrow> nat" where
  "dec_val ds = foldl (\<lambda>a c. 10 * a + digit_val c) 0 ds"

text \<open>A number: sign and integer part, then a fraction and an exponent when they are complete.\<close>

definition take_int :: "string \<Rightarrow> (string \<times> string) option" where
  "take_int s =
     (case s of
        [] \<Rightarrow> None
      | c # r \<Rightarrow>
          if c = CHR ''0'' then Some (''0'', r)
          else if is_digit c then Some (takeWhile is_digit s, dropWhile is_digit s)
          else None)"

definition take_frac :: "string \<Rightarrow> string \<times> string" where
  "take_frac s =
     (case s of
        c # r \<Rightarrow>
          if c = CHR ''.'' \<and> takeWhile is_digit r \<noteq> []
          then (c # takeWhile is_digit r, dropWhile is_digit r) else ([], s)
      | [] \<Rightarrow> ([], s))"

definition take_exp :: "string \<Rightarrow> string \<times> string" where
  "take_exp s =
     (case s of
        c # r \<Rightarrow>
          if c = CHR ''e'' \<or> c = CHR ''E'' then
            let (sg, t) = (case r of d # u \<Rightarrow> if d = CHR ''+'' \<or> d = CHR ''-'' then ([d], u) else ([], r)
                           | [] \<Rightarrow> ([], r))
            in if takeWhile is_digit t \<noteq> []
               then (c # sg @ takeWhile is_digit t, dropWhile is_digit t) else ([], s)
          else ([], s)
      | [] \<Rightarrow> ([], s))"

definition parse_num :: "string \<Rightarrow> (json \<times> string) option" where
  "parse_num s =
     (let (sg, t) = (case s of c # r \<Rightarrow> if c = CHR ''-'' then (''-'', r) else ([], s) | [] \<Rightarrow> ([], s))
      in case take_int t of
           None \<Rightarrow> None
         | Some (ip, r) \<Rightarrow>
             let (fr, r1) = take_frac r; (ex, r2) = take_exp r1
             in if fr = [] \<and> ex = []
                then Some (JInt (if sg = [] then int (dec_val ip) else - int (dec_val ip)), r)
                else Some (JFloat (sg @ ip @ fr @ ex), r2))"

definition json_consts :: "(string \<times> json) list" where
  "json_consts = [(''null'', JNull), (''true'', JBool True), (''false'', JBool False),
     (''NaN'', JFloat ''NaN''), (''Infinity'', JFloat ''Infinity''), (''-Infinity'', JFloat ''-Infinity'')]"

fun parse_const :: "(string \<times> json) list \<Rightarrow> string \<Rightarrow> (json \<times> string) option" where
  "parse_const [] s = parse_num s"
| "parse_const (p # ps) s =
     (if prefix (fst p) s then Some (snd p, drop (length (fst p)) s) else parse_const ps s)"

text \<open>The next character after whitespace; a member's key up to the blank after its colon.\<close>

definition next_char :: "string \<Rightarrow> (char \<times> string) option" where
  "next_char s = (case skip_ws s of [] \<Rightarrow> None | d # r \<Rightarrow> Some (d, r))"

definition parse_key :: "string \<Rightarrow> (string \<times> string) option" where
  "parse_key s =
     (case s of
        [] \<Rightarrow> None
      | c # cs \<Rightarrow>
          if c \<noteq> dquote then None
          else
            (case parse_str cs of
               None \<Rightarrow> None
             | Some (k, r) \<Rightarrow>
                 (case next_char r of
                    None \<Rightarrow> None
                  | Some (d, r1) \<Rightarrow> if d = CHR '':'' then Some (k, skip_ws r1) else None)))"

text \<open>
  The three mutually recursive scanners, on fuel: a value, the rest of an array, and the rest of an
  object whose members so far are in the dictionary. A repeated key takes the last value.
\<close>

fun parse_value :: "nat \<Rightarrow> string \<Rightarrow> (json \<times> string) option"
  and parse_array :: "nat \<Rightarrow> string \<Rightarrow> (json list \<times> string) option"
  and parse_object :: "nat \<Rightarrow> (string, json) dict \<Rightarrow> string \<Rightarrow> ((string, json) dict \<times> string) option" where
  "parse_value 0 s = None"
| "parse_value (Suc n) s =
     (case s of
        [] \<Rightarrow> None
      | c # cs \<Rightarrow>
          if c = dquote then map_option (apfst JStr) (parse_str cs)
          else if c = CHR ''{'' then
            (case next_char cs of
               None \<Rightarrow> None
             | Some (d, r) \<Rightarrow> if d = CHR ''}'' then Some (JObj [], r)
                             else map_option (apfst JObj) (parse_object n [] (d # r)))
          else if c = CHR ''['' then
            (case next_char cs of
               None \<Rightarrow> None
             | Some (d, r) \<Rightarrow> if d = CHR '']'' then Some (JList [], r)
                             else map_option (apfst JList) (parse_array n (d # r)))
          else parse_const json_consts s)"
| "parse_array 0 s = None"
| "parse_array (Suc n) s =
     (case parse_value n s of
        None \<Rightarrow> None
      | Some (v, r) \<Rightarrow>
          (case next_char r of
             None \<Rightarrow> None
           | Some (d, r1) \<Rightarrow>
               if d = CHR '']'' then Some ([v], r1)
               else if d = CHR '','' then map_option (apfst ((#) v)) (parse_array n (skip_ws r1))
               else None))"
| "parse_object 0 acc s = None"
| "parse_object (Suc n) acc s =
     (case parse_key s of
        None \<Rightarrow> None
      | Some (k, r) \<Rightarrow>
          (case parse_value n r of
             None \<Rightarrow> None
           | Some (v, r1) \<Rightarrow>
               (case next_char r1 of
                  None \<Rightarrow> None
                | Some (e, r2) \<Rightarrow>
                    if e = CHR ''}'' then Some (dset k v acc, r2)
                    else if e = CHR '','' then parse_object n (dset k v acc) (skip_ws r2)
                    else None)))"

definition json_loads :: "string \<Rightarrow> json res" where
  "json_loads s =
     (case parse_value (2 * length s + 1) (skip_ws s) of
        Some (v, r) \<Rightarrow> if skip_ws r = [] then Inr v else throw JSONDecodeError ''Extra data''
      | None \<Rightarrow> throw JSONDecodeError ''Expecting value'')"

section \<open>The scanners consume their input\<close>

lemma length_skip_ws: "length (skip_ws s) \<le> length s"
  by (simp add: skip_ws_def length_dropWhile_le)

lemma next_char_length: "next_char s = Some (d, r) \<Longrightarrow> length r < length s"
  using length_skip_ws [of s] by (auto simp: next_char_def split: list.splits)

lemma parse_str_length: "parse_str s = Some (x, r) \<Longrightarrow> length r < length s"
  by (induction s arbitrary: x r rule: parse_str.induct)
    (force split: if_splits list.splits option.splits simp: Let_def)+

lemma take_int_length: "take_int s = Some (x, r) \<Longrightarrow> length r < length s"
  by (auto simp: take_int_def le_imp_less_Suc length_dropWhile_le split: list.splits if_splits)

lemma take_frac_length: "take_frac s = (x, r) \<Longrightarrow> length r \<le> length s"
  by (auto simp: take_frac_def le_SucI length_dropWhile_le split: list.splits if_splits)

lemma take_exp_length: "take_exp s = (x, r) \<Longrightarrow> length r \<le> length s"
  by (auto simp: take_exp_def Let_def le_SucI length_dropWhile_le split: list.splits if_splits)

lemma parse_num_length:
  assumes "parse_num s = Some (v, r)"
  shows "length r < length s"
proof -
  let ?st = "case s of c # u \<Rightarrow> if c = CHR ''-'' then (''-'', u) else ([], s) | [] \<Rightarrow> ([], s)"
  obtain sg t where st: "?st = (sg, t)" by (cases ?st)
  then have t: "length t \<le> length s" by (auto split: list.splits if_splits)
  from assms obtain ip q where q: "take_int t = Some (ip, q)"
    by (auto simp: parse_num_def st split: option.splits)
  obtain fr r1 where fr: "take_frac q = (fr, r1)" by (cases "take_frac q")
  obtain ex r2 where ex: "take_exp r1 = (ex, r2)" by (cases "take_exp r1")
  from assms have "r = q \<or> r = r2"
    by (auto simp: parse_num_def st q fr ex split: if_splits)
  then show ?thesis
    using t take_int_length [OF q] take_frac_length [OF fr] take_exp_length [OF ex] by auto
qed

lemma parse_const_length:
  "parse_const ps s = Some (v, r) \<Longrightarrow> \<forall>p \<in> set ps. fst p \<noteq> [] \<Longrightarrow> length r < length s"
proof (induction ps)
  case (Cons p ps)
  show ?case
  proof (cases "prefix (fst p) s")
    case True
    with Cons.prems have "r = drop (length (fst p)) s" and "fst p \<noteq> []" by auto
    with True show ?thesis by (cases s) (auto simp: prefix_def)
  next
    case False
    with Cons show ?thesis by simp
  qed
qed (simp add: parse_num_length)


lemma parse_consts_length: "parse_const json_consts s = Some (v, r) \<Longrightarrow> length r < length s"
  by (erule parse_const_length) (simp add: json_consts_def)

lemma parse_key_length: "parse_key s = Some (k, r) \<Longrightarrow> length r < length s"
  using le_less_trans [OF length_skip_ws]
  by (fastforce simp: parse_key_def split: list.splits if_splits option.splits
      dest: parse_str_length next_char_length)

text \<open>The scanners inverted: what a successful scan of an array or an object went through.\<close>

lemma map_apfst_Some [simp]:
  "map_option (apfst f) x = Some (y, r) \<longleftrightarrow> (\<exists>z. x = Some (z, r) \<and> y = f z)"
  by (cases x) auto

lemma parse_array_Some:
  "parse_array (Suc n) s = Some (vs, r) \<longleftrightarrow>
     (\<exists>v q d q1. parse_value n s = Some (v, q) \<and> next_char q = Some (d, q1) \<and>
        (d = CHR '']'' \<and> vs = [v] \<and> r = q1 \<or>
         d = CHR '','' \<and> (\<exists>ws. parse_array n (skip_ws q1) = Some (ws, r) \<and> vs = v # ws)))"
  by (auto split: option.splits if_splits)

lemma parse_object_Some:
  "parse_object (Suc n) acc s = Some (d, r) \<longleftrightarrow>
     (\<exists>k q v q1 e q2. parse_key s = Some (k, q) \<and> parse_value n q = Some (v, q1) \<and>
        next_char q1 = Some (e, q2) \<and>
        (e = CHR ''}'' \<and> d = dset k v acc \<and> r = q2 \<or>
         e = CHR '','' \<and> parse_object n (dset k v acc) (skip_ws q2) = Some (d, r)))"
  by (auto split: option.splits if_splits)

lemma parse_value_Some:
  "parse_value (Suc n) s = Some (v, r) \<longleftrightarrow>
     (\<exists>c cs. s = c # cs \<and>
        (c = dquote \<and> (\<exists>x. parse_str cs = Some (x, r) \<and> v = JStr x) \<or>
         c = CHR ''{'' \<and> (\<exists>d q. next_char cs = Some (d, q) \<and>
           (d = CHR ''}'' \<and> v = JObj [] \<and> r = q \<or>
            d \<noteq> CHR ''}'' \<and> (\<exists>ms. parse_object n [] (d # q) = Some (ms, r) \<and> v = JObj ms))) \<or>
         c = CHR ''['' \<and> (\<exists>d q. next_char cs = Some (d, q) \<and>
           (d = CHR '']'' \<and> v = JList [] \<and> r = q \<or>
            d \<noteq> CHR '']'' \<and> (\<exists>vs. parse_array n (d # q) = Some (vs, r) \<and> v = JList vs))) \<or>
         c \<notin> {dquote, CHR ''{'', CHR ''[''} \<and> parse_const json_consts s = Some (v, r)))"
  by (cases s) (auto split: option.splits if_splits)

lemma parse_length:
  "(\<forall>s v r. parse_value n s = Some (v, r) \<longrightarrow> length r < length s) \<and>
   (\<forall>s vs r. parse_array n s = Some (vs, r) \<longrightarrow> length r < length s) \<and>
   (\<forall>acc s d r. parse_object n acc s = Some (d, r) \<longrightarrow> length r < length s)"
proof (induction n)
  case (Suc n)
  have shorter: "length (skip_ws q1) < k" if "length q1 < k" for q1 k
    using that length_skip_ws [of q1] by simp
  have "length r < length s" if "parse_value (Suc n) s = Some (v, r)" for s v r
    using that Suc unfolding parse_value_Some
    by (fastforce dest: parse_str_length parse_consts_length next_char_length)
  moreover have "length r < length s" if "parse_array (Suc n) s = Some (vs, r)" for s vs r
  proof -
    from that obtain v q d q1 where q: "parse_value n s = Some (v, q)" "next_char q = Some (d, q1)"
      and r: "r = q1 \<or> (\<exists>ws. parse_array n (skip_ws q1) = Some (ws, r))"
      unfolding parse_array_Some by blast
    from Suc have "length q < length s" using q(1) by blast
    with q have "length q1 < length s" by (auto dest: next_char_length)
    with shorter have "length (skip_ws q1) < length s" by blast
    moreover have "length r < length (skip_ws q1)" if "parse_array n (skip_ws q1) = Some (ws, r)" for ws
      using Suc that by blast
    ultimately show ?thesis using r \<open>length q1 < length s\<close> less_trans by blast
  qed
  moreover have "length r < length s" if "parse_object (Suc n) acc s = Some (d, r)" for acc s d r
  proof -
    from that obtain k q v q1 e q2 where q: "parse_key s = Some (k, q)"
        "parse_value n q = Some (v, q1)" "next_char q1 = Some (e, q2)"
      and r: "r = q2 \<or> (\<exists>a. parse_object n a (skip_ws q2) = Some (d, r))"
      unfolding parse_object_Some by blast
    from Suc have "length q1 < length q" using q(2) by blast
    with q have "length q2 < length s" by (auto dest!: next_char_length parse_key_length)
    with shorter have "length (skip_ws q2) < length s" by blast
    moreover have "length r < length (skip_ws q2)" if "parse_object n a (skip_ws q2) = Some (d, r)" for a
      using Suc that by blast
    ultimately show ?thesis using r \<open>length q2 < length s\<close> less_trans by blast
  qed
  ultimately show ?case by blast
qed simp

lemmas parse_value_length = parse_length [THEN conjunct1, rule_format]
lemmas parse_array_length = parse_length [THEN conjunct2, THEN conjunct1, rule_format]

section \<open>The fuel of the scanners\<close>

text \<open>
  Each nested call consumes a character or turns from an array or object to its first value, so
  twice the length of the text is more than any scan spends: beyond that, fuel changes nothing.
\<close>

lemma parse_fuel_step:
  "(\<forall>s. 2 * length s + 1 \<le> n \<longrightarrow> parse_value (Suc n) s = parse_value n s) \<and>
   (\<forall>s. 2 * length s + 2 \<le> n \<longrightarrow> parse_array (Suc n) s = parse_array n s) \<and>
   (\<forall>acc s. 2 * length s + 2 \<le> n \<longrightarrow> parse_object (Suc n) acc s = parse_object n acc s)"
proof (induction n)
  case (Suc n)
  have val: "parse_value (Suc n) s = parse_value n s" if "2 * length s + 1 \<le> n" for s
    using Suc that by simp
  have arr: "parse_array (Suc n) s = parse_array n s" if "2 * length s + 2 \<le> n" for s
    using Suc that by simp
  have obj: "parse_object (Suc n) acc s = parse_object n acc s" if "2 * length s + 2 \<le> n" for acc s
    using Suc that by simp
  have "parse_value (Suc (Suc n)) s = parse_value (Suc n) s" if "2 * length s + 1 \<le> Suc n" for s
  proof (cases s)
    case (Cons c cs)
    have "parse_array (Suc n) (d # q) = parse_array n (d # q)"
      "parse_object (Suc n) [] (d # q) = parse_object n [] (d # q)"
      if "next_char cs = Some (d, q)" for d q
      using arr obj next_char_length [OF that] Cons \<open>2 * length s + 1 \<le> Suc n\<close> by simp_all
    then show ?thesis unfolding Cons parse_value.simps by (simp split: option.split)
  qed simp
  moreover have "parse_array (Suc (Suc n)) s = parse_array (Suc n) s" if "2 * length s + 2 \<le> Suc n" for s
  proof -
    have "parse_array (Suc n) (skip_ws q1) = parse_array n (skip_ws q1)"
      if "parse_value n s = Some (v, q)" "next_char q = Some (d, q1)" for v q d q1
      using parse_value_length [OF that(1)] next_char_length [OF that(2)] length_skip_ws [of q1]
        \<open>2 * length s + 2 \<le> Suc n\<close> by (intro arr) simp
    moreover have "parse_value (Suc n) s = parse_value n s" using that by (intro val) simp
    ultimately show ?thesis
      unfolding parse_array.simps by (simp split: option.split)
  qed
  moreover have "parse_object (Suc (Suc n)) acc s = parse_object (Suc n) acc s"
    if "2 * length s + 2 \<le> Suc n" for acc s
  proof -
    have "parse_value (Suc n) q = parse_value n q" if "parse_key s = Some (k, q)" for k q
      using parse_key_length [OF that] \<open>2 * length s + 2 \<le> Suc n\<close> by (intro val) simp
    moreover have "parse_object (Suc n) a (skip_ws q2) = parse_object n a (skip_ws q2)"
      if "parse_key s = Some (k, q)" "parse_value n q = Some (v, q1)" "next_char q1 = Some (e, q2)"
      for k q v q1 e q2 a
      using parse_key_length [OF that(1)] parse_value_length [OF that(2)] next_char_length [OF that(3)]
        length_skip_ws [of q2] \<open>2 * length s + 2 \<le> Suc n\<close> by (intro obj) simp
    ultimately show ?thesis
      unfolding parse_object.simps by (simp split: option.split)
  qed
  ultimately show ?case by blast
qed simp

lemma parse_value_fuel: "2 * length s + 1 \<le> n \<Longrightarrow> n \<le> m \<Longrightarrow> parse_value m s = parse_value n s"
proof (induction m)
  case (Suc m)
  show ?case
  proof (cases "n = Suc m")
    case False
    with Suc have "parse_value m s = parse_value n s" by simp
    moreover have "parse_value (Suc m) s = parse_value m s"
      using parse_fuel_step [of m] Suc.prems False by simp
    ultimately show ?thesis by simp
  qed simp
qed simp


section \<open>What json.dumps writes, json.loads reads\<close>

lemma hex_digit_props:
  assumes "d < 16"
  shows "is_hex (hex_digit d)" and "hex_val (hex_digit d) = d"
  using assms by (auto simp: hex_digit_def is_hex_def is_digit_def hex_val_def Let_def)

lemma parse_str_esc:
  "parse_str (json_esc c @ t) = map_option (apfst ((#) c)) (parse_str t)"
proof -
  let ?n = "of_char c :: nat"
  have again: "c = char_of ?n" by simp
  have hex: "is_hex (hex_digit (?n div 16))" "is_hex (hex_digit (?n mod 16))"
    "hex_val (hex_digit (?n div 16)) = ?n div 16" "hex_val (hex_digit (?n mod 16)) = ?n mod 16"
    using nat_of_char_less_256 [of c] by (simp_all add: hex_digit_props less_mult_imp_div_less)
  have zero: "is_hex (CHR ''0'')" "hex_val (CHR ''0'') = 0"
    by (simp_all add: is_hex_def is_digit_def hex_val_def)
  consider "c = dquote \<or> c = backslash" | "c = newline" | "c = CHR 0x0D" | "c = CHR 0x09" | "c = CHR 0x0C" | "c = CHR 0x08"
    | "32 \<le> ?n" "?n \<le> 126" "c \<noteq> dquote" "c \<noteq> backslash"
    | "json_esc c = backslash # ''u00'' @ hex2 ?n"
    unfolding json_esc_def Let_def by presburger
  then show ?thesis
  proof cases
    case 1
    then show ?thesis by (auto simp: json_esc_def)
  next
    case 8
    then show ?thesis using hex zero nat_of_char_less_256 [of c]
      by (simp add: hex2_def Let_def)
  qed (use again in \<open>simp_all add: json_esc_def Let_def\<close>)
qed

lemma parse_str_escs: "parse_str (concat (map json_esc s) @ dquote # r) = Some (s, r)"
  by (induction s) (simp_all add: parse_str_esc)

lemma skip_ws_nl [simp]: "skip_ws (json_nl ind l @ s) = skip_ws s"
  by (induction "case ind of None \<Rightarrow> 0 | Some k \<Rightarrow> k * l")
    (auto simp: json_nl_def skip_ws_def json_ws_def dropWhile_append split: option.splits)

lemma skip_ws_not: "\<not> json_ws c \<Longrightarrow> skip_ws (c # s) = c # s"
  by (simp add: skip_ws_def)


text \<open>Numbers: what follows a number must not continue it.\<close>

definition ends_value :: "string \<Rightarrow> bool" where
  "ends_value r = (case r of [] \<Rightarrow> True | c # _ \<Rightarrow> \<not> is_digit c \<and> c \<notin> set ''.eE'')"

lemma dec_val_nat_str [simp]: "dec_val (nat_str n) = n"
  by (simp add: dec_val_def foldl_nat_str)

lemma nat_str_zero: "hd (nat_str n) = CHR ''0'' \<Longrightarrow> n = 0"
proof (induction n rule: nat_str.induct)
  case (1 n)
  show ?case
  proof (cases "n < 10")
    case True
    with 1 have "digit_char n = CHR ''0''" by (simp add: nat_str.simps [of n])
    with True have "n = digit_val (CHR ''0'')" by (metis digit_val_digit_char)
    then show ?thesis by (simp add: digit_val_def)
  next
    case False
    with 1 have "n div 10 = 0" by (simp add: nat_str.simps [of n])
    with False show ?thesis by simp
  qed
qed

lemma takeWhile_digits:
  assumes "\<forall>c \<in> set ds. is_digit c" and "ends_value r"
  shows "takeWhile is_digit (ds @ r) = ds" and "dropWhile is_digit (ds @ r) = r"
proof -
  have "takeWhile is_digit r = []" "dropWhile is_digit r = r"
    using assms(2) by (auto simp: ends_value_def split: list.splits)
  then show "takeWhile is_digit (ds @ r) = ds" "dropWhile is_digit (ds @ r) = r"
    using assms(1) by (simp_all add: takeWhile_append dropWhile_append)
qed

lemma take_int_nat_str: "ends_value r \<Longrightarrow> take_int (nat_str n @ r) = Some (nat_str n, r)"
proof -
  assume r: "ends_value r"
  obtain c cs where cs: "nat_str n = c # cs" by (cases "nat_str n") simp_all
  have ds: "\<forall>d \<in> set (nat_str n). is_digit d" using nat_str_digits by blast
  show ?thesis
  proof (cases "c = CHR ''0''")
    case True
    with cs have "n = 0" using nat_str_zero [of n] by simp
    moreover have "digit_char 0 = CHR ''0''" by code_simp
    ultimately have "nat_str n = ''0''" by (simp add: nat_str.simps)
    then show ?thesis by (simp add: take_int_def)
  next
    case False
    have "is_digit c" using ds cs by simp
    with False show ?thesis
      using takeWhile_digits [OF ds r] cs by (simp add: take_int_def)
  qed
qed

lemma take_rest: "ends_value r \<Longrightarrow> take_frac r = ([], r) \<and> take_exp r = ([], r)"
  by (auto simp: ends_value_def take_frac_def take_exp_def split: list.splits)

lemma parse_num_int_str: "ends_value r \<Longrightarrow> parse_num (int_str i @ r) = Some (JInt i, r)"
proof -
  assume r: "ends_value r"
  show ?thesis
  proof (cases "i < 0")
    case True
    then show ?thesis
      using r by (simp add: parse_num_def int_str_def take_int_nat_str take_rest)
  next
    case False
    obtain c cs where cs: "nat_str (nat i) = c # cs" by (cases "nat_str (nat i)") simp_all
    then have "c \<noteq> CHR ''-''" using nat_str_digits [of c "nat i"] by (auto simp: is_digit_def)
    with cs False show ?thesis
      using take_int_nat_str [OF r, of "nat i"] take_rest [OF r]
      by (simp add: parse_num_def int_str_def) (metis dec_val_nat_str nat_0_le not_less)
  qed
qed

lemma int_str_head: "\<exists>c cs. int_str i = c # cs \<and> (is_digit c \<or> (c = CHR ''-'' \<and> is_digit (hd cs)))"
proof (cases "i < 0")
  case True
  then show ?thesis using nat_str_hd_last(1) [of "nat (- i)"] by (simp add: int_str_def)
next
  case False
  then show ?thesis using nat_str_hd_last(1) [of "nat i"]
    by (cases "nat_str (nat i)") (simp_all add: int_str_def)
qed

lemma parse_const_int_str: "ends_value r \<Longrightarrow> parse_const json_consts (int_str i @ r) = Some (JInt i, r)"
proof -
  assume r: "ends_value r"
  obtain c cs where cs: "int_str i = c # cs"
    and c: "is_digit c \<or> (c = CHR ''-'' \<and> is_digit (hd cs))" using int_str_head by blast
  have cs': "cs \<noteq> []" if "c = CHR ''-''"
  proof -
    have "i < 0"
    proof (rule ccontr)
      assume "\<not> i < 0"
      with cs that nat_str_digits [of c "nat i"] show False by (auto simp: int_str_def is_digit_def)
    qed
    with cs show ?thesis by (auto simp: int_str_def)
  qed
  have "\<not> prefix p (int_str i @ r)" if "p \<in> set (map fst json_consts)" for p
    using that c cs cs' by (cases cs) (auto simp: json_consts_def is_digit_def)
  then have "parse_const json_consts (int_str i @ r) = parse_num (int_str i @ r)"
    by (simp add: json_consts_def)
  then show ?thesis by (simp add: parse_num_int_str r)
qed


text \<open>
  The values the round trip covers: no float literals, and distinct keys in every object, which is
  what a Python dictionary is.
\<close>

fun json_ok :: "json \<Rightarrow> bool"
  and json_oks :: "json list \<Rightarrow> bool"
  and json_members_ok :: "(string \<times> json) list \<Rightarrow> bool" where
  "json_ok JNull = True"
| "json_ok (JBool b) = True"
| "json_ok (JInt i) = True"
| "json_ok (JFloat f) = False"
| "json_ok (JStr s) = True"
| "json_ok (JList xs) = json_oks xs"
| "json_ok (JObj ms) = (dict_wf ms \<and> json_members_ok ms)"
| "json_oks [] = True"
| "json_oks (x # xs) = (json_ok x \<and> json_oks xs)"
| "json_members_ok [] = True"
| "json_members_ok (m # ms) = (json_ok (snd m) \<and> json_members_ok ms)"

lemma json_quote_append: "json_quote s @ r = dquote # concat (map json_esc s) @ dquote # r"
  by (simp add: json_quote_def)

lemma parse_key_quote: "parse_key (json_quote k @ '': '' @ r) = Some (k, skip_ws r)"
  by (simp add: parse_key_def json_quote_append parse_str_escs next_char_def skip_ws_def json_ws_def)

lemma json_dump_head:
  "json_ok v \<Longrightarrow> \<exists>c cs. json_dump ind l v = c # cs \<and> \<not> json_ws c \<and> c \<noteq> CHR '']'' \<and> c \<noteq> CHR ''}''"
  using int_str_head [of "case v of JInt i \<Rightarrow> i | _ \<Rightarrow> 0"]
  by (cases v) (auto simp: json_quote_def json_ws_def is_digit_def)

lemma skip_ws_dump: "json_ok v \<Longrightarrow> skip_ws (json_dump ind l v @ r) = json_dump ind l v @ r"
  using json_dump_head [of v ind l] by (auto simp: skip_ws_not)

lemma skip_ws_sep: "skip_ws (json_sep ind l @ r) = json_sep ind l @ r"
  by (cases ind) (simp_all add: json_sep_def skip_ws_not json_ws_def)

lemma next_char_sep: "next_char (json_sep ind l @ r) = Some (CHR '','', if ind = None then CHR '' '' # r else json_nl ind l @ r)"
  by (cases ind) (simp_all add: next_char_def json_sep_def skip_ws_not json_ws_def)

lemma skip_ws_after_sep: "skip_ws (if ind = None then CHR '' '' # r else json_nl ind l @ r) = skip_ws r"
  by (cases ind) (simp_all, simp add: skip_ws_def json_ws_def)

lemma ends_value_sep [simp]: "ends_value (json_sep ind l @ r)"
  by (cases ind) (simp_all add: ends_value_def json_sep_def is_digit_def)

lemma ends_value_nl [simp]:
  "ends_value (json_nl ind l @ CHR '']'' # r)" "ends_value (json_nl ind l @ CHR ''}'' # r)"
  by (cases ind; simp add: ends_value_def json_nl_def is_digit_def)+

lemma json_quote_skip: "skip_ws (json_quote k @ r) = json_quote k @ r"
  by (simp add: json_quote_append skip_ws_not json_ws_def)

lemma next_char_nl:
  "next_char (json_nl ind l @ CHR '']'' # r) = Some (CHR '']'', r)"
  "next_char (json_nl ind l @ CHR ''}'' # r) = Some (CHR ''}'', r)"
  by (simp_all add: next_char_def skip_ws_not json_ws_def)


text \<open>The scanners read back what was printed, for every large enough fuel.\<close>

lemma eventually_Suc: "\<exists>N. \<forall>n \<ge> N. P n \<Longrightarrow> (\<And>n. P n \<Longrightarrow> Q (Suc n)) \<Longrightarrow> \<exists>N. \<forall>n \<ge> N. Q n"
  by (metis Suc_le_D Suc_le_mono)

lemma eventually_SucI: "(\<And>n. Q (Suc n)) \<Longrightarrow> \<exists>N. \<forall>n \<ge> N. Q n"
  by (metis Suc_le_D)

lemma eventually_conj:
  "\<exists>N. \<forall>n \<ge> N. P n \<Longrightarrow> \<exists>N. \<forall>n \<ge> N. Q n \<Longrightarrow> \<exists>N::nat. \<forall>n \<ge> N. P n \<and> Q n"
  by (metis linorder_le_cases order_trans)

abbreviation reads_value :: "string \<Rightarrow> json \<Rightarrow> string \<Rightarrow> bool" where
  "reads_value s v r \<equiv> \<exists>N. \<forall>n \<ge> N. parse_value n s = Some (v, r)"

abbreviation reads_array :: "string \<Rightarrow> json list \<Rightarrow> string \<Rightarrow> bool" where
  "reads_array s xs r \<equiv> \<exists>N. \<forall>n \<ge> N. parse_array n s = Some (xs, r)"

abbreviation reads_object :: "(string \<times> json) list \<Rightarrow> string \<Rightarrow> (string \<times> json) list \<Rightarrow> string \<Rightarrow> bool" where
  "reads_object acc s ms r \<equiv> \<exists>N. \<forall>n \<ge> N. parse_object n acc s = Some (ms, r)"

lemma reads_int:
  assumes "ends_value r"
  shows "reads_value (json_dump ind l (JInt i) @ r) (JInt i) r"
proof -
  obtain c cs where c: "int_str i = c # cs" and "is_digit c \<or> c = CHR ''-''"
    using int_str_head [of i] by blast
  then have ne: "c \<noteq> dquote" "c \<noteq> CHR ''{''" "c \<noteq> CHR ''[''" by (auto simp: is_digit_def)
  have "parse_const json_consts (c # cs @ r) = Some (JInt i, r)"
    using parse_const_int_str [OF assms, of i] by (simp add: c)
  then show ?thesis by (intro eventually_SucI) (simp_all add: c ne)
qed

lemma reads_list:
  assumes "json_oks xs"
    and items: "xs \<noteq> [] \<Longrightarrow> reads_array (json_items ind (Suc l) xs @ json_nl ind l @ CHR '']'' # r) xs r"
  shows "reads_value (json_dump ind l (JList xs) @ r) (JList xs) r"
proof (cases xs)
  case Nil
  then show ?thesis by (intro eventually_SucI) (simp_all add: next_char_def skip_ws_not json_ws_def)
next
  case (Cons x ys)
  obtain c cs where c: "json_items ind (Suc l) xs @ json_nl ind l @ CHR '']'' # r = c # cs" "\<not> json_ws c" "c \<noteq> CHR '']''"
    using json_dump_head [of x ind "Suc l"] assms(1) Cons by auto
  from Cons have "xs \<noteq> []" by simp
  from items [OF this] show ?thesis
    by (rule eventually_Suc) (use Cons c in \<open>simp add: next_char_def skip_ws_not\<close>)
qed

lemma reads_obj:
  assumes members: "ms \<noteq> [] \<Longrightarrow> reads_object [] (json_members ind (Suc l) ms @ json_nl ind l @ CHR ''}'' # r) ms r"
  shows "reads_value (json_dump ind l (JObj ms) @ r) (JObj ms) r"
proof (cases ms)
  case Nil
  then show ?thesis by (intro eventually_SucI) (simp_all add: next_char_def skip_ws_not json_ws_def)
next
  case (Cons m ns)
  obtain c cs where c: "json_members ind (Suc l) ms @ json_nl ind l @ CHR ''}'' # r = c # cs" "\<not> json_ws c" "c \<noteq> CHR ''}''"
    using Cons by (simp add: json_quote_def json_ws_def)
  from Cons have "ms \<noteq> []" by simp
  from members [OF this] show ?thesis
    by (rule eventually_Suc) (use Cons c in \<open>simp add: next_char_def skip_ws_not\<close>)
qed

lemma reads_items:
  assumes "json_oks xs" and x: "\<And>t. ends_value t \<Longrightarrow> reads_value (json_dump ind l x @ t) x t"
    and xs: "xs \<noteq> [] \<Longrightarrow> reads_array (json_items ind l xs @ json_nl ind k @ CHR '']'' # r) xs r"
  shows "reads_array (json_items ind l (x # xs) @ json_nl ind k @ CHR '']'' # r) (x # xs) r"
proof (cases "xs = []")
  case True
  have "reads_value (json_dump ind l x @ json_nl ind k @ CHR '']'' # r) x (json_nl ind k @ CHR '']'' # r)" by (rule x) simp
  then show ?thesis by (rule eventually_Suc) (use True next_char_nl in simp)
next
  case False
  let ?tail = "json_items ind l xs @ json_nl ind k @ CHR '']'' # r"
  have "\<exists>N. \<forall>n \<ge> N. parse_value n (json_dump ind l x @ json_sep ind l @ ?tail) = Some (x, json_sep ind l @ ?tail)
      \<and> parse_array n ?tail = Some (xs, r)"
    by (rule eventually_conj [OF x xs [OF False]]) simp
  moreover have "skip_ws ?tail = ?tail" using False assms(1) skip_ws_dump by (cases xs) auto
  ultimately show ?thesis
    by (elim eventually_Suc) (use False in \<open>simp add: next_char_sep skip_ws_after_sep\<close>)
qed

lemma reads_members:
  assumes "json_ok v" and new: "dset key v acc = acc @ [(key, v)]"
    and v: "\<And>t. ends_value t \<Longrightarrow> reads_value (json_dump ind l v @ t) v t"
    and ms: "ms \<noteq> [] \<Longrightarrow>
      reads_object (acc @ [(key, v)]) (json_members ind l ms @ json_nl ind k @ CHR ''}'' # r) (acc @ (key, v) # ms) r"
  shows "reads_object acc (json_members ind l ((key, v) # ms) @ json_nl ind k @ CHR ''}'' # r) (acc @ (key, v) # ms) r"
proof -
  have key: "parse_key (json_quote key @ '': '' @ json_dump ind l v @ t) = Some (key, json_dump ind l v @ t)" for t
    by (simp only: parse_key_quote) (simp add: skip_ws_dump assms(1))
  show ?thesis
  proof (cases "ms = []")
    case True
    let ?rest = "json_nl ind k @ CHR ''}'' # r"
    have "reads_value (json_dump ind l v @ ?rest) v ?rest" by (rule v) simp
    then show ?thesis by (rule eventually_Suc) (use True new key [of ?rest] next_char_nl in simp)
  next
    case False
    let ?tail = "json_members ind l ms @ json_nl ind k @ CHR ''}'' # r"
    have "\<exists>N. \<forall>n \<ge> N. parse_value n (json_dump ind l v @ json_sep ind l @ ?tail) = Some (v, json_sep ind l @ ?tail)
        \<and> parse_object n (acc @ [(key, v)]) ?tail = Some (acc @ (key, v) # ms, r)"
      by (rule eventually_conj [OF v ms [OF False]]) simp
    moreover have "skip_ws ?tail = ?tail" using False json_quote_skip by (cases ms) auto
    ultimately show ?thesis
      by (elim eventually_Suc)
        (use False new key [of "json_sep ind l @ ?tail"] in \<open>simp add: next_char_sep skip_ws_after_sep\<close>)
  qed
qed

lemma parse_dump:
  "json_ok v \<Longrightarrow> ends_value r \<Longrightarrow> reads_value (json_dump ind l v @ r) v r"
  "json_oks xs \<Longrightarrow> xs \<noteq> [] \<Longrightarrow> reads_array (json_items ind l xs @ json_nl ind k @ CHR '']'' # r) xs r"
  "json_members_ok ms \<Longrightarrow> ms \<noteq> [] \<Longrightarrow> dict_wf (acc @ ms) \<Longrightarrow>
     reads_object acc (json_members ind l ms @ json_nl ind k @ CHR ''}'' # r) (acc @ ms) r"
proof (induction ind l v and ind l xs and ind l ms arbitrary: r and r k and r k acc
    rule: json_dump_json_items_json_members.induct)
  case (1 ind l)
  show ?case by (intro eventually_SucI) (simp_all add: json_consts_def)
next
  case (2 ind l b)
  show ?case by (intro eventually_SucI) (simp_all add: json_consts_def)
next
  case (3 ind l i)
  then show ?case by (intro reads_int)
next
  case (5 ind l s)
  show ?case by (intro eventually_SucI) (simp_all add: json_quote_append parse_str_escs)
next
  case (6 ind l xs)
  then show ?case by (intro reads_list) simp_all
next
  case (7 ind l ms)
  have "reads_object [] (json_members ind (Suc l) ms @ json_nl ind l @ CHR ''}'' # r) ([] @ ms) r" if "ms \<noteq> []"
    by (rule 7(1)) (use 7(2) that in simp_all)
  then show ?case by (intro reads_obj) simp
next
  case (9 ind l x xs)
  show ?case by (rule reads_items) (use 9 in simp_all)
next
  case (11 ind l m ms)
  obtain key v where m: "m = (key, v)" by (cases m)
  have "dset key v acc = acc @ [(key, v)]"
    using 11(5) m by (intro dset_fresh) (auto simp: dict_wf_def dkeys_def)
  moreover have "reads_object (acc @ [(key, v)]) (json_members ind l ms @ json_nl ind k @ CHR ''}'' # r)
      ((acc @ [(key, v)]) @ ms) r" if "ms \<noteq> []"
    by (rule 11(2)) (use 11(3,5) that m in simp_all)
  ultimately show ?case
    unfolding m by (intro reads_members) (use 11(1,3) m in simp_all)
qed simp_all

theorem loads_dumps: "json_ok v \<Longrightarrow> json_loads (json_dumps ind v @ replicate k newline) = Inr v"
proof -
  assume v: "json_ok v"
  let ?r = "replicate k newline"
  let ?s = "json_dumps ind v @ ?r"
  have r: "ends_value ?r" "skip_ws ?r = []"
    by (cases k; simp add: ends_value_def is_digit_def skip_ws_def json_ws_def)+
  obtain N where N: "\<forall>n \<ge> N. parse_value n ?s = Some (v, ?r)"
    using parse_dump(1) [OF v r(1), of ind 0] by (auto simp: json_dumps_def)
  let ?F = "2 * length ?s + 1"
  have "parse_value ?F ?s = parse_value (max N ?F) ?s"
    by (rule parse_value_fuel [symmetric]) simp_all
  also have "\<dots> = Some (v, ?r)" using N by simp
  finally have "parse_value ?F ?s = Some (v, ?r)" .
  moreover have "skip_ws ?s = ?s" using v by (simp add: json_dumps_def skip_ws_dump)
  ultimately show ?thesis using r by (simp add: json_loads_def)
qed

lemma loads_dumps_plain [simp]: "json_ok v \<Longrightarrow> json_loads (json_dumps ind v) = Inr v"
  using loads_dumps [of v ind 0] by simp


interpretation json_text: codec "json_dumps ind"
    "\<lambda>s. case json_loads s of Inl _ \<Rightarrow> None | Inr v \<Rightarrow> Some v" json_ok for ind
  by unfold_locales simp

section \<open>Decoded values in expressions\<close>

text \<open>A float literal as mantissa and decimal exponent; not-a-number and the infinities have none.\<close>

definition float_dec :: "string \<Rightarrow> (int \<times> int) option" where
  "float_dec f =
     (let (sg, t) = (case f of c # r \<Rightarrow> if c = CHR ''-'' then (-1, r) else (1, f) | [] \<Rightarrow> (1, f))
      in case take_int t of
           None \<Rightarrow> None
         | Some (ip, r) \<Rightarrow>
             let (fr, r1) = take_frac r; (ex, r2) = take_exp r1;
                 e = (case ex of
                        [] \<Rightarrow> 0
                      | _ # d # ds \<Rightarrow>
                          if d = CHR ''-'' then - int (dec_val ds)
                          else if d = CHR ''+'' then int (dec_val ds)
                          else int (dec_val (d # ds))
                      | _ \<Rightarrow> 0)
             in Some (sg * int (dec_val (ip @ tl fr)), e - int (length (tl fr))))"

definition dec_eq :: "int \<times> int \<Rightarrow> int \<times> int \<Rightarrow> bool" where
  "dec_eq a b =
     (let k = min (snd a) (snd b)
      in fst a * 10 ^ nat (snd a - k) = fst b * 10 ^ nat (snd b - k))"

definition dec_trunc :: "int \<times> int \<Rightarrow> int" where
  "dec_trunc a =
     (if snd a \<ge> 0 then fst a * 10 ^ nat (snd a)
      else sgn (fst a) * (\<bar>fst a\<bar> div 10 ^ nat (- snd a)))"

definition json_num :: "json \<Rightarrow> (int \<times> int) option" where
  "json_num v =
     (case v of JInt i \<Rightarrow> Some (i, 0) | JBool b \<Rightarrow> Some (if b then 1 else 0, 0)
      | JFloat f \<Rightarrow> float_dec f | _ \<Rightarrow> None)"

text \<open>
  \<open>==\<close>: numbers, Booleans among them, compare by value; a not-a-number equals nothing. The program
  compares only with scalars, so containers are compared member by member as they stand.
\<close>

definition jeq :: "json \<Rightarrow> json \<Rightarrow> bool" where
  "jeq a b =
     (case (json_num a, json_num b) of
        (Some x, Some y) \<Rightarrow> dec_eq x y
      | _ \<Rightarrow> a = b \<and> a \<noteq> JFloat ''NaN'')"

definition truthy :: "json \<Rightarrow> bool" where
  "truthy v =
     (case v of
        JNull \<Rightarrow> False
      | JBool b \<Rightarrow> b
      | JInt i \<Rightarrow> i \<noteq> 0
      | JFloat f \<Rightarrow> (case float_dec f of Some (m, _) \<Rightarrow> m \<noteq> 0 | None \<Rightarrow> True)
      | JStr s \<Rightarrow> s \<noteq> []
      | JList xs \<Rightarrow> xs \<noteq> []
      | JObj ms \<Rightarrow> ms \<noteq> [])"

text \<open>\<open>a or b\<close>.\<close>

definition jor :: "json \<Rightarrow> json \<Rightarrow> json" where
  "jor a b = (if truthy a then a else b)"

definition is_obj :: "json \<Rightarrow> bool" where
  "is_obj v = (case v of JObj _ \<Rightarrow> True | _ \<Rightarrow> False)"

definition members :: "json \<Rightarrow> (string, json) dict" where
  "members v = (case v of JObj ms \<Rightarrow> ms | _ \<Rightarrow> [])"

text \<open>\<open>v.get(k, d)\<close>: only a dictionary has the method.\<close>

definition jget :: "json \<Rightarrow> string \<Rightarrow> json \<Rightarrow> json res" where
  "jget v k d = (case v of JObj ms \<Rightarrow> Inr (dget_or ms k d) | _ \<Rightarrow> throw AttributeError ''get'')"

text \<open>\<open>v[k]\<close> with a string key.\<close>

definition jitem :: "json \<Rightarrow> string \<Rightarrow> json res" where
  "jitem v k = (case v of JObj ms \<Rightarrow> ditem ms k | _ \<Rightarrow> throw TypeError ''indices must be integers'')"

text \<open>\<open>iter(v)\<close>: a list's elements, a dictionary's keys, a string's characters.\<close>

definition jiter :: "json \<Rightarrow> json list res" where
  "jiter v =
     (case v of
        JList xs \<Rightarrow> Inr xs
      | JObj ms \<Rightarrow> Inr (map JStr (dkeys ms))
      | JStr s \<Rightarrow> Inr (map (\<lambda>c. JStr [c]) s)
      | _ \<Rightarrow> throw TypeError ''object is not iterable'')"

definition hashable :: "json \<Rightarrow> bool" where
  "hashable v = (case v of JList _ \<Rightarrow> False | JObj _ \<Rightarrow> False | _ \<Rightarrow> True)"

text \<open>\<open>int(v)\<close>.\<close>

definition jint :: "json \<Rightarrow> int res" where
  "jint v =
     (case v of
        JInt i \<Rightarrow> Inr i
      | JBool b \<Rightarrow> Inr (if b then 1 else 0)
      | JFloat f \<Rightarrow>
          (case float_dec f of
             Some d \<Rightarrow> Inr (dec_trunc d)
           | None \<Rightarrow> if f = ''NaN'' then throw ValueError ''cannot convert float NaN to integer''
                     else throw OverflowError ''cannot convert float infinity to integer'')
      | JStr s \<Rightarrow> py_int s
      | _ \<Rightarrow> throw TypeError ''int() argument must be a string or a number'')"

text \<open>\<open>repr(v)\<close> and \<open>str(v)\<close>, as error messages and log lines show values.\<close>

definition repr_char :: "char \<Rightarrow> char \<Rightarrow> string" where
  "repr_char q c =
     (let n = (of_char c :: nat)
      in if c = q \<or> c = backslash then [backslash, c]
         else if c = newline then [backslash, CHR ''n'']
         else if c = CHR 0x0D then [backslash, CHR ''r'']
         else if c = CHR 0x09 then [backslash, CHR ''t'']
         else if n < 32 \<or> (127 \<le> n \<and> n \<le> 160) \<or> n = 173 then backslash # CHR ''x'' # hex2 n
         else [c])"

definition repr_str :: "string \<Rightarrow> string" where
  "repr_str s =
     (let q = (if squote \<in> set s \<and> dquote \<notin> set s then dquote else squote)
      in q # concat (map (repr_char q) s) @ [q])"

fun py_repr :: "json \<Rightarrow> string"
  and py_reprs :: "json list \<Rightarrow> string list"
  and py_repr_members :: "(string \<times> json) list \<Rightarrow> string list" where
  "py_repr JNull = ''None''"
| "py_repr (JBool b) = (if b then ''True'' else ''False'')"
| "py_repr (JInt i) = int_str i"
| "py_repr (JFloat f) = f"
| "py_repr (JStr s) = repr_str s"
| "py_repr (JList xs) = ''['' @ py_join '', '' (py_reprs xs) @ '']''"
| "py_repr (JObj ms) = ''{'' @ py_join '', '' (py_repr_members ms) @ ''}''"
| "py_reprs [] = []"
| "py_reprs (x # xs) = py_repr x # py_reprs xs"
| "py_repr_members [] = []"
| "py_repr_members (m # ms) = (repr_str (fst m) @ '': '' @ py_repr (snd m)) # py_repr_members ms"

definition py_str :: "json \<Rightarrow> string" where
  "py_str v = (case v of JStr s \<Rightarrow> s | _ \<Rightarrow> py_repr v)"

subsection \<open>Their behaviour on well-typed values\<close>

lemma jget_obj [simp]: "jget (JObj ms) k d = Inr (dget_or ms k d)"
  by (simp add: jget_def)

lemma jitem_obj [simp]: "jitem (JObj ms) k = ditem ms k"
  by (simp add: jitem_def)

lemma jiter_list [simp]: "jiter (JList xs) = Inr xs"
  by (simp add: jiter_def)

lemma is_obj_iff: "is_obj v \<longleftrightarrow> (\<exists>ms. v = JObj ms)"
  by (cases v) (simp_all add: is_obj_def)

lemma is_obj_simps [simp]:
  "is_obj (JObj ms)" "\<not> is_obj JNull" "\<not> is_obj (JStr s)" "\<not> is_obj (JList xs)" "\<not> is_obj (JInt i)"
  by (simp_all add: is_obj_def)

lemma members_obj [simp]: "members (JObj ms) = ms"
  by (simp add: members_def)

lemma truthy_simps [simp]:
  "\<not> truthy JNull" "truthy (JStr s) = (s \<noteq> [])" "truthy (JBool b) = b"
  "truthy (JObj ms) = (ms \<noteq> [])" "truthy (JList xs) = (xs \<noteq> [])" "truthy (JInt i) = (i \<noteq> 0)"
  by (simp_all add: truthy_def)

lemma jor_simps [simp]: "truthy a \<Longrightarrow> jor a b = a" "\<not> truthy a \<Longrightarrow> jor a b = b"
  by (simp_all add: jor_def)

lemma jint_int [simp]: "jint (JInt i) = Inr i"
  by (simp add: jint_def)

lemma json_num_simps [simp]:
  "json_num JNull = None" "json_num (JStr s) = None" "json_num (JInt i) = Some (i, 0)"
  "json_num (JList xs) = None" "json_num (JObj ms) = None"
  by (simp_all add: json_num_def)

lemma jeq_int [simp]: "jeq (JInt i) (JInt j) \<longleftrightarrow> i = j"
  by (simp add: jeq_def dec_eq_def)

lemma jeq_str [simp]: "jeq v (JStr s) \<longleftrightarrow> v = JStr s"
  by (auto simp: jeq_def split: option.splits)

lemma py_str_simps [simp]: "py_str (JStr s) = s" "py_str (JInt i) = int_str i"
  by (simp_all add: py_str_def)

text \<open>\<open>int(str(i))\<close> of an integer that travelled as a string is the integer.\<close>

lemma jint_str [simp]: "jint (JStr (int_str i)) = Inr i"
  by (simp add: jint_def py_int_int_str)

end
