(* ===== verification/Platform.thy ===== *)
theory Platform
  imports Py_Json
begin

text \<open>
  The outside of the program, as a parameter, and the effects the program has on it. A
  \<open>platform\<close> collects what the modelled files call and do not define: the HTTP transports behind
  \<open>urllib.request.urlopen\<close> and \<open>requests\<close>, child processes, the clock, the environment, Pulumi's
  dry-run flag; its functions answer from, and move, an opaque state \<open>'w\<close>. A \<open>world\<close> is that state
  together with the files and the trace of every effect so far. Effectful code is a function
  from a world to a result and a world; a \<open>spec\<close> relates the events such code appends to the trace to
  the result it returns, and the rules of this theory derive it along the structure of the code.
\<close>

section \<open>The platform and the world\<close>

record http_request =
  req_method :: string
  req_url :: string
  req_data :: "string option"
  req_headers :: "(string, string) dict"
  req_insecure :: bool

text \<open>
  \<open>urlopen\<close> answers with a response whose body was read and decoded, raises \<open>HTTPError\<close> with a body,
  or raises another exception (a refused connection, a time-out, an undecodable body).
\<close>

datatype http_outcome = HttpOk int string | HttpError int string | HttpFail exn

datatype file_content = Text string | Unreadable string | Undecodable string

datatype pattern = Pat string | PatTimeout | PatEof

text \<open>\<open>child.expect\<close> returns the index of the pattern that matched and sets \<open>child.before\<close>.\<close>

datatype expect_outcome = Matched nat "string option" | ExpectRaises exn

text \<open>
  A child process that is run to its end: its arguments, standard input and directory, and what is set in
  its environment beside the program's own.
\<close>

record process_request =
  pr_argv :: "string list"
  pr_input :: "string option"
  pr_cwd :: "string option"
  pr_env :: "(string \<times> string) list"

record process_result =
  pr_returncode :: int
  pr_stdout :: string
  pr_stderr :: string

text \<open>
  A \<open>requests\<close> session (its cookies are part of \<open>'w\<close>, its certificate file is a field), what is asked
  of it, and what it answers. A parameter that is \<open>None\<close> is not sent. Header names are compared without
  case; the decoded body and what \<open>Response.json()\<close> makes of it are both given.
\<close>

record web_session =
  ws_id :: nat
  ws_verify :: string

record web_request =
  wq_method :: string
  wq_url :: string
  wq_params :: "(string \<times> string option) list"
  wq_form :: "(string, string) dict"
  wq_json :: "json option"
  wq_headers :: "(string, string) dict"
  wq_redirects :: bool
  wq_timeout :: int

record web_response =
  wr_status :: int
  wr_url :: string
  wr_headers :: "(string, string) dict"
  wr_text :: string
  wr_json :: "json res"

text \<open>Without a session a request has only its certificate file: \<open>Inl\<close> the file, \<open>Inr\<close> the session.\<close>

type_synonym web_client = "string + web_session"

datatype event =
    EHttp http_request http_outcome
  | EWeb web_client web_request "web_response res"
  | ERun process_request "process_result res"
  | EPopen process_request
  | ESpawn "string list"
  | ESendline string
  | EClose
  | EPrint bool string
  | EMkdirParents string
  | EWrite string string
  | ESleep int

record 'w platform =
  p_urlopen :: "http_request \<Rightarrow> 'w \<Rightarrow> http_outcome \<times> 'w"
  p_pexpect :: bool
  p_spawn :: "string list \<Rightarrow> int \<Rightarrow> 'w \<Rightarrow> unit res \<times> 'w"
  p_expect :: "pattern list \<Rightarrow> 'w \<Rightarrow> expect_outcome \<times> 'w"
  p_sendline :: "string \<Rightarrow> 'w \<Rightarrow> unit res \<times> 'w"
  p_close :: "'w \<Rightarrow> unit res \<times> 'w"
  p_exitstatus :: "'w \<Rightarrow> int option"
  p_time :: "'w \<Rightarrow> int"
  p_sleep :: "int \<Rightarrow> 'w \<Rightarrow> 'w"
  p_environ :: "string \<Rightarrow> string option"
  p_expanduser :: "string \<Rightarrow> string"
  p_write_error :: "string \<Rightarrow> string option"
  p_dry_run :: bool
  p_run :: "process_request \<Rightarrow> 'w \<Rightarrow> process_result res \<times> 'w"
  p_which :: "string \<Rightarrow> string option"
  p_token_urlsafe :: "int \<Rightarrow> 'w \<Rightarrow> string \<times> 'w"
  p_repo_root :: string
  p_popen :: "process_request \<Rightarrow> 'w \<Rightarrow> unit res \<times> 'w"
  p_new_session :: "'w \<Rightarrow> nat \<times> 'w"
  p_web :: "web_client \<Rightarrow> web_request \<Rightarrow> 'w \<Rightarrow> web_response res \<times> 'w"
  p_html5 :: "string \<Rightarrow> string option"

record 'w world =
  ext :: 'w
  files :: "string \<Rightarrow> file_content option"
  trace :: "event list"

type_synonym ('w, 'a) io = "'w world \<Rightarrow> 'a res \<times> 'w world"

section \<open>Sequencing\<close>

definition ret :: "'a \<Rightarrow> ('w, 'a) io" where
  "ret x w = (Inr x, w)"

definition raise :: "exn \<Rightarrow> ('w, 'a) io" where
  "raise e w = (Inl e, w)"

definition lift :: "'a res \<Rightarrow> ('w, 'a) io" where
  "lift r w = (r, w)"

definition io_bind :: "('w, 'a) io \<Rightarrow> ('a \<Rightarrow> ('w, 'b) io) \<Rightarrow> ('w, 'b) io" where
  "io_bind m k w =
     (case m w of (Inl e, w') \<Rightarrow> (Inl e, w') | (Inr x, w') \<Rightarrow> k x w')"

definition io_then :: "('w, 'a) io \<Rightarrow> ('w, 'b) io \<Rightarrow> ('w, 'b) io" where
  "io_then m k = io_bind m (\<lambda>_. k)"

text \<open>\<open>try: m except (K1, K2, ...) as exc: h(exc)\<close>.\<close>

definition catches :: "exc_kind list \<Rightarrow> exn \<Rightarrow> bool" where
  "catches Ks e = list_ex (isa (exn_kind e)) Ks"

definition io_except :: "exc_kind list \<Rightarrow> ('w, 'a) io \<Rightarrow> (exn \<Rightarrow> ('w, 'a) io) \<Rightarrow> ('w, 'a) io" where
  "io_except Ks m h w =
     (case m w of
        (Inl e, w') \<Rightarrow> if catches Ks e then h e w' else (Inl e, w')
      | (Inr x, w') \<Rightarrow> (Inr x, w'))"

text \<open>\<open>try: m finally: f\<close>: an exception of \<open>f\<close> replaces the outcome of \<open>m\<close>.\<close>

definition io_finally :: "('w, 'a) io \<Rightarrow> ('w, unit) io \<Rightarrow> ('w, 'a) io" where
  "io_finally m f w =
     (case m w of (r, w') \<Rightarrow> (case f w' of (Inl e, w'') \<Rightarrow> (Inl e, w'') | (Inr _, w'') \<Rightarrow> (r, w'')))"

fun io_map :: "('a \<Rightarrow> ('w, 'b) io) \<Rightarrow> 'a list \<Rightarrow> ('w, 'b list) io" where
  "io_map f [] = ret []"
| "io_map f (x # xs) = io_bind (f x) (\<lambda>y. io_bind (io_map f xs) (\<lambda>ys. ret (y # ys)))"

text \<open>\<open>for x in xs: acc = f(x, acc)\<close>.\<close>

fun io_fold :: "('a \<Rightarrow> 'b \<Rightarrow> ('w, 'b) io) \<Rightarrow> 'a list \<Rightarrow> 'b \<Rightarrow> ('w, 'b) io" where
  "io_fold f [] acc = ret acc"
| "io_fold f (x # xs) acc = io_bind (f x acc) (io_fold f xs)"

lemma io_bind_simps [simp]:
  "io_bind (ret x) k = k x"
  "io_bind (raise e) k = raise e"
  "io_bind m ret = m"
  "io_bind (lift (Inl e)) k = raise e"
  "io_bind (lift (Inr x)) k = k x"
  by (auto simp: io_bind_def ret_def raise_def lift_def fun_eq_iff split: sum.splits prod.splits)

lemma io_bind_assoc: "io_bind (io_bind m k) h = io_bind m (\<lambda>x. io_bind (k x) h)"
  by (auto simp: io_bind_def fun_eq_iff split: sum.splits prod.splits)

lemma io_bind_Inr:
  "io_bind m k w = (Inr y, w') \<longleftrightarrow> (\<exists>x w1. m w = (Inr x, w1) \<and> k x w1 = (Inr y, w'))"
  by (auto simp: io_bind_def split: sum.splits prod.splits)

lemma io_then_Inr:
  "io_then m k w = (Inr y, w') \<longleftrightarrow> (\<exists>x w1. m w = (Inr x, w1) \<and> k w1 = (Inr y, w'))"
  by (simp add: io_then_def io_bind_Inr)

lemma io_run_simps [simp]:
  "ret x w = (r, w') \<longleftrightarrow> r = Inr x \<and> w' = w"
  "raise e w = (r, w') \<longleftrightarrow> r = Inl e \<and> w' = w"
  "lift v w = (r, w') \<longleftrightarrow> v = r \<and> w' = w"
  by (auto simp: ret_def raise_def lift_def)

section \<open>Primitive effects\<close>

definition emit :: "event \<Rightarrow> 'w world \<Rightarrow> 'w world" where
  "emit e w = w\<lparr>trace := trace w @ [e]\<rparr>"

definition urlopen :: "'w platform \<Rightarrow> http_request \<Rightarrow> ('w, http_outcome) io" where
  "urlopen P req w =
     (case p_urlopen P req (ext w) of
        (HttpFail e, x) \<Rightarrow> (Inl e, emit (EHttp req (HttpFail e)) (w\<lparr>ext := x\<rparr>))
      | (o', x) \<Rightarrow> (Inr o', emit (EHttp req o') (w\<lparr>ext := x\<rparr>)))"

definition run_process :: "'w platform \<Rightarrow> process_request \<Rightarrow> ('w, process_result) io" where
  "run_process P req w =
     (case p_run P req (ext w) of (r, x) \<Rightarrow> (r, emit (ERun req r) (w\<lparr>ext := x\<rparr>)))"

definition popen :: "'w platform \<Rightarrow> process_request \<Rightarrow> ('w, unit) io" where
  "popen P req w = (case p_popen P req (ext w) of (r, x) \<Rightarrow> (r, emit (EPopen req) (w\<lparr>ext := x\<rparr>)))"

definition new_session :: "'w platform \<Rightarrow> ('w, nat) io" where
  "new_session P w = (case p_new_session P (ext w) of (n, x) \<Rightarrow> (Inr n, w\<lparr>ext := x\<rparr>))"

definition web :: "'w platform \<Rightarrow> web_client \<Rightarrow> web_request \<Rightarrow> ('w, web_response) io" where
  "web P c req w = (case p_web P c req (ext w) of (r, x) \<Rightarrow> (r, emit (EWeb c req r) (w\<lparr>ext := x\<rparr>)))"

definition token_urlsafe :: "'w platform \<Rightarrow> int \<Rightarrow> ('w, string) io" where
  "token_urlsafe P n w = (case p_token_urlsafe P n (ext w) of (s, x) \<Rightarrow> (Inr s, w\<lparr>ext := x\<rparr>))"

definition print_line :: "string \<Rightarrow> ('w, unit) io" where
  "print_line s w = (Inr (), emit (EPrint False s) w)"

definition print_err :: "string \<Rightarrow> ('w, unit) io" where
  "print_err s w = (Inr (), emit (EPrint True s) w)"

definition sleep :: "'w platform \<Rightarrow> int \<Rightarrow> ('w, unit) io" where
  "sleep P n w = (Inr (), emit (ESleep n) (w\<lparr>ext := p_sleep P n (ext w)\<rparr>))"

definition clock :: "'w platform \<Rightarrow> ('w, int) io" where
  "clock P w = (Inr (p_time P (ext w)), w)"

text \<open>\<open>open(path).read()\<close>, and \<open>Path.exists\<close>.\<close>

definition read_file :: "string \<Rightarrow> ('w, string) io" where
  "read_file p w =
     (case files w p of
        Some (Text s) \<Rightarrow> (Inr s, w)
      | Some (Unreadable m) \<Rightarrow> (Inl (Exn OSError m), w)
      | Some (Undecodable m) \<Rightarrow> (Inl (Exn ValueError m), w)
      | None \<Rightarrow> (Inl (Exn OSError (''[Errno 2] No such file or directory: '' @ repr_str p)), w))"

definition file_exists :: "string \<Rightarrow> ('w, bool) io" where
  "file_exists p w = (Inr (files w p \<noteq> None), w)"

definition mkdir_parents :: "string \<Rightarrow> ('w, unit) io" where
  "mkdir_parents p w = (Inr (), emit (EMkdirParents p) w)"

definition write_file :: "'w platform \<Rightarrow> string \<Rightarrow> string \<Rightarrow> ('w, unit) io" where
  "write_file P p s w =
     (case p_write_error P p of
        Some m \<Rightarrow> (Inl (Exn OSError m), w)
      | None \<Rightarrow> (Inr (), emit (EWrite p s) (w\<lparr>files := (files w)(p \<mapsto> Text s)\<rparr>)))"

text \<open>The \<open>pexpect\<close> child. Only one child is alive at a time, so its state is in \<open>'w\<close>.\<close>

definition import_pexpect :: "'w platform \<Rightarrow> ('w, unit) io" where
  "import_pexpect P =
     (if p_pexpect P then ret () else raise (Exn ImportError (''No module named '' @ repr_str ''pexpect'')))"

definition spawn :: "'w platform \<Rightarrow> string list \<Rightarrow> int \<Rightarrow> ('w, unit) io" where
  "spawn P argv t w =
     (case p_spawn P argv t (ext w) of (r, x) \<Rightarrow> (r, emit (ESpawn argv) (w\<lparr>ext := x\<rparr>)))"

definition expect :: "'w platform \<Rightarrow> pattern list \<Rightarrow> ('w, nat \<times> string option) io" where
  "expect P ps w =
     (case p_expect P ps (ext w) of
        (Matched i b, x) \<Rightarrow> (Inr (i, b), w\<lparr>ext := x\<rparr>)
      | (ExpectRaises e, x) \<Rightarrow> (Inl e, w\<lparr>ext := x\<rparr>))"

definition sendline :: "'w platform \<Rightarrow> string \<Rightarrow> ('w, unit) io" where
  "sendline P s w =
     (case p_sendline P s (ext w) of (r, x) \<Rightarrow> (r, emit (ESendline s) (w\<lparr>ext := x\<rparr>)))"

definition close_child :: "'w platform \<Rightarrow> ('w, unit) io" where
  "close_child P w = (case p_close P (ext w) of (r, x) \<Rightarrow> (r, emit EClose (w\<lparr>ext := x\<rparr>)))"

definition exitstatus :: "'w platform \<Rightarrow> ('w, int option) io" where
  "exitstatus P w = (Inr (p_exitstatus P (ext w)), w)"

section \<open>Specifications over the trace\<close>

text \<open>What an event does to the files; only a write changes them.\<close>

fun apply_event :: "event \<Rightarrow> (string \<Rightarrow> file_content option) \<Rightarrow> (string \<Rightarrow> file_content option)" where
  "apply_event (EWrite p s) fs = fs(p \<mapsto> Text s)"
| "apply_event _ fs = fs"

text \<open>
  \<open>spec m R\<close>: from every world, \<open>m\<close> only appends to the trace, its effect on the files is that of the
  appended events, and \<open>R\<close> relates those events to the result.
\<close>

definition spec :: "('w, 'a) io \<Rightarrow> (event list \<Rightarrow> 'a res \<Rightarrow> bool) \<Rightarrow> bool" where
  "spec m R \<longleftrightarrow>
     (\<forall>w. \<exists>es. trace (snd (m w)) = trace w @ es \<and> files (snd (m w)) = fold apply_event es (files w)
        \<and> R es (fst (m w)))"

definition only :: "(event \<Rightarrow> bool) \<Rightarrow> ('w, 'a) io \<Rightarrow> bool" where
  "only P m \<longleftrightarrow> spec m (\<lambda>es _. \<forall>e \<in> set es. P e)"

named_theorems spec_intros "rules for spec along the structure of effectful code"
named_theorems only_intros "rules for only along the structure of effectful code"

lemma specI:
  assumes "\<And>w. \<exists>es. trace (snd (m w)) = trace w @ es \<and> files (snd (m w)) = fold apply_event es (files w)
        \<and> R es (fst (m w))"
  shows "spec m R"
  using assms by (simp add: spec_def)

lemma spec_weaken: "spec m R \<Longrightarrow> (\<And>es r. R es r \<Longrightarrow> R' es r) \<Longrightarrow> spec m R'"
  unfolding spec_def by blast

lemma specD:
  assumes "spec m R" and "m w = (r, w')"
  obtains es where "trace w' = trace w @ es" "files w' = fold apply_event es (files w)" "R es r"
  using assms unfolding spec_def by (metis fst_conv snd_conv)

lemma spec_conj: "spec m R \<Longrightarrow> spec m R' \<Longrightarrow> spec m (\<lambda>es r. R es r \<and> R' es r)"
  unfolding spec_def by (metis same_append_eq)

lemma spec_ret [spec_intros]: "R [] (Inr x) \<Longrightarrow> spec (ret x) R"
  by (simp add: spec_def ret_def)

lemma spec_raise [spec_intros]: "R [] (Inl e) \<Longrightarrow> spec (raise e) R"
  by (simp add: spec_def raise_def)

lemma spec_lift [spec_intros]: "R [] r \<Longrightarrow> spec (lift r) R"
  by (simp add: spec_def lift_def)

lemma spec_if [spec_intros]: "(b \<Longrightarrow> spec m R) \<Longrightarrow> (\<not> b \<Longrightarrow> spec m' R) \<Longrightarrow> spec (if b then m else m') R"
  by simp

lemma spec_bind:
  assumes "spec m R"
    and "\<And>es e. R es (Inl e) \<Longrightarrow> Q es (Inl e)"
    and "\<And>es x. R es (Inr x) \<Longrightarrow> spec (k x) (\<lambda>es' r. Q (es @ es') r)"
  shows "spec (io_bind m k) Q"
proof (rule specI)
  fix w
  obtain r w1 where mw: "m w = (r, w1)" by (cases "m w")
  from specD [OF assms(1) mw] obtain es where
    es: "trace w1 = trace w @ es" "files w1 = fold apply_event es (files w)" "R es r" .
  show "\<exists>es. trace (snd (io_bind m k w)) = trace w @ es
      \<and> files (snd (io_bind m k w)) = fold apply_event es (files w) \<and> Q es (fst (io_bind m k w))"
  proof (cases r)
    case (Inl e)
    then show ?thesis using es mw assms(2) by (auto simp: io_bind_def)
  next
    case (Inr x)
    obtain r2 w2 where k: "k x w1 = (r2, w2)" by (cases "k x w1")
    from specD [OF assms(3) k] es(3) Inr obtain es' where
      "trace w2 = trace w1 @ es'" "files w2 = fold apply_event es' (files w1)" "Q (es @ es') r2"
      by blast
    then show ?thesis using es mw Inr k by (intro exI [of _ "es @ es'"]) (simp add: io_bind_def)
  qed
qed

lemma spec_except:
  assumes "spec m R"
    and "\<And>es x. R es (Inr x) \<Longrightarrow> Q es (Inr x)"
    and "\<And>es e. R es (Inl e) \<Longrightarrow> \<not> catches Ks e \<Longrightarrow> Q es (Inl e)"
    and "\<And>es e. R es (Inl e) \<Longrightarrow> catches Ks e \<Longrightarrow> spec (h e) (\<lambda>es' r. Q (es @ es') r)"
  shows "spec (io_except Ks m h) Q"
proof (rule specI)
  fix w
  obtain r w1 where mw: "m w = (r, w1)" by (cases "m w")
  from specD [OF assms(1) mw] obtain es where
    es: "trace w1 = trace w @ es" "files w1 = fold apply_event es (files w)" "R es r" .
  show "\<exists>es. trace (snd (io_except Ks m h w)) = trace w @ es
      \<and> files (snd (io_except Ks m h w)) = fold apply_event es (files w) \<and> Q es (fst (io_except Ks m h w))"
  proof (cases r)
    case (Inr x)
    then show ?thesis using es mw assms(2) by (auto simp: io_except_def)
  next
    case (Inl e)
    show ?thesis
    proof (cases "catches Ks e")
      case False
      then show ?thesis using es mw assms(3) Inl by (auto simp: io_except_def)
    next
      case True
      obtain r2 w2 where k: "h e w1 = (r2, w2)" by (cases "h e w1")
      from specD [OF assms(4) k] es(3) Inl True obtain es' where
        "trace w2 = trace w1 @ es'" "files w2 = fold apply_event es' (files w1)" "Q (es @ es') r2"
        by blast
      then show ?thesis using es mw Inl True k by (intro exI [of _ "es @ es'"]) (simp add: io_except_def)
    qed
  qed
qed

lemma spec_finally:
  assumes "spec m R" and "spec f S"
    and "\<And>es es' r x. R es r \<Longrightarrow> S es' (Inr x) \<Longrightarrow> Q (es @ es') r"
    and "\<And>es es' r e. R es r \<Longrightarrow> S es' (Inl e) \<Longrightarrow> Q (es @ es') (Inl e)"
  shows "spec (io_finally m f) Q"
proof (rule specI)
  fix w
  obtain r w1 where mw: "m w = (r, w1)" by (cases "m w")
  obtain r2 w2 where f: "f w1 = (r2, w2)" by (cases "f w1")
  from specD [OF assms(1) mw] obtain es where
    es: "trace w1 = trace w @ es" "files w1 = fold apply_event es (files w)" "R es r" .
  from specD [OF assms(2) f] obtain es' where
    es': "trace w2 = trace w1 @ es'" "files w2 = fold apply_event es' (files w1)" "S es' r2" .
  show "\<exists>es. trace (snd (io_finally m f w)) = trace w @ es
      \<and> files (snd (io_finally m f w)) = fold apply_event es (files w) \<and> Q es (fst (io_finally m f w))"
    using es es' mw f assms(3,4)
    by (intro exI [of _ "es @ es'"]) (cases r2; simp add: io_finally_def)
qed

subsection \<open>Code that only has events of one kind\<close>

lemma onlyI: "spec m (\<lambda>es _. \<forall>e \<in> set es. P e) \<Longrightarrow> only P m"
  by (simp add: only_def)

lemma only_weaken: "only P m \<Longrightarrow> (\<And>e. P e \<Longrightarrow> P' e) \<Longrightarrow> only P' m"
  unfolding only_def by (erule spec_weaken) blast

lemma only_ret [only_intros]: "only P (ret x)"
  and only_raise [only_intros]: "only P (raise e)"
  and only_lift [only_intros]: "only P (lift r)"
  by (simp_all add: only_def spec_intros)

lemma only_bind [only_intros]: "only P m \<Longrightarrow> (\<And>x. only P (k x)) \<Longrightarrow> only P (io_bind m k)"
  unfolding only_def by (rule spec_bind, assumption, simp, rule spec_weaken, blast) auto

text \<open>The continuation only has to be considered for the results the first part can have.\<close>

lemma only_bind_result:
  assumes "only P m" and "\<And>w x w'. m w = (Inr x, w') \<Longrightarrow> only P (k x)"
  shows "only P (io_bind m k)"
  unfolding only_def
proof (rule specI)
  fix w
  obtain r w1 where mw: "m w = (r, w1)" by (cases "m w")
  from specD [OF assms(1) [unfolded only_def] mw] obtain es where
    es: "trace w1 = trace w @ es" "files w1 = fold apply_event es (files w)" "\<forall>e \<in> set es. P e" .
  show "\<exists>es. trace (snd (io_bind m k w)) = trace w @ es
      \<and> files (snd (io_bind m k w)) = fold apply_event es (files w) \<and> (\<forall>e \<in> set es. P e)"
  proof (cases r)
    case (Inl e)
    then show ?thesis using es mw by (auto simp: io_bind_def)
  next
    case (Inr x)
    obtain r2 w2 where k: "k x w1 = (r2, w2)" by (cases "k x w1")
    from specD [OF assms(2) [OF mw [unfolded Inr], unfolded only_def] k] obtain es' where
      "trace w2 = trace w1 @ es'" "files w2 = fold apply_event es' (files w1)" "\<forall>e \<in> set es'. P e" .
    then show ?thesis using es mw Inr k by (intro exI [of _ "es @ es'"]) (auto simp: io_bind_def)
  qed
qed

lemma only_then [only_intros]: "only P m \<Longrightarrow> only P k \<Longrightarrow> only P (io_then m k)"
  unfolding io_then_def by (rule only_bind)

lemma only_except [only_intros]: "only P m \<Longrightarrow> (\<And>e. only P (h e)) \<Longrightarrow> only P (io_except Ks m h)"
  unfolding only_def by (rule spec_except, assumption, simp, simp, rule spec_weaken, blast) auto

lemma only_finally [only_intros]: "only P m \<Longrightarrow> only P f \<Longrightarrow> only P (io_finally m f)"
  unfolding only_def by (rule spec_finally, assumption, assumption) auto

lemma only_map [only_intros]: "(\<And>x. only P (f x)) \<Longrightarrow> only P (io_map f xs)"
  by (induction xs) (simp_all add: only_intros)

lemma only_fold [only_intros]: "(\<And>x a. only P (f x a)) \<Longrightarrow> only P (io_fold f xs acc)"
  by (induction xs arbitrary: acc) (simp_all add: only_intros)

lemma only_if [only_intros]: "(b \<Longrightarrow> only P m) \<Longrightarrow> (\<not> b \<Longrightarrow> only P m') \<Longrightarrow> only P (if b then m else m')"
  by simp

lemma only_case_prod [only_intros]: "(\<And>a b. only P (f a b)) \<Longrightarrow> only P (case p of (a, b) \<Rightarrow> f a b)"
  by (cases p) simp

lemma only_case_option [only_intros]:
  "only P m \<Longrightarrow> (\<And>x. only P (f x)) \<Longrightarrow> only P (case v of None \<Rightarrow> m | Some x \<Rightarrow> f x)"
  by (cases v) simp_all

lemma only_case_sum [only_intros]:
  "(\<And>x. only P (f x)) \<Longrightarrow> (\<And>x. only P (g x)) \<Longrightarrow> only P (case v of Inl x \<Rightarrow> f x | Inr x \<Rightarrow> g x)"
  by (cases v) simp_all

lemma only_case_outcome [only_intros]:
  "(\<And>s b. only P (f s b)) \<Longrightarrow> (\<And>s b. only P (g s b)) \<Longrightarrow> (\<And>e. only P (h e)) \<Longrightarrow>
     only P (case v of HttpOk s b \<Rightarrow> f s b | HttpError s b \<Rightarrow> g s b | HttpFail e \<Rightarrow> h e)"
  by (cases v) simp_all

text \<open>A run of code that never writes a file leaves the files as they were.\<close>

definition not_write :: "event \<Rightarrow> bool" where
  "not_write e \<longleftrightarrow> (case e of EWrite _ _ \<Rightarrow> False | _ \<Rightarrow> True)"

lemma fold_not_write: "\<forall>e \<in> set es. not_write e \<Longrightarrow> fold apply_event es fs = fs"
  by (induction es) (auto simp: not_write_def split: event.splits)

lemma only_files: "only not_write m \<Longrightarrow> m w = (r, w') \<Longrightarrow> files w' = files w"
  unfolding only_def by (erule specD) (simp_all add: fold_not_write)

lemma only_trace: "only P m \<Longrightarrow> m w = (r, w') \<Longrightarrow> \<exists>es. trace w' = trace w @ es \<and> (\<forall>e \<in> set es. P e)"
  unfolding only_def by (erule specD) auto

section \<open>The primitives satisfy their specifications\<close>

lemma spec_urlopen:
  "spec (urlopen P req)
     (\<lambda>es r. \<exists>out. es = [EHttp req out] \<and> r = (case out of HttpFail e \<Rightarrow> Inl e | _ \<Rightarrow> Inr out))"
  by (rule specI) (auto simp: urlopen_def emit_def split: prod.splits http_outcome.splits)

lemma spec_run_process: "spec (run_process P req) (\<lambda>es r. es = [ERun req r])"
  by (rule specI) (simp add: run_process_def emit_def split: prod.splits)

lemma spec_popen: "spec (popen P req) (\<lambda>es r. es = [EPopen req])"
  by (rule specI) (simp add: popen_def emit_def split: prod.splits)

lemma spec_new_session: "spec (new_session P) (\<lambda>es r. es = [] \<and> (\<exists>n. r = Inr n))"
  by (rule specI) (simp add: new_session_def split: prod.splits)

lemma spec_web: "spec (web P c req) (\<lambda>es r. es = [EWeb c req r])"
  by (rule specI) (simp add: web_def emit_def split: prod.splits)

lemma spec_token_urlsafe: "spec (token_urlsafe P n) (\<lambda>es r. es = [] \<and> (\<exists>s. r = Inr s))"
  by (rule specI) (simp add: token_urlsafe_def split: prod.splits)

lemma spec_print: "spec (print_line s) (\<lambda>es r. es = [EPrint False s] \<and> r = Inr ())"
  by (rule specI) (simp add: print_line_def emit_def)

lemma spec_print_err: "spec (print_err s) (\<lambda>es r. es = [EPrint True s] \<and> r = Inr ())"
  by (rule specI) (simp add: print_err_def emit_def)

lemma spec_sleep: "spec (sleep P n) (\<lambda>es r. es = [ESleep n] \<and> r = Inr ())"
  by (rule specI) (simp add: sleep_def emit_def)

lemma spec_clock: "spec (clock P) (\<lambda>es r. es = [] \<and> (\<exists>t. r = Inr t))"
  by (rule specI) (simp add: clock_def)

lemma spec_read_file: "spec (read_file p) (\<lambda>es r. es = [])"
  by (rule specI) (simp add: read_file_def split: option.splits file_content.splits)

lemma spec_file_exists: "spec (file_exists p) (\<lambda>es r. es = [])"
  by (rule specI) (simp add: file_exists_def)

lemma spec_mkdir: "spec (mkdir_parents p) (\<lambda>es r. es = [EMkdirParents p] \<and> r = Inr ())"
  by (rule specI) (simp add: mkdir_parents_def emit_def)

lemma spec_write_file:
  "spec (write_file P p s) (\<lambda>es r. (es = [EWrite p s] \<and> r = Inr ()) \<or> (es = [] \<and> (\<exists>e. r = Inl e)))"
  by (rule specI) (simp add: write_file_def emit_def split: option.splits)

lemma spec_import_pexpect: "spec (import_pexpect P) (\<lambda>es r. es = [] \<and> (r = Inr () \<longleftrightarrow> p_pexpect P))"
  by (simp add: import_pexpect_def spec_intros)

lemma spec_spawn: "spec (spawn P argv t) (\<lambda>es r. es = [ESpawn argv])"
  by (rule specI) (simp add: spawn_def emit_def split: prod.splits)

lemma spec_expect: "spec (expect P ps) (\<lambda>es r. es = [])"
  by (rule specI) (simp add: expect_def split: prod.splits expect_outcome.splits)

lemma spec_sendline: "spec (sendline P s) (\<lambda>es r. es = [ESendline s])"
  by (rule specI) (simp add: sendline_def emit_def split: prod.splits)

lemma spec_close: "spec (close_child P) (\<lambda>es r. es = [EClose])"
  by (rule specI) (simp add: close_child_def emit_def split: prod.splits)

lemma spec_exitstatus: "spec (exitstatus P) (\<lambda>es r. es = [])"
  by (rule specI) (simp add: exitstatus_def)

lemmas spec_prims = spec_urlopen spec_print spec_print_err spec_sleep spec_clock spec_read_file
  spec_file_exists spec_mkdir spec_write_file spec_import_pexpect spec_spawn spec_expect spec_sendline
  spec_close spec_exitstatus spec_run_process spec_popen spec_new_session spec_web spec_token_urlsafe

lemma only_urlopen [only_intros]: "(\<And>out. P (EHttp req out)) \<Longrightarrow> only P (urlopen Q req)"
  and only_print [only_intros]: "P (EPrint False s) \<Longrightarrow> only P (print_line s)"
  and only_print_err [only_intros]: "P (EPrint True s) \<Longrightarrow> only P (print_err s)"
  and only_sleep [only_intros]: "P (ESleep n) \<Longrightarrow> only P (sleep Q n)"
  and only_clock [only_intros]: "only P (clock Q)"
  and only_read_file [only_intros]: "only P (read_file p)"
  and only_file_exists [only_intros]: "only P (file_exists p)"
  and only_mkdir [only_intros]: "P (EMkdirParents p) \<Longrightarrow> only P (mkdir_parents p)"
  and only_write_file [only_intros]: "P (EWrite p s) \<Longrightarrow> only P (write_file Q p s)"
  and only_import_pexpect [only_intros]: "only P (import_pexpect Q)"
  and only_spawn [only_intros]: "P (ESpawn argv) \<Longrightarrow> only P (spawn Q argv n)"
  and only_expect [only_intros]: "only P (expect Q ps)"
  and only_sendline [only_intros]: "P (ESendline s) \<Longrightarrow> only P (sendline Q s)"
  and only_close [only_intros]: "P EClose \<Longrightarrow> only P (close_child Q)"
  and only_exitstatus [only_intros]: "only P (exitstatus Q)"
  and only_run_process [only_intros]: "(\<And>r. P (ERun rq r)) \<Longrightarrow> only P (run_process Q rq)"
  and only_popen [only_intros]: "P (EPopen rq) \<Longrightarrow> only P (popen Q rq)"
  and only_new_session [only_intros]: "only P (new_session Q)"
  and only_web [only_intros]: "(\<And>x. P (EWeb c wq x)) \<Longrightarrow> only P (web Q c wq)"
  and only_token_urlsafe [only_intros]: "only P (token_urlsafe Q n)"
  unfolding only_def by (rule spec_weaken, rule spec_prims, fastforce)+

section \<open>Loops\<close>

lemma spec_map:
  assumes "\<And>x. x \<in> set xs \<Longrightarrow> spec (f x) (R x)"
  shows "spec (io_map f xs) (\<lambda>es r. \<forall>ys. r = Inr ys \<longrightarrow>
     (\<exists>ess. es = concat ess \<and> list_all2 (\<lambda>x (es, y). R x es (Inr y)) xs (zip ess ys) \<and> length ess = length ys))"
  using assms
proof (induction xs)
  case Nil
  then show ?case by (auto intro: spec_intros)
next
  case (Cons x xs)
  show ?case
    unfolding io_map.simps
  proof (rule spec_bind [OF Cons.prems], simp, simp)
    fix es y
    assume y: "R x es (Inr y)"
    show "spec (io_bind (io_map f xs) (\<lambda>ys. ret (y # ys))) (\<lambda>es' r. \<forall>ys. r = Inr ys \<longrightarrow>
        (\<exists>ess. es @ es' = concat ess \<and> list_all2 (\<lambda>x (es, y). R x es (Inr y)) (x # xs) (zip ess ys)
          \<and> length ess = length ys))"
    proof (rule spec_bind [OF Cons.IH], goal_cases)
      case (3 es' ys)
      then obtain ess where "es' = concat ess" "list_all2 (\<lambda>x (es, y). R x es (Inr y)) xs (zip ess ys)"
        "length ess = length ys" by blast
      then show ?case using y by (intro spec_ret) (auto intro!: exI [of _ "es # ess"])
    qed (use Cons.prems in auto)
  qed
qed

text \<open>A loop whose body computes from the element alone and then folds the result in.\<close>

lemma io_fold_map:
  "io_fold (\<lambda>x acc. io_bind (g x) (\<lambda>y. ret (h x y acc))) xs acc =
     io_bind (io_map g xs) (\<lambda>ys. ret (fold (\<lambda>(x, y). h x y) (zip xs ys) acc))"
  by (induction xs arbitrary: acc) (simp_all add: io_bind_assoc)

lemma spec_only: "only P m \<Longrightarrow> spec m (\<lambda>es r. \<forall>e \<in> set es. P e)"
  by (simp add: only_def)

lemma spec_no_events: "(\<And>Q. only Q m) \<Longrightarrow> spec m (\<lambda>es r. es = [])"
  by (rule spec_weaken [OF spec_only [of "\<lambda>_. False"]]) auto

text \<open>A successful run of code with a specification of its successes.\<close>

lemma spec_InrD:
  assumes "spec m (\<lambda>es r. \<forall>x. r = Inr x \<longrightarrow> Q es x)" and "m w = (Inr y, w')"
  obtains es where "trace w' = trace w @ es" "Q es y"
  by (rule specD [OF assms]) (simp add: that)

end
