(* ===== verification/Pve_Api.thy ===== *)
theory Pve_Api
  imports Platform
begin

text \<open>
  What the three Proxmox API clients of the program have in common: the form encoding of
  \<open>urllib.parse.urlencode\<close>, the host part \<open>urllib.parse.urlparse(url).netloc\<close>, and the request/response
  step each client spells out in its own \<open>_request\<close>. The form encoding is shown to be a codec (a server
  that decodes the form gets the values back, whatever characters the password has), and the request
  step to be one HTTP event whose decoded outcome is the result.
\<close>

section \<open>Form encoding\<close>

text \<open>UTF-8, for the code points of the model's strings.\<close>

fun utf8 :: "string \<Rightarrow> nat list" where
  "utf8 [] = []"
| "utf8 (c # cs) =
     (let n = of_char c
      in if n < 128 then n # utf8 cs else (192 + n div 64) # (128 + n mod 64) # utf8 cs)"

fun utf8_decode :: "nat list \<Rightarrow> string option" where
  "utf8_decode [] = Some []"
| "utf8_decode (n # ns) =
     (if n < 128 then map_option ((#) (char_of n)) (utf8_decode ns)
      else if 194 \<le> n \<and> n \<le> 195 then
        (case ns of
           [] \<Rightarrow> None
         | m # ms \<Rightarrow>
             if 128 \<le> m \<and> m < 192
             then map_option ((#) (char_of ((n - 192) * 64 + (m - 128)))) (utf8_decode ms)
             else None)
      else None)"

definition url_safe :: "char \<Rightarrow> bool" where
  "url_safe c \<longleftrightarrow>
     (let n = (of_char c :: nat)
      in is_digit c \<or> (65 \<le> n \<and> n \<le> 90) \<or> (97 \<le> n \<and> n \<le> 122)
         \<or> c = CHR ''_'' \<or> c = CHR ''.'' \<or> c = CHR ''-'' \<or> c = CHR ''~'')"

definition upper_hex :: "nat \<Rightarrow> char" where
  "upper_hex d = (if d < 10 then char_of (48 + d) else char_of (55 + d))"

definition percent :: "nat \<Rightarrow> string" where
  "percent n = [CHR ''%'', upper_hex (n div 16), upper_hex (n mod 16)]"

definition quote_byte :: "nat \<Rightarrow> string" where
  "quote_byte n = (if url_safe (char_of n) then [char_of n] else if n = 32 then ''+'' else percent n)"

definition quote_plus :: "string \<Rightarrow> string" where
  "quote_plus s = concat (map quote_byte (utf8 s))"

text \<open>\<open>urlencode(form)\<close>, values through \<open>str\<close>.\<close>

definition form_field :: "string \<times> string \<Rightarrow> string" where
  "form_field p = quote_plus (fst p) @ ''='' @ quote_plus (snd p)"

definition encode_fields :: "(string \<times> string) list \<Rightarrow> string" where
  "encode_fields ps = py_join ''&'' (map form_field ps)"

definition urlencode :: "(string, json) dict \<Rightarrow> string" where
  "urlencode form = encode_fields (map (\<lambda>(k, v). (k, py_str v)) form)"

text \<open>What the receiver of \<open>application/x-www-form-urlencoded\<close> does.\<close>

fun unquote_bytes :: "string \<Rightarrow> nat list" where
  "unquote_bytes [] = []"
| "unquote_bytes (c # cs) =
     (if c = CHR ''+'' then 32 # unquote_bytes cs
      else if c = CHR ''%'' then
        (case cs of a # b # r \<Rightarrow> (16 * hex_val a + hex_val b) # unquote_bytes r | _ \<Rightarrow> [])
      else of_char c # unquote_bytes cs)"

definition unquote_plus :: "string \<Rightarrow> string option" where
  "unquote_plus s = utf8_decode (unquote_bytes s)"

definition decode_field :: "string \<Rightarrow> (string \<times> string) option" where
  "decode_field s =
     (case split_max (CHR ''='') 1 s of
        [k, v] \<Rightarrow>
          (case (unquote_plus k, unquote_plus v) of (Some a, Some b) \<Rightarrow> Some (a, b) | _ \<Rightarrow> None)
      | _ \<Rightarrow> None)"

fun decode_all :: "string list \<Rightarrow> (string \<times> string) list option" where
  "decode_all [] = Some []"
| "decode_all (s # ss) =
     (case decode_field s of
        None \<Rightarrow> None
      | Some p \<Rightarrow> map_option ((#) p) (decode_all ss))"

definition decode_fields :: "string \<Rightarrow> (string \<times> string) list option" where
  "decode_fields s = decode_all (py_split (CHR ''&'') s)"

lemma lead_byte_bound: "(n::nat) < 256 \<Longrightarrow> n div 64 < 4"
  by (simp add: less_mult_imp_div_less)

lemma lead_byte: "(n::nat) < 256 \<Longrightarrow> \<not> n < 128 \<Longrightarrow> n div 64 = 2 \<or> n div 64 = 3"
  using lead_byte_bound [of n] div_le_mono [of 128 n 64] by simp linarith

lemma url_safe_not:
  "\<not> url_safe (CHR ''+'')" "\<not> url_safe (CHR ''%'')" "\<not> url_safe (CHR ''&'')" "\<not> url_safe (CHR ''='')"
  by code_simp+

lemma utf8_decode_utf8: "utf8_decode (utf8 s) = Some s"
proof (induction s)
  case (Cons c s)
  have n: "(of_char c :: nat) < 256" by (rule nat_of_char_less_256)
  show ?case
  proof (cases "(of_char c :: nat) < 128")
    case True
    with Cons show ?thesis by (simp add: Let_def)
  next
    case False
    with n have "of_char c div 64 = (2::nat) \<or> of_char c div 64 = (3::nat)" by (rule lead_byte)
    moreover have "(of_char c :: nat) div 64 * 64 + of_char c mod 64 = of_char c" by simp
    moreover have "(of_char c :: nat) mod 64 < 64" by simp
    ultimately show ?thesis using Cons False by (auto simp: Let_def)
  qed
qed simp

lemma utf8_bytes: "n \<in> set (utf8 s) \<Longrightarrow> n < 256"
proof (induction s)
  case (Cons c s)
  have "(of_char c :: nat) < 256" by (rule nat_of_char_less_256)
  then have "(of_char c :: nat) div 64 < 4" "(of_char c :: nat) mod 64 < 64"
    by (rule lead_byte_bound) simp
  with Cons show ?case by (auto simp: Let_def split: if_splits)
qed simp

lemma hex_val_upper_hex: "d < 16 \<Longrightarrow> hex_val (upper_hex d) = d"
  by (simp add: upper_hex_def hex_val_def is_digit_def Let_def)

lemma unquote_quote_byte: "n < 256 \<Longrightarrow> unquote_bytes (quote_byte n @ r) = n # unquote_bytes r"
proof -
  assume n: "n < 256"
  show ?thesis
  proof (cases "url_safe (char_of n)")
    case True
    then have "char_of n \<noteq> CHR ''+''" "char_of n \<noteq> CHR ''%''"
      using url_safe_not by metis+
    with True n show ?thesis by (simp add: quote_byte_def)
  next
    case False
    have "n div 16 < 16" using n by auto
    then have "16 * hex_val (upper_hex (n div 16)) + hex_val (upper_hex (n mod 16)) = n"
      by (simp add: hex_val_upper_hex)
    with False n show ?thesis by (simp add: quote_byte_def percent_def)
  qed
qed

lemma unquote_quote_bytes:
  "\<forall>n \<in> set ns. n < 256 \<Longrightarrow> unquote_bytes (concat (map quote_byte ns)) = ns"
  by (induction ns) (simp_all add: unquote_quote_byte)

lemma unquote_quote_plus: "unquote_plus (quote_plus s) = Some s"
  by (simp add: unquote_plus_def quote_plus_def unquote_quote_bytes utf8_bytes utf8_decode_utf8)

interpretation url_text: codec quote_plus unquote_plus "\<lambda>_. True"
  by unfold_locales (simp add: unquote_quote_plus)

lemma upper_hex_safe: "d < 16 \<Longrightarrow> url_safe (upper_hex d)"
  by (auto simp: upper_hex_def url_safe_def is_digit_def Let_def)

lemma quote_byte_chars:
  assumes "n < 256" and "c \<in> set (quote_byte n)"
  shows "url_safe c \<or> c = CHR ''+'' \<or> c = CHR ''%''"
proof -
  have "n div 16 < 16" using assms(1) by auto
  with assms(2) upper_hex_safe show ?thesis
    by (auto simp: quote_byte_def percent_def split: if_splits)
qed

lemma quote_plus_chars: "c \<in> set (quote_plus s) \<Longrightarrow> c \<noteq> CHR ''&'' \<and> c \<noteq> CHR ''=''"
proof -
  assume "c \<in> set (quote_plus s)"
  then obtain n where "n \<in> set (utf8 s)" "c \<in> set (quote_byte n)" by (auto simp: quote_plus_def)
  then have "url_safe c \<or> c = CHR ''+'' \<or> c = CHR ''%''" using quote_byte_chars utf8_bytes by blast
  then show ?thesis using url_safe_not by auto
qed

lemma decode_form_field: "decode_field (form_field p) = Some p"
proof -
  have "CHR ''='' \<notin> set (quote_plus (fst p))" "CHR ''='' \<notin> set (quote_plus (snd p))"
    using quote_plus_chars by blast+
  then have "split_max (CHR ''='') (Suc 0) (form_field p) = [quote_plus (fst p), quote_plus (snd p)]"
    unfolding form_field_def append_Cons append_Nil by (subst split_max_append_sep) simp_all
  then show ?thesis by (simp add: decode_field_def unquote_quote_plus)
qed

lemma form_field_no_amp: "CHR ''&'' \<notin> set (form_field p)"
  using quote_plus_chars by (auto simp: form_field_def)

lemma split_max_join:
  "xs \<noteq> [] \<Longrightarrow> \<forall>x \<in> set xs. c \<notin> set x \<Longrightarrow> length xs \<le> Suc n \<Longrightarrow> split_max c n (py_join [c] xs) = xs"
proof (induction xs arbitrary: n rule: induct_list012)
  case (2 x)
  then show ?case by (simp add: split_max_no_sep)
next
  case (3 x y zs)
  then obtain m where n: "n = Suc m" by (cases n) auto
  with 3 have "split_max c m (py_join [c] (y # zs)) = y # zs" by simp
  with 3(4) n show ?case by (simp add: split_max_append_sep del: split_max.simps)
qed simp

lemma length_py_join: "length xs \<le> Suc (length (py_join [c] xs))"
  by (induction xs rule: induct_list012) auto

lemma py_split_join: "xs \<noteq> [] \<Longrightarrow> \<forall>x \<in> set xs. c \<notin> set x \<Longrightarrow> py_split c (py_join [c] xs) = xs"
  unfolding py_split_def by (rule split_max_join) (simp_all add: length_py_join)

lemma decode_all_fields: "decode_all (map form_field ps) = Some ps"
  by (induction ps) (simp_all add: decode_form_field)

lemma decode_encode_fields: "ps \<noteq> [] \<Longrightarrow> decode_fields (encode_fields ps) = Some ps"
  by (simp add: decode_fields_def encode_fields_def py_split_join form_field_no_amp decode_all_fields)

interpretation form_text: codec encode_fields decode_fields "\<lambda>ps. ps \<noteq> []"
  by unfold_locales (rule decode_encode_fields)

section \<open>The host part of an endpoint\<close>

definition is_alpha :: "char \<Rightarrow> bool" where
  "is_alpha c \<longleftrightarrow> (let n = (of_char c :: nat) in (65 \<le> n \<and> n \<le> 90) \<or> (97 \<le> n \<and> n \<le> 122))"

definition scheme_char :: "char \<Rightarrow> bool" where
  "scheme_char c \<longleftrightarrow> is_alpha c \<or> is_digit c \<or> c = CHR ''+'' \<or> c = CHR ''-'' \<or> c = CHR ''.''"

text \<open>
  \<open>urlparse(url).netloc\<close>: leading control characters and blanks and every tab or line break go, then a
  scheme, then the text between a leading \<open>//\<close> and the next slash, question mark or hash; an unbalanced
  bracket there raises. (The check of a bracketed address against the IPv6 grammar is not modelled.)
\<close>

definition url_clean :: "string \<Rightarrow> string" where
  "url_clean u =
     filter (\<lambda>c. c \<noteq> CHR 0x09 \<and> c \<noteq> CHR 0x0D \<and> c \<noteq> newline) (dropWhile (\<lambda>c. (of_char c :: nat) \<le> 32) u)"

definition after_scheme :: "string \<Rightarrow> string" where
  "after_scheme u =
     (let s = takeWhile (\<lambda>c. c \<noteq> CHR '':'') u
      in if s \<noteq> [] \<and> s \<noteq> u \<and> is_alpha (hd s) \<and> list_all scheme_char s then drop (Suc (length s)) u
         else u)"

definition netloc :: "string \<Rightarrow> string res" where
  "netloc url =
     (let r = after_scheme (url_clean url)
      in if prefix ''//'' r then
           (let n = takeWhile (\<lambda>c. c \<noteq> CHR ''/'' \<and> c \<noteq> CHR ''?'' \<and> c \<noteq> CHR ''#'') (drop 2 r)
            in if (CHR ''['' \<in> set n) \<noteq> (CHR '']'' \<in> set n) then throw ValueError ''Invalid IPv6 URL''
               else Inr n)
         else Inr [])"

text \<open>\<open>urlparse(endpoint).netloc or endpoint\<close>.\<close>

definition endpoint_host :: "string \<Rightarrow> string res" where
  "endpoint_host endpoint = res_bind (netloc endpoint) (\<lambda>n. Inr (if n = [] then endpoint else n))"

section \<open>One request\<close>

text \<open>
  The request a client builds: the ticket cookie always, the content type with a form, the CSRF token on
  a write once there is one.
\<close>

definition pve_http_request ::
  "bool \<Rightarrow> string \<Rightarrow> string \<Rightarrow> json \<Rightarrow> json \<Rightarrow> (string, json) dict option \<Rightarrow> http_request" where
  "pve_http_request insecure url meth ticket csrf form =
     (let h0 = [(''Cookie'', ''PVEAuthCookie='' @ py_str ticket)];
          h1 = (case form of None \<Rightarrow> h0
                | Some _ \<Rightarrow> dset ''Content-Type'' ''application/x-www-form-urlencoded'' h0);
          h2 = (if meth \<in> {''POST'', ''PUT'', ''DELETE''} \<and> truthy csrf
                then dset ''CSRFPreventionToken'' (py_str csrf) h1 else h1)
      in \<lparr>req_method = meth, req_url = url, req_data = map_option urlencode form, req_headers = h2,
          req_insecure = insecure\<rparr>)"

text \<open>
  The response as \<open>(status, payload)\<close>. A body that is not JSON raises on success; with an HTTP error it
  becomes a message of its first 400 characters.
\<close>

fun decode_outcome :: "http_outcome \<Rightarrow> (int \<times> json) res" where
  "decode_outcome (HttpOk st body) =
     (if body = [] then Inr (st, JObj []) else res_bind (json_loads body) (\<lambda>v. Inr (st, v)))"
| "decode_outcome (HttpError st body) =
     (case json_loads body of
        Inr v \<Rightarrow> Inr (st, v)
      | Inl _ \<Rightarrow> Inr (st, JObj [(''message'', JStr (take 400 body))]))"
| "decode_outcome (HttpFail e) = Inl e"

definition send_request :: "'w platform \<Rightarrow> http_request \<Rightarrow> ('w, int \<times> json) io" where
  "send_request P req = io_bind (urlopen P req) (\<lambda>out. lift (decode_outcome out))"

text \<open>\<open>payload.get("data") or {} if isinstance(payload, dict) else {}\<close>.\<close>

definition payload_data_or_empty :: "json \<Rightarrow> json res" where
  "payload_data_or_empty payload =
     (if is_obj payload then res_bind (jget payload ''data'' JNull) (\<lambda>d. Inr (jor d (JObj [])))
      else Inr (JObj []))"

text \<open>\<open>payload.get("data") if isinstance(payload, dict) else payload\<close>.\<close>

definition payload_entries :: "json \<Rightarrow> json \<Rightarrow> json" where
  "payload_entries payload dflt =
     (if is_obj payload then dget_or (members payload) ''data'' dflt else payload)"

lemma spec_send_request:
  "spec (send_request P req) (\<lambda>es r. \<exists>out. es = [EHttp req out] \<and> r = decode_outcome out)"
  unfolding send_request_def
proof (rule spec_bind [OF spec_urlopen], goal_cases)
  case (1 es e)
  then obtain out where "es = [EHttp req out]" "Inl e = (case out of HttpFail e \<Rightarrow> Inl e | _ \<Rightarrow> Inr out)"
    by blast
  then show ?case by (cases out) auto
next
  case (2 es x)
  then obtain out where "es = [EHttp req out]" "Inr x = (case out of HttpFail e \<Rightarrow> Inl e | _ \<Rightarrow> Inr out)"
    by blast
  then have "es = [EHttp req x]" by (cases out) auto
  then show ?case by (auto intro: spec_intros)
qed

text \<open>Code that starts with a request: one event, then the rest on the decoded outcome.\<close>

lemma spec_send_bind:
  assumes "\<And>out e. decode_outcome out = Inl e \<Longrightarrow> Q [EHttp req out] (Inl e)"
    and "\<And>out x. decode_outcome out = Inr x \<Longrightarrow> spec (k x) (\<lambda>es r. Q (EHttp req out # es) r)"
  shows "spec (io_bind (send_request P req) k) Q"
  by (rule spec_bind [OF spec_send_request]) (use assms in auto)

lemma only_send_request [only_intros]: "(\<And>out. Q (EHttp req out)) \<Longrightarrow> only Q (send_request P req)"
  unfolding send_request_def by (intro only_intros)

text \<open>The fields of a built request that the effect properties look at.\<close>

lemma pve_http_request_fields [simp]:
  "req_method (pve_http_request i u m t c f) = m"
  "req_url (pve_http_request i u m t c f) = u"
  "req_data (pve_http_request i u m t c f) = map_option urlencode f"
  by (simp_all add: pve_http_request_def Let_def)

text \<open>
  A read: a \<open>GET\<close>, or the \<open>POST\<close> that only acquires a ticket. Everything else may change the cluster.
\<close>

definition is_read :: "event \<Rightarrow> bool" where
  "is_read e \<longleftrightarrow>
     (case e of
        EHttp r _ \<Rightarrow> req_method r = ''GET'' \<or> (req_method r = ''POST'' \<and> suffix ''/access/ticket'' (req_url r))
      | EPrint _ _ \<Rightarrow> True
      | ESleep _ \<Rightarrow> True
      | _ \<Rightarrow> False)"

lemma is_read_get [simp]: "is_read (EHttp (pve_http_request i u ''GET'' t c f) out)"
  by (simp add: is_read_def)

lemma is_read_ticket [simp]: "is_read (EHttp (pve_http_request i (b @ ''/access/ticket'') ''POST'' t c f) out)"
  by (simp add: is_read_def suffix_def)

lemma is_read_print [simp]: "is_read (EPrint b s)" "is_read (ESleep n)"
  by (simp_all add: is_read_def)

lemma is_read_not_write: "is_read e \<Longrightarrow> not_write e"
  by (cases e) (auto simp: is_read_def not_write_def)

end
