(* ===== verification/Scripted.thy ===== *)
theory Scripted
  imports Pve_Api
begin

text \<open>
  A concrete platform for the witnesses: an HTTP service that answers every request with status 200 and a
  JSON value, an SSH client that asks for a password and then prints a given text, and no other effect.
\<close>

definition scripted :: "(http_request \<Rightarrow> json) \<Rightarrow> string \<Rightarrow> bool \<Rightarrow> unit platform" where
  "scripted reply out dry =
     \<lparr>p_urlopen = \<lambda>r x. (HttpOk 200 (json_dumps None (reply r)), x), p_pexpect = True,
      p_spawn = \<lambda>argv t x. (Inr (), x),
      p_expect = \<lambda>ps x. (if Pat ''assword:'' \<in> set ps then (Matched 0 (Some []), x)
                         else (Matched 1 (Some out), x)),
      p_sendline = \<lambda>s x. (Inr (), x), p_close = \<lambda>x. (Inr (), x), p_exitstatus = \<lambda>x. Some 0,
      p_time = \<lambda>x. 0, p_sleep = \<lambda>n x. x, p_environ = \<lambda>k. None, p_expanduser = \<lambda>p. p,
      p_write_error = \<lambda>p. None, p_dry_run = dry,
      p_run = \<lambda>r x. (Inr \<lparr>pr_returncode = 0, pr_stdout = [], pr_stderr = []\<rparr>, x), p_which = \<lambda>n. None,
      p_token_urlsafe = \<lambda>n x. (''token'', x), p_repo_root = ''/repo'',
      p_popen = \<lambda>r x. (Inr (), x), p_new_session = \<lambda>x. (0, x),
      p_web = \<lambda>c r x. (Inl (Exn OSError []), x), p_html5 = \<lambda>n. None\<rparr>"

definition blank :: "unit world" where
  "blank = \<lparr>ext = (), files = \<lambda>p. None, trace = []\<rparr>"

lemma blank_simps [simp]: "trace blank = []" "files blank = (\<lambda>p. None)"
  by (simp_all add: blank_def)

lemma json_dumps_not_Nil: "json_ok v \<Longrightarrow> json_dumps ind v \<noteq> []"
  using json_dump_head [of v ind 0] by (auto simp: json_dumps_def)

lemma scripted_send [simp]:
  "json_ok (reply r) \<Longrightarrow> send_request (scripted reply out dry) r w =
     (Inr (200, reply r), emit (EHttp r (HttpOk 200 (json_dumps None (reply r)))) w)"
  by (simp add: send_request_def io_bind_def urlopen_def scripted_def lift_def json_dumps_not_Nil emit_def)

lemma io_run_eqs:
  "ret x w = (Inr x, w)" "raise e w = (Inl e, w)" "lift v w = (v, w)"
  by (simp_all add: ret_def raise_def lift_def)

text \<open>Running code on a concrete world, step by step.\<close>

lemmas io_eval = io_bind_def io_then_def io_except_def io_finally_def catches_def io_run_eqs
  print_line_def print_err_def file_exists_def read_file_def mkdir_parents_def write_file_def
  import_pexpect_def spawn_def expect_def sendline_def close_child_def exitstatus_def emit_def

end
