(* ===== verification/Placement.thy ===== *)
theory Placement
  imports Scripted
begin

text \<open>
  \<open>infra/pulumi/modules/placement.py\<close>: the committed placement record, the read-only usage client, the
  best-fit planner and \<open>plan_placement\<close>, which puts them together. The planner's lemmas are about the
  plan it returns: what a node is chosen from, that a node with a fresh VM is never over its
  reported headroom, that every fresh choice is the best fit at its point of the plan, and when
  planning fails.
\<close>

section \<open>Data\<close>

record node_capacity =
  cap_name :: string
  free_ram_bytes :: int
  free_disk_bytes :: int

record placement_request =
  rq_key :: string
  ram_bytes :: int
  disk_bytes :: int

record placement_record =
  rec_path :: string
  placements :: "(string, string) dict"

section \<open>The record file\<close>

definition record_of_json :: "string \<Rightarrow> json \<Rightarrow> placement_record res" where
  "record_of_json path raw =
     (if \<not> is_obj raw
      then throw RuntimeError (''placement record '' @ path @ '' is not a JSON object'')
      else Inr \<lparr>rec_path = path, placements = dict_of (map (\<lambda>(k, v). (k, py_str v)) (members raw))\<rparr>)"

definition load_record :: "string \<Rightarrow> ('w, placement_record) io" where
  "load_record path =
     io_bind (file_exists path) (\<lambda>present.
     if \<not> present then ret \<lparr>rec_path = path, placements = []\<rparr>
     else
       io_bind
         (io_except [OSError, JSONDecodeError]
           (io_bind (read_file path) (\<lambda>text. lift (json_loads text)))
           (\<lambda>exc. raise (Exn RuntimeError
              (''placement record '' @ path @ '' is unreadable ('' @ exn_msg exc @
               ''); fix or delete it before running''))))
         (\<lambda>raw. lift (record_of_json path raw)))"

definition record_text :: "(string, string) dict \<Rightarrow> string" where
  "record_text ps =
     json_dumps (Some 2) (JObj (map (\<lambda>k. (k, JStr (dget_or ps k []))) (sort (dkeys ps)))) @ [newline]"

definition save_record :: "'w platform \<Rightarrow> placement_record \<Rightarrow> ('w, unit) io" where
  "save_record P r =
     io_then (mkdir_parents (rec_path r)) (write_file P (rec_path r) (record_text (placements r)))"

section \<open>The usage client\<close>

record usage_client =
  uc_base :: string
  uc_username :: string
  uc_password :: string
  uc_insecure :: bool
  uc_ticket :: json
  uc_csrf :: json

definition usage_client_init :: "string \<Rightarrow> string \<Rightarrow> string \<Rightarrow> bool \<Rightarrow> usage_client res" where
  "usage_client_init endpoint username password insecure =
     res_bind (endpoint_host endpoint) (\<lambda>host.
     Inr \<lparr>uc_base = ''https://'' @ host @ ''/api2/json'', uc_username = username,
          uc_password = password, uc_insecure = insecure, uc_ticket = JStr [], uc_csrf = JStr []\<rparr>)"

definition usage_request ::
  "'w platform \<Rightarrow> usage_client \<Rightarrow> string \<Rightarrow> string \<Rightarrow> (string, json) dict option \<Rightarrow> ('w, int \<times> json) io" where
  "usage_request P c meth path form =
     send_request P
       (pve_http_request (uc_insecure c) (uc_base c @ path) meth (uc_ticket c) (uc_csrf c) form)"

text \<open>The ticket form that every client of the program posts.\<close>

definition ticket_form :: "string \<Rightarrow> string \<Rightarrow> (string, json) dict" where
  "ticket_form username password =
     [(''new-format'', JInt 1), (''username'', JStr username), (''password'', JStr password)]"

definition usage_auth :: "'w platform \<Rightarrow> usage_client \<Rightarrow> ('w, usage_client) io" where
  "usage_auth P c =
     io_bind (usage_request P c ''POST'' ''/access/ticket'' (Some (ticket_form (uc_username c) (uc_password c))))
       (\<lambda>(status, payload).
     io_bind (lift (payload_data_or_empty payload)) (\<lambda>data.
     io_bind (lift (jget data ''ticket'' (JStr []))) (\<lambda>ticket.
     io_bind (lift (jget data ''CSRFPreventionToken'' (JStr []))) (\<lambda>csrf.
     if status \<noteq> 200 \<or> \<not> truthy ticket
     then raise (Exn RuntimeError
            (''PVE usage query auth failed ('' @ int_str status @ ''): '' @ py_str payload))
     else ret (c\<lparr>uc_ticket := ticket, uc_csrf := csrf\<rparr>)))))"

text \<open>Node names and addresses are strings in the API; another value used as one is a type error.\<close>

definition jstr :: "json \<Rightarrow> string res" where
  "jstr v = (case v of JStr s \<Rightarrow> Inr s | _ \<Rightarrow> throw TypeError ''str expected'')"

definition cluster_entries :: "'w platform \<Rightarrow> usage_client \<Rightarrow> ('w, json list) io" where
  "cluster_entries P c =
     io_bind (usage_request P c ''GET'' ''/cluster/status'' None) (\<lambda>(status, payload).
     if status \<noteq> 200
     then raise (Exn RuntimeError
            (''cluster/status failed ('' @ int_str status @ ''): '' @ py_str payload))
     else lift (jiter (jor (payload_entries payload JNull) (JList []))))"

definition add_node_ip :: "json \<Rightarrow> (string, string) dict \<Rightarrow> (string, string) dict res" where
  "add_node_ip entry ips =
     (if is_obj entry \<and> jeq (dget_or (members entry) ''type'' JNull) (JStr ''node'') then
        (let name = dget_or (members entry) ''name'' (JStr []);
             ip = dget_or (members entry) ''ip'' (JStr [])
         in if truthy name \<and> truthy ip
            then res_bind (jstr name) (\<lambda>n. res_bind (jstr ip) (\<lambda>i. Inr (dset n i ips)))
            else Inr ips)
      else Inr ips)"

definition node_ips :: "'w platform \<Rightarrow> usage_client \<Rightarrow> ('w, usage_client \<times> (string, string) dict) io" where
  "node_ips P c =
     io_bind (usage_auth P c) (\<lambda>c.
     io_bind (cluster_entries P c) (\<lambda>entries.
     io_bind (lift (res_fold add_node_ip entries [])) (\<lambda>ips. ret (c, ips))))"

definition add_online :: "json \<Rightarrow> string list \<Rightarrow> string list res" where
  "add_online entry nodes =
     (if is_obj entry \<and> jeq (dget_or (members entry) ''type'' JNull) (JStr ''node'')
         \<and> truthy (dget_or (members entry) ''online'' JNull)
      then res_bind (ditem (members entry) ''name'') (\<lambda>v. res_bind (jstr v) (\<lambda>n. Inr (nodes @ [n])))
      else Inr nodes)"

definition online_nodes :: "'w platform \<Rightarrow> usage_client \<Rightarrow> ('w, usage_client \<times> string list) io" where
  "online_nodes P c =
     io_bind (usage_auth P c) (\<lambda>c.
     io_bind (cluster_entries P c) (\<lambda>entries.
     io_bind (lift (res_fold add_online entries [])) (\<lambda>nodes. ret (c, sort nodes))))"

definition free_ram_of :: "json \<Rightarrow> int res" where
  "free_ram_of payload =
     res_bind (if is_obj payload
               then res_bind (payload_data_or_empty payload) (\<lambda>d. jget d ''memory'' (JObj []))
               else Inr (JObj [])) (\<lambda>memory.
     res_bind (jget memory ''available'' (JInt 0)) jint)"

text \<open>Only an active store that can hold images or container roots counts.\<close>

definition vm_store :: "json \<Rightarrow> bool" where
  "vm_store store \<longleftrightarrow>
     is_obj store \<and> truthy (dget_or (members store) ''active'' JNull) \<and>
     (let content = py_str (dget_or (members store) ''content'' (JStr []))
      in py_in ''images'' content \<or> py_in ''rootdir'' content)"

definition add_store :: "json \<Rightarrow> int \<Rightarrow> int res" where
  "add_store store free =
     (if vm_store store
      then res_bind (jint (dget_or (members store) ''avail'' (JInt 0))) (\<lambda>a. Inr (free + a))
      else Inr free)"

definition free_disk_of :: "json \<Rightarrow> int res" where
  "free_disk_of payload =
     res_bind (jiter (jor (payload_entries payload JNull) (JList []))) (\<lambda>stores.
     res_fold add_store stores 0)"

definition read_node_capacity :: "'w platform \<Rightarrow> usage_client \<Rightarrow> string \<Rightarrow> ('w, node_capacity) io" where
  "read_node_capacity P c node =
     io_bind (usage_request P c ''GET'' (''/nodes/'' @ node @ ''/status'') None) (\<lambda>(status, payload).
     if status \<noteq> 200
     then raise (Exn RuntimeError
            (node @ '' /status failed ('' @ int_str status @ ''): '' @ py_str payload))
     else
       io_bind (lift (free_ram_of payload)) (\<lambda>free_ram.
       io_bind (usage_request P c ''GET'' (''/nodes/'' @ node @ ''/storage'') None) (\<lambda>(status, payload).
       if status \<noteq> 200
       then raise (Exn RuntimeError
              (node @ '' /storage failed ('' @ int_str status @ ''): '' @ py_str payload))
       else
         io_bind (lift (free_disk_of payload)) (\<lambda>free_disk.
         ret \<lparr>cap_name = node, free_ram_bytes = free_ram, free_disk_bytes = free_disk\<rparr>))))"

section \<open>Best-fit planning\<close>

type_synonym capacities = "(string, node_capacity) dict"

record plan_state =
  choices :: "(string, string) dict"
  recorded :: "(string, string) dict"
  occupied_ram :: "(string, int) dict"
  occupied_disk :: "(string, int) dict"

definition plan_init :: "capacities \<Rightarrow> (string, string) dict \<Rightarrow> plan_state" where
  "plan_init caps record0 =
     \<lparr>choices = [], recorded = record0, occupied_ram = map (\<lambda>n. (n, 0)) (dkeys caps),
      occupied_disk = map (\<lambda>n. (n, 0)) (dkeys caps)\<rparr>"

text \<open>\<open>occupied_ram[node]\<close>: the dictionary has every node of \<open>capacities\<close> from the start.\<close>

definition used_ram :: "plan_state \<Rightarrow> string \<Rightarrow> int" where
  "used_ram st n = dget_or (occupied_ram st) n 0"

definition used_disk :: "plan_state \<Rightarrow> string \<Rightarrow> int" where
  "used_disk st n = dget_or (occupied_disk st) n 0"

definition assign_node :: "placement_request \<Rightarrow> string \<Rightarrow> plan_state \<Rightarrow> plan_state" where
  "assign_node req node st = st\<lparr>choices := dset (rq_key req) node (choices st)\<rparr>"

definition occupy :: "placement_request \<Rightarrow> string \<Rightarrow> plan_state \<Rightarrow> plan_state" where
  "occupy req node st =
     st\<lparr>occupied_ram := dset node (used_ram st node + ram_bytes req) (occupied_ram st),
        occupied_disk := dset node (used_disk st node + disk_bytes req) (occupied_disk st)\<rparr>"

text \<open>A pinned or recorded VM holds its footprint on its node, when that node is a candidate.\<close>

definition hold :: "placement_request \<Rightarrow> string \<Rightarrow> plan_state \<Rightarrow> plan_state" where
  "hold req node st =
     (let st' = assign_node req node st
      in if node \<in> set (dkeys (occupied_ram st')) then occupy req node st' else st')"

type_synonym candidate = "string \<times> int \<times> int"

definition candidates :: "capacities \<Rightarrow> placement_request \<Rightarrow> plan_state \<Rightarrow> candidate list" where
  "candidates caps req st =
     filter (\<lambda>(name, ram, disk). \<not> (ram < ram_bytes req \<or> disk < disk_bytes req))
       (map (\<lambda>(name, cap). (name, free_ram_bytes cap - used_ram st name,
                            free_disk_bytes cap - used_disk st name)) caps)"

definition fit_key :: "candidate \<Rightarrow> int \<times> int \<times> string" where
  "fit_key c = (- fst (snd c), - snd (snd c), fst c)"

definition no_feasible :: "placement_request \<Rightarrow> exn" where
  "no_feasible req = Exn RuntimeError
     (''no feasible node for VM '' @ [squote] @ rq_key req @ [squote] @ '': needs '' @
      int_str (ram_bytes req) @ ''B RAM / '' @ int_str (disk_bytes req) @
      ''B disk but no node has headroom; free a node or add capacity'')"

definition plan_step ::
  "capacities \<Rightarrow> (string, string) dict \<Rightarrow> placement_request \<Rightarrow> plan_state \<Rightarrow> plan_state res" where
  "plan_step caps overrides req st =
     (case dget overrides (rq_key req) of
        Some node \<Rightarrow> Inr (hold req node st)
      | None \<Rightarrow>
          (case dget (recorded st) (rq_key req) of
             Some node \<Rightarrow> Inr (hold req node st)
           | None \<Rightarrow>
               if candidates caps req st = [] then Inl (no_feasible req)
               else res_bind (py_min_by fit_key (candidates caps req st)) (\<lambda>c.
                 let chosen = fst c; st1 = assign_node req chosen st;
                     st2 = st1\<lparr>recorded := dset (rq_key req) chosen (recorded st1)\<rparr>
                 in Inr (occupy req chosen st2))))"

text \<open>
  \<open>_plan\<close>: the choices, and the record's placements with the fresh ones added (the source updates the
  record object in place).
\<close>

definition plan ::
  "placement_request list \<Rightarrow> capacities \<Rightarrow> (string, string) dict \<Rightarrow> (string, string) dict \<Rightarrow>
     ((string, string) dict \<times> (string, string) dict) res" where
  "plan requests caps record0 overrides =
     res_bind (res_fold (plan_step caps overrides) requests (plan_init caps record0)) (\<lambda>st.
     Inr (choices st, recorded st))"

section \<open>plan_placement\<close>

type_synonym footprints = "(string, int \<times> int) dict"

definition known_keys :: "footprints \<Rightarrow> (string, string) dict \<Rightarrow> (string, string) dict \<Rightarrow> string list" where
  "known_keys vms overrides record0 =
     sort (filter (\<lambda>k. k \<in> set (dkeys overrides) \<or> k \<in> set (dkeys record0)) (dkeys vms))"

definition fresh_keys :: "footprints \<Rightarrow> (string, string) dict \<Rightarrow> (string, string) dict \<Rightarrow> string list" where
  "fresh_keys vms overrides record0 =
     sort (filter (\<lambda>k. k \<notin> set (dkeys overrides) \<and> k \<notin> set (dkeys record0)) (dkeys vms))"

definition placement_request_of :: "footprints \<Rightarrow> string \<Rightarrow> placement_request" where
  "placement_request_of vms k =
     (let (ram, disk) = dget_or vms k (0, 0) in \<lparr>rq_key = k, ram_bytes = ram, disk_bytes = disk\<rparr>)"

definition placement_requests ::
  "footprints \<Rightarrow> (string, string) dict \<Rightarrow> (string, string) dict \<Rightarrow> placement_request list" where
  "placement_requests vms overrides record0 =
     map (placement_request_of vms) (known_keys vms overrides record0 @ fresh_keys vms overrides record0)"

definition decide_placement ::
  "footprints \<Rightarrow> capacities \<Rightarrow> (string, string) dict \<Rightarrow> (string, string) dict \<Rightarrow>
     ((string, string) dict \<times> (string, string) dict) res" where
  "decide_placement vms caps record0 overrides =
     plan (placement_requests vms overrides record0) caps record0 overrides"

definition candidate_nodes_of ::
  "'w platform \<Rightarrow> usage_client \<Rightarrow> string list option \<Rightarrow> ('w, usage_client \<times> string list) io" where
  "candidate_nodes_of P client candidate_nodes =
     (case candidate_nodes of
        Some (n # ns) \<Rightarrow> io_bind (usage_auth P client) (\<lambda>client. ret (client, n # ns))
      | _ \<Rightarrow> online_nodes P client)"

definition read_capacities :: "'w platform \<Rightarrow> usage_client \<Rightarrow> string list \<Rightarrow> ('w, capacities) io" where
  "read_capacities P client nodes =
     io_bind (io_map (\<lambda>n. io_bind (read_node_capacity P client n) (\<lambda>cap. ret (n, cap))) nodes)
       (\<lambda>caps. ret (dict_of caps))"

text \<open>Only a build that placed a VM afresh, and is not a preview, writes the record.\<close>

definition persist_record ::
  "'w platform \<Rightarrow> bool \<Rightarrow> string list \<Rightarrow> placement_record \<Rightarrow> ('w, unit) io" where
  "persist_record P persist fresh rec = (if persist \<and> fresh \<noteq> [] then save_record P rec else ret ())"

definition report_fresh :: "(string, string) dict \<Rightarrow> string list \<Rightarrow> ('w, unit) io" where
  "report_fresh ch fresh =
     io_then
       (io_map (\<lambda>k. io_bind (lift (ditem ch k)) (\<lambda>n.
          print_line (''[placement] '' @ k @ '' -> '' @ n @ '' (best fit)''))) fresh)
       (ret ())"

definition plan_placement ::
  "'w platform \<Rightarrow> string \<Rightarrow> string \<Rightarrow> string \<Rightarrow> bool \<Rightarrow> footprints \<Rightarrow> string \<Rightarrow>
     (string, string) dict option \<Rightarrow> string list option \<Rightarrow> bool \<Rightarrow> ('w, (string, string) dict) io" where
  "plan_placement P endpoint username password insecure vms path overrides0 candidate_nodes persist =
     (let overrides = (case overrides0 of None \<Rightarrow> [] | Some d \<Rightarrow> d) in
      io_bind (load_record path) (\<lambda>rec.
      io_bind (lift (usage_client_init endpoint username password insecure)) (\<lambda>client0.
      io_bind (candidate_nodes_of P client0 candidate_nodes) (\<lambda>(client, nodes).
      if nodes = []
      then raise (Exn RuntimeError ''no candidate PVE nodes available for placement'')
      else
        io_bind (read_capacities P client nodes) (\<lambda>caps.
        let fresh = fresh_keys vms overrides (placements rec) in
        io_bind (lift (decide_placement vms caps (placements rec) overrides)) (\<lambda>(ch, ps).
        io_then (persist_record P persist fresh (rec\<lparr>placements := ps\<rparr>))
          (io_then (report_fresh ch fresh) (ret ch))))))))"

section \<open>The planner's lemmas\<close>

text \<open>
  The footprint that the requests of a list put on a node under a map of choices, and the headroom that
  a node has left under it.
\<close>

definition load_on ::
  "(placement_request \<Rightarrow> int) \<Rightarrow> placement_request list \<Rightarrow> (string, string) dict \<Rightarrow> string \<Rightarrow> int" where
  "load_on f reqs ch n = sum_list (map f (filter (\<lambda>r. dget ch (rq_key r) = Some n) reqs))"

definition left_on ::
  "capacities \<Rightarrow> placement_request list \<Rightarrow> (string, string) dict \<Rightarrow> string \<Rightarrow> int \<times> int" where
  "left_on caps reqs ch n =
     (case dget caps n of
        None \<Rightarrow> (0, 0)
      | Some cap \<Rightarrow> (free_ram_bytes cap - load_on ram_bytes reqs ch n,
                     free_disk_bytes cap - load_on disk_bytes reqs ch n))"

definition feasible_on ::
  "capacities \<Rightarrow> placement_request list \<Rightarrow> (string, string) dict \<Rightarrow> placement_request \<Rightarrow> string \<Rightarrow> bool" where
  "feasible_on caps reqs ch r n \<longleftrightarrow>
     n \<in> set (dkeys caps) \<and> ram_bytes r \<le> fst (left_on caps reqs ch n) \<and>
     disk_bytes r \<le> snd (left_on caps reqs ch n)"

text \<open>More free RAM, then more free disk, then the smaller name.\<close>

definition fits_better :: "int \<times> int \<Rightarrow> string \<Rightarrow> int \<times> int \<Rightarrow> string \<Rightarrow> bool" where
  "fits_better a n b m \<longleftrightarrow>
     fst b < fst a \<or> (fst b = fst a \<and> (snd b < snd a \<or> (snd b = snd a \<and> n \<le> m)))"

lemma load_on_Nil [simp]: "load_on f [] ch n = 0"
  by (simp add: load_on_def)

lemma load_on_append: "load_on f (xs @ ys) ch n = load_on f xs ch n + load_on f ys ch n"
  by (simp add: load_on_def)

lemma load_on_single: "load_on f [r] ch n = (if dget ch (rq_key r) = Some n then f r else 0)"
  by (simp add: load_on_def)

lemma load_on_cong:
  "(\<And>r. r \<in> set reqs \<Longrightarrow> dget ch (rq_key r) = dget ch' (rq_key r)) \<Longrightarrow> load_on f reqs ch n = load_on f reqs ch' n"
  unfolding load_on_def by (metis (mono_tags, lifting) filter_cong)

lemma load_on_none: "(\<And>r. r \<in> set reqs \<Longrightarrow> dget ch (rq_key r) \<noteq> Some n) \<Longrightarrow> load_on f reqs ch n = 0"
  by (simp add: load_on_def)

lemma load_on_assign:
  "rq_key r \<notin> rq_key ` set reqs \<Longrightarrow>
     load_on f (reqs @ [r]) (dset (rq_key r) m ch) n = load_on f reqs ch n + (if n = m then f r else 0)"
proof -
  assume "rq_key r \<notin> rq_key ` set reqs"
  then have "load_on f reqs (dset (rq_key r) m ch) n = load_on f reqs ch n"
    by (intro load_on_cong) (auto simp: image_iff)
  then show ?thesis by (simp add: load_on_append load_on_single)
qed

text \<open>A choice of a node for a request, in a state of the plan.\<close>

definition best_fit :: "capacities \<Rightarrow> placement_request \<Rightarrow> plan_state \<Rightarrow> string \<Rightarrow> bool" where
  "best_fit caps req st n \<longleftrightarrow>
     (\<exists>c \<in> set (candidates caps req st). fst c = n \<and>
        (\<forall>d \<in> set (candidates caps req st). fit_key c \<le> fit_key d))"

definition fresh_in :: "(string, string) dict \<Rightarrow> (string, string) dict \<Rightarrow> placement_request \<Rightarrow> bool" where
  "fresh_in overrides record0 r \<longleftrightarrow> dget overrides (rq_key r) = None \<and> dget record0 (rq_key r) = None"

definition step_choice ::
  "capacities \<Rightarrow> (string, string) dict \<Rightarrow> placement_request \<Rightarrow> plan_state \<Rightarrow> string \<Rightarrow> bool" where
  "step_choice caps overrides r st n \<longleftrightarrow>
     (case dget overrides (rq_key r) of
        Some m \<Rightarrow> n = m
      | None \<Rightarrow> (case dget (recorded st) (rq_key r) of Some m \<Rightarrow> n = m | None \<Rightarrow> best_fit caps r st n))"

lemma candidate_in_caps: "c \<in> set (candidates caps r st) \<Longrightarrow> fst c \<in> set (dkeys caps)"
  by (force simp: candidates_def dkeys_def)

lemma used_assign [simp]:
  "used_ram (assign_node r n st) = used_ram st" "used_disk (assign_node r n st) = used_disk st"
  by (simp_all add: fun_eq_iff used_ram_def used_disk_def assign_node_def)

text \<open>One step, whatever branch it takes.\<close>

lemma plan_step_Inr:
  assumes step: "plan_step caps overrides r st = Inr st'"
    and keys: "dkeys (occupied_ram st) = dkeys caps" "dkeys (occupied_disk st) = dkeys caps"
  obtains n where
    "step_choice caps overrides r st n"
    "choices st' = dset (rq_key r) n (choices st)"
    "recorded st' = (if fresh_in overrides (recorded st) r then dset (rq_key r) n (recorded st) else recorded st)"
    "dkeys (occupied_ram st') = dkeys caps" "dkeys (occupied_disk st') = dkeys caps"
    "\<And>m. m \<in> set (dkeys caps) \<Longrightarrow> used_ram st' m = used_ram st m + (if m = n then ram_bytes r else 0)"
    "\<And>m. m \<in> set (dkeys caps) \<Longrightarrow> used_disk st' m = used_disk st m + (if m = n then disk_bytes r else 0)"
proof -
  note result = that
  have hold: thesis
    if n: "step_choice caps overrides r st n" "\<not> fresh_in overrides (recorded st) r" and st': "st' = hold r n st"
    for n
    by (rule result [of n])
      (use n keys in \<open>auto simp: st' hold_def Let_def assign_node_def occupy_def used_ram_def used_disk_def
         dget_or_def pydict.keys_assign\<close>)
  show thesis
  proof (cases "dget overrides (rq_key r)")
    case (Some n)
    then show thesis using step by (intro hold [of n]) (auto simp: plan_step_def step_choice_def fresh_in_def)
  next
    case None
    show thesis
    proof (cases "dget (recorded st) (rq_key r)")
      case (Some n)
      then show thesis using step None
        by (intro hold [of n]) (auto simp: plan_step_def step_choice_def fresh_in_def)
    next
      case fresh: None
      from step None fresh obtain c where
        c: "py_min_by fit_key (candidates caps r st) = Inr c" and
        st': "st' = occupy r (fst c) ((assign_node r (fst c) st)
          \<lparr>recorded := dset (rq_key r) (fst c) (recorded (assign_node r (fst c) st))\<rparr>)"
        by (auto simp: plan_step_def Let_def split: if_splits)
      have best: "best_fit caps r st (fst c)"
        using py_min_by_Inr [OF c] by (auto simp: best_fit_def)
      have mem: "fst c \<in> set (dkeys caps)"
        using py_min_by_Inr(1) [OF c] by (rule candidate_in_caps)
      show thesis
        by (rule result [of "fst c"])
          (use None fresh best mem keys in \<open>auto simp: st' step_choice_def fresh_in_def assign_node_def occupy_def
            used_ram_def used_disk_def dget_or_def pydict.keys_assign\<close>)
    qed
  qed
qed

text \<open>The state after a prefix of the requests.\<close>

definition plan_inv ::
  "capacities \<Rightarrow> (string, string) dict \<Rightarrow> (string, string) dict \<Rightarrow> placement_request list \<Rightarrow> plan_state \<Rightarrow> bool" where
  "plan_inv caps overrides record0 pre st \<longleftrightarrow>
     dkeys (choices st) = map rq_key pre \<and>
     dkeys (occupied_ram st) = dkeys caps \<and> dkeys (occupied_disk st) = dkeys caps \<and>
     (\<forall>n \<in> set (dkeys caps). used_ram st n = load_on ram_bytes pre (choices st) n
                          \<and> used_disk st n = load_on disk_bytes pre (choices st) n) \<and>
     (\<forall>k. dget (recorded st) k =
        (if \<exists>r \<in> set pre. rq_key r = k \<and> fresh_in overrides record0 r
         then dget (choices st) k else dget record0 k))"

abbreviation plan_run where
  "plan_run caps overrides record0 reqs \<equiv>
     res_fold (plan_step caps overrides) reqs (plan_init caps record0)"

lemma plan_inv_init: "plan_inv caps overrides record0 [] (plan_init caps record0)"
  by (auto simp: plan_inv_def plan_init_def used_ram_def used_disk_def dget_or_def dget_def dkeys_def
      map_of_eq_None_iff dest: map_of_SomeD split: option.splits)

lemma plan_run_snoc:
  "plan_run caps ov rc (pre @ [r]) = Inr st' \<longleftrightarrow>
     (\<exists>st. plan_run caps ov rc pre = Inr st \<and> plan_step caps ov r st = Inr st')"
  by (simp add: res_fold_append)

lemma plan_inv_step:
  assumes inv: "plan_inv caps ov rc pre st" and new: "rq_key r \<notin> rq_key ` set pre"
    and step: "plan_step caps ov r st = Inr st'"
  shows "plan_inv caps ov rc (pre @ [r]) st'"
proof -
  from inv have keys: "dkeys (occupied_ram st) = dkeys caps" "dkeys (occupied_disk st) = dkeys caps"
    and ck: "dkeys (choices st) = map rq_key pre"
    by (simp_all add: plan_inv_def)
  from new ck have fr: "rq_key r \<notin> set (dkeys (choices st))" by simp
  have rec_r: "dget (recorded st) (rq_key r) = dget rc (rq_key r)"
    using inv new by (auto simp: plan_inv_def image_iff)
  then have same: "fresh_in ov (recorded st) r = fresh_in ov rc r" by (simp add: fresh_in_def)
  from plan_step_Inr [OF step keys] obtain n where n:
    "choices st' = dset (rq_key r) n (choices st)"
    "recorded st' = (if fresh_in ov (recorded st) r then dset (rq_key r) n (recorded st) else recorded st)"
    "dkeys (occupied_ram st') = dkeys caps" "dkeys (occupied_disk st') = dkeys caps"
    "\<And>m. m \<in> set (dkeys caps) \<Longrightarrow> used_ram st' m = used_ram st m + (if m = n then ram_bytes r else 0)"
    "\<And>m. m \<in> set (dkeys caps) \<Longrightarrow> used_disk st' m = used_disk st m + (if m = n then disk_bytes r else 0)"
    by metis
  have "dkeys (choices st') = map rq_key (pre @ [r])"
    using n(1) ck fr by (simp add: pydict.keys_assign)
  moreover have "used_ram st' m = load_on ram_bytes (pre @ [r]) (choices st') m
      \<and> used_disk st' m = load_on disk_bytes (pre @ [r]) (choices st') m" if "m \<in> set (dkeys caps)" for m
    using that inv n(1) n(5,6) [OF that] by (simp add: load_on_assign [OF new] plan_inv_def)
  moreover have "dget (recorded st') k =
      (if \<exists>q \<in> set (pre @ [r]). rq_key q = k \<and> fresh_in ov rc q then dget (choices st') k else dget rc k)" for k
  proof (cases "k = rq_key r")
    case True
    with new inv n(1,2) same rec_r show ?thesis by (auto simp: plan_inv_def image_iff)
  next
    case False
    with new inv n(1,2) same show ?thesis by (auto simp: plan_inv_def)
  qed
  ultimately show ?thesis using n(3,4) by (simp add: plan_inv_def)
qed

lemma plan_inv_run:
  "plan_run caps ov rc pre = Inr st \<Longrightarrow> distinct (map rq_key pre) \<Longrightarrow> plan_inv caps ov rc pre st"
proof (induction pre arbitrary: st rule: rev_induct)
  case Nil
  then show ?case by (auto simp: plan_inv_init)
next
  case (snoc r pre)
  from snoc.prems(1) obtain st0 where
    st0: "plan_run caps ov rc pre = Inr st0" "plan_step caps ov r st0 = Inr st"
    unfolding plan_run_snoc by blast
  with snoc show ?case by (intro plan_inv_step [where st = st0]) auto
qed

text \<open>Later steps leave the choices made so far alone.\<close>

lemma plan_keep:
  "res_fold (plan_step caps ov) post st = Inr st' \<Longrightarrow> k \<notin> rq_key ` set post \<Longrightarrow>
     dkeys (occupied_ram st) = dkeys caps \<Longrightarrow> dkeys (occupied_disk st) = dkeys caps \<Longrightarrow>
     dget (choices st') k = dget (choices st) k"
proof (induction post arbitrary: st)
  case (Cons r post)
  from Cons.prems(1) obtain st1 where
    s1: "plan_step caps ov r st = Inr st1" and rest: "res_fold (plan_step caps ov) post st1 = Inr st'"
    by auto
  from plan_step_Inr [OF s1 Cons.prems(3,4)] obtain n where n:
    "choices st1 = dset (rq_key r) n (choices st)"
    "dkeys (occupied_ram st1) = dkeys caps" "dkeys (occupied_disk st1) = dkeys caps"
    by metis
  from Cons.IH [OF rest _ n(2,3)] Cons.prems(2) n(1) show ?case by simp
qed simp

text \<open>What a successful plan says of one of its requests.\<close>

lemma plan_at:
  assumes plan: "plan (pre @ r # post) caps rc ov = Inr (ch, ps)"
    and dist: "distinct (map rq_key (pre @ r # post))"
  obtains st n where "plan_inv caps ov rc pre st" "step_choice caps ov r st n"
    "dget ch (rq_key r) = Some n"
    "\<And>q. q \<in> set pre \<Longrightarrow> dget ch (rq_key q) = dget (choices st) (rq_key q)"
proof -
  from plan obtain st st1 st' where run: "plan_run caps ov rc pre = Inr st"
    and step: "plan_step caps ov r st = Inr st1"
    and rest: "res_fold (plan_step caps ov) post st1 = Inr st'" and ch: "ch = choices st'"
    by (auto simp: plan_def res_fold_append)
  have inv: "plan_inv caps ov rc pre st" using run dist by (intro plan_inv_run) auto
  then have keys: "dkeys (occupied_ram st) = dkeys caps" "dkeys (occupied_disk st) = dkeys caps"
    by (simp_all add: plan_inv_def)
  from plan_step_Inr [OF step keys] obtain n where n: "step_choice caps ov r st n"
    "choices st1 = dset (rq_key r) n (choices st)"
    "dkeys (occupied_ram st1) = dkeys caps" "dkeys (occupied_disk st1) = dkeys caps"
    by metis
  have keep: "dget ch k = dget (choices st1) k" if "k \<notin> rq_key ` set post" for k
    using plan_keep [OF rest that n(3,4)] ch by simp
  have "dget ch (rq_key r) = Some n" using keep [of "rq_key r"] dist n(2) by auto
  moreover have "dget ch (rq_key q) = dget (choices st) (rq_key q)" if "q \<in> set pre" for q
  proof -
    have "rq_key q \<notin> rq_key ` set post" "rq_key q \<noteq> rq_key r" using dist that by (auto simp: image_iff)
    with keep [of "rq_key q"] n(2) show ?thesis by simp
  qed
  ultimately show thesis using that inv n(1) by blast
qed

lemma plan_keys: "plan reqs caps rc ov = Inr (ch, ps) \<Longrightarrow> distinct (map rq_key reqs) \<Longrightarrow> dkeys ch = map rq_key reqs"
  using plan_inv_run by (fastforce simp: plan_def plan_inv_def)

lemma plan_recorded:
  "plan reqs caps rc ov = Inr (ch, ps) \<Longrightarrow> distinct (map rq_key reqs) \<Longrightarrow>
     dget ps k = (if \<exists>r \<in> set reqs. rq_key r = k \<and> fresh_in ov rc r then dget ch k else dget rc k)"
  using plan_inv_run by (fastforce simp: plan_def plan_inv_def)

text \<open>The candidates of a state are the feasible nodes, with what they have left.\<close>

lemma candidates_inv:
  assumes inv: "plan_inv caps ov rc pre st" and wf: "dict_wf caps"
  shows "c \<in> set (candidates caps r st) \<longleftrightarrow>
     feasible_on caps pre (choices st) r (fst c) \<and> snd c = left_on caps pre (choices st) (fst c)"
proof -
  obtain n ram disk where c: "c = (n, ram, disk)" by (cases c)
  show ?thesis
  proof (cases "dget caps n")
    case None
    then have "n \<notin> set (dkeys caps)" by (simp add: in_dkeys)
    with candidate_in_caps [of c caps r st] c show ?thesis by (auto simp: feasible_on_def)
  next
    case (Some cap)
    then have n: "n \<in> set (dkeys caps)" by (auto simp: in_dkeys)
    have uniq: "(n, cap') \<in> set caps \<longleftrightarrow> cap' = cap" for cap'
      using Some wf dget_of_set dget_in_set by (metis option.inject)
    have "c \<in> set (candidates caps r st) \<longleftrightarrow>
        ram = free_ram_bytes cap - used_ram st n \<and> disk = free_disk_bytes cap - used_disk st n
        \<and> ram_bytes r \<le> ram \<and> disk_bytes r \<le> disk"
      using uniq by (auto simp: candidates_def c)
    then show ?thesis using inv n Some by (auto simp: feasible_on_def left_on_def plan_inv_def c)
  qed
qed

lemma left_on_cong:
  "(\<And>q. q \<in> set pre \<Longrightarrow> dget ch (rq_key q) = dget ch' (rq_key q)) \<Longrightarrow> left_on caps pre ch n = left_on caps pre ch' n"
  using load_on_cong [of pre ch ch'] by (auto simp: left_on_def split: option.splits)

lemma feasible_on_cong:
  "(\<And>q. q \<in> set pre \<Longrightarrow> dget ch (rq_key q) = dget ch' (rq_key q)) \<Longrightarrow>
     feasible_on caps pre ch r n = feasible_on caps pre ch' r n"
  using left_on_cong [of pre ch ch'] by (simp add: feasible_on_def)

lemma fit_key_le: "fit_key c \<le> fit_key d \<longleftrightarrow> fits_better (snd c) (fst c) (snd d) (fst d)"
  by (auto simp: fit_key_def fits_better_def less_eq_prod_def)

lemma best_fit_inv:
  assumes "plan_inv caps ov rc pre st" and "dict_wf caps"
  shows "best_fit caps r st n \<longleftrightarrow>
     feasible_on caps pre (choices st) r n \<and>
     (\<forall>m. feasible_on caps pre (choices st) r m \<longrightarrow>
        fits_better (left_on caps pre (choices st) n) n (left_on caps pre (choices st) m) m)"
  unfolding best_fit_def Bex_def Ball_def candidates_inv [OF assms] fit_key_le by auto

text \<open>When planning stops.\<close>

lemma plan_step_Inl:
  "plan_step caps ov r st = Inl e \<longleftrightarrow>
     fresh_in ov (recorded st) r \<and> candidates caps r st = [] \<and> e = no_feasible r"
  by (auto simp: plan_step_def fresh_in_def Let_def py_min_by_def split: option.splits)

lemma no_candidates_inv:
  assumes "plan_inv caps ov rc pre st" and "dict_wf caps"
  shows "candidates caps r st = [] \<longleftrightarrow> (\<forall>n. \<not> feasible_on caps pre (choices st) r n)"
proof -
  have "candidates caps r st = [] \<longleftrightarrow> (\<forall>c. c \<notin> set (candidates caps r st))"
    by (cases "candidates caps r st") auto
  then show ?thesis unfolding candidates_inv [OF assms] by auto
qed

section \<open>The requests of a build\<close>

lemma rq_key_request [simp]: "rq_key (placement_request_of vms k) = k"
  by (simp add: placement_request_of_def split: prod.splits)

lemma request_keys:
  "map rq_key (placement_requests vms ov rc) = known_keys vms ov rc @ fresh_keys vms ov rc"
  by (simp add: placement_requests_def o_def)

lemma set_known_keys:
  "set (known_keys vms ov rc) = {k \<in> set (dkeys vms). dget ov k \<noteq> None \<or> dget rc k \<noteq> None}"
  by (auto simp: known_keys_def in_dkeys)

lemma set_fresh_keys:
  "set (fresh_keys vms ov rc) = {k \<in> set (dkeys vms). dget ov k = None \<and> dget rc k = None}"
  by (auto simp: fresh_keys_def in_dkeys)

lemma set_request_keys: "rq_key ` set (placement_requests vms ov rc) = set (dkeys vms)"
proof -
  have "rq_key ` set (placement_requests vms ov rc) = set (map rq_key (placement_requests vms ov rc))" by simp
  also have "\<dots> = set (dkeys vms)" unfolding request_keys by (auto simp: set_known_keys set_fresh_keys)
  finally show ?thesis .
qed

lemma distinct_request_keys: "dict_wf vms \<Longrightarrow> distinct (map rq_key (placement_requests vms ov rc))"
proof -
  assume "dict_wf vms"
  then have "distinct (dkeys vms)" by (rule pydict.wf_keys)
  moreover have "set (known_keys vms ov rc) \<inter> set (fresh_keys vms ov rc) = {}"
    by (auto simp: set_known_keys set_fresh_keys)
  ultimately show ?thesis unfolding request_keys by (simp add: known_keys_def fresh_keys_def)
qed

lemma fresh_request:
  "r \<in> set (placement_requests vms ov rc) \<Longrightarrow> fresh_in ov rc r \<longleftrightarrow> rq_key r \<in> set (fresh_keys vms ov rc)"
  using set_request_keys [of vms ov rc] by (auto simp: fresh_in_def set_fresh_keys)

text \<open>The load that a build puts on a node, over its VMs.\<close>

definition vm_load :: "(int \<times> int \<Rightarrow> int) \<Rightarrow> footprints \<Rightarrow> (string, string) dict \<Rightarrow> string \<Rightarrow> int" where
  "vm_load f vms ch n = sum_list (map (f \<circ> snd) (filter (\<lambda>p. dget ch (fst p) = Some n) vms))"

lemma load_requests:
  assumes "dict_wf vms" and f: "\<And>k. g (placement_request_of vms k) = f (dget_or vms k (0, 0))"
  shows "load_on g (placement_requests vms ov rc) ch n = vm_load f vms ch n"
proof -
  let ?ks = "known_keys vms ov rc @ fresh_keys vms ov rc"
  let ?P = "\<lambda>k. dget ch k = Some n"
  have d: "distinct ?ks" using distinct_request_keys [OF assms(1), of ov rc] unfolding request_keys .
  have s: "set ?ks = set (dkeys vms)" by (auto simp: set_known_keys set_fresh_keys)
  have val: "dget_or vms k (0, 0) = v" if "(k, v) \<in> set vms" for k v
    using dget_of_set [OF assms(1) that] by (simp add: dget_or_def)
  have "load_on g (placement_requests vms ov rc) ch n = sum_list (map (\<lambda>k. f (dget_or vms k (0, 0))) (filter ?P ?ks))"
    by (simp add: load_on_def placement_requests_def filter_map o_def f del: map_append filter_append)
  also have "\<dots> = (\<Sum>k \<in> set (filter ?P ?ks). f (dget_or vms k (0, 0)))"
    using d by (intro sum_list_distinct_conv_sum_set distinct_filter)
  also have "set (filter ?P ?ks) = set (filter ?P (dkeys vms))" using s by auto
  also have "(\<Sum>k \<in> set (filter ?P (dkeys vms)). f (dget_or vms k (0, 0)))
      = sum_list (map (\<lambda>k. f (dget_or vms k (0, 0))) (filter ?P (dkeys vms)))"
    using pydict.wf_keys [OF assms(1)] by (intro sum_list_distinct_conv_sum_set [symmetric] distinct_filter)
  also have "\<dots> = vm_load f vms ch n"
    unfolding vm_load_def dkeys_def filter_map map_map
    by (rule arg_cong [where f = sum_list], rule map_cong) (auto simp: val o_def)
  finally show ?thesis .
qed

lemma ram_request: "ram_bytes (placement_request_of vms k) = fst (dget_or vms k (0, 0))"
  and disk_request: "disk_bytes (placement_request_of vms k) = snd (dget_or vms k (0, 0))"
  by (simp_all add: placement_request_of_def split: prod.splits)

lemma load_requests_ram:
  "dict_wf vms \<Longrightarrow> load_on ram_bytes (placement_requests vms ov rc) ch n = vm_load fst vms ch n"
  by (rule load_requests) (simp_all add: ram_request)

lemma load_requests_disk:
  "dict_wf vms \<Longrightarrow> load_on disk_bytes (placement_requests vms ov rc) ch n = vm_load snd vms ch n"
  by (rule load_requests) (simp_all add: disk_request)

section \<open>What the planner guarantees\<close>

lemma plan_priority_facts:
  assumes "decide_placement vms caps rc ov = Inr (ch, ps)" and "dict_wf vms" and "k \<in> set (dkeys vms)"
  shows "case dget ov k of
      Some n \<Rightarrow> dget ch k = Some n \<and> dget ps k = dget rc k
    | None \<Rightarrow>
        (case dget rc k of
           Some n \<Rightarrow> dget ch k = Some n \<and> dget ps k = Some n
         | None \<Rightarrow> \<exists>n \<in> set (dkeys caps). dget ch k = Some n \<and> dget ps k = Some n)"
proof -
  let ?reqs = "placement_requests vms ov rc"
  have plan: "plan ?reqs caps rc ov = Inr (ch, ps)" using assms(1) by (simp add: decide_placement_def)
  have dist: "distinct (map rq_key ?reqs)" using assms(2) by (rule distinct_request_keys)
  from assms(3) obtain r where r: "r \<in> set ?reqs" "rq_key r = k"
    using set_request_keys [of vms ov rc] by (metis imageE)
  then obtain pre post where reqs: "?reqs = pre @ r # post" by (meson split_list)
  from plan_at [OF plan [unfolded reqs] dist [unfolded reqs]] obtain st n where
    st: "plan_inv caps ov rc pre st" "step_choice caps ov r st n" "dget ch (rq_key r) = Some n"
    by metis
  have "rq_key r \<notin> rq_key ` set pre" using dist reqs by auto
  with st(1) have rec_r: "dget (recorded st) k = dget rc k" by (auto simp: plan_inv_def image_iff r(2))
  have fresh: "(\<exists>q \<in> set ?reqs. rq_key q = k \<and> fresh_in ov rc q) \<longleftrightarrow> dget ov k = None \<and> dget rc k = None"
    using r by (auto simp: fresh_in_def)
  have "n \<in> set (dkeys caps)" if "best_fit caps r st n"
    using that candidate_in_caps by (auto simp: best_fit_def)
  then show ?thesis
    using st(2,3) rec_r plan_recorded [OF plan dist, of k] unfolding fresh
    by (auto simp: step_choice_def r(2) split: option.splits)
qed

text \<open>
  C15: an override decides a VM's node; without one, its record entry does; and only a VM with
  neither is placed afresh, on one of the candidate nodes, which the record then holds.
\<close>

theorem plan_priority:
  assumes "decide_placement vms caps rc ov = Inr (ch, ps)" and "dict_wf vms" and "k \<in> set (dkeys vms)"
  shows "case dget ov k of
      Some n \<Rightarrow> dget ch k = Some n \<and> dget ps k = dget rc k
    | None \<Rightarrow>
        (case dget rc k of
           Some n \<Rightarrow> dget ch k = Some n \<and> dget ps k = Some n
         | None \<Rightarrow> \<exists>n \<in> set (dkeys caps). dget ch k = Some n \<and> dget ps k = Some n)"
  using assms by (rule plan_priority_facts)

lemma plan_domain_facts:
  assumes "decide_placement vms caps rc ov = Inr (ch, ps)" and "dict_wf vms"
  shows "distinct (dkeys ch) \<and> set (dkeys ch) = set (dkeys vms)"
proof -
  have "dkeys ch = map rq_key (placement_requests vms ov rc)"
    using assms by (intro plan_keys distinct_request_keys) (auto simp: decide_placement_def)
  then show ?thesis
    using distinct_request_keys [OF assms(2), of ov rc] set_request_keys [of vms ov rc]
    by (simp only: set_map)
qed

text \<open>
  C37: a plan chooses a node for exactly the VMs of the build, each once.
\<close>

theorem plan_domain:
  assumes "decide_placement vms caps rc ov = Inr (ch, ps)" and "dict_wf vms"
  shows "distinct (dkeys ch) \<and> set (dkeys ch) = set (dkeys vms)"
  using assms by (rule plan_domain_facts)

text \<open>
  C10: a fresh VM goes to a node that can hold it beside everything the plan has put there
  before, and no other such node fits better: none has more RAM left, or as much RAM and more disk, or
  the same of both and a smaller name.
\<close>

theorem plan_best_fit:
  assumes "plan (pre @ r # post) caps rc ov = Inr (ch, ps)"
    and "distinct (map rq_key (pre @ r # post))" and "dict_wf caps" and "fresh_in ov rc r"
  shows "\<exists>n. dget ch (rq_key r) = Some n \<and> feasible_on caps pre ch r n \<and>
     (\<forall>m. feasible_on caps pre ch r m \<longrightarrow> fits_better (left_on caps pre ch n) n (left_on caps pre ch m) m)"
proof -
  from plan_at [OF assms(1,2)] obtain st n where
    st: "plan_inv caps ov rc pre st" "step_choice caps ov r st n" "dget ch (rq_key r) = Some n"
    and pre: "\<And>q. q \<in> set pre \<Longrightarrow> dget ch (rq_key q) = dget (choices st) (rq_key q)"
    by metis
  have "rq_key r \<notin> rq_key ` set pre" using assms(2) by auto
  with st(1) assms(4) have "dget (recorded st) (rq_key r) = None"
    by (auto simp: plan_inv_def image_iff fresh_in_def)
  with st(2) assms(4) have "best_fit caps r st n" by (simp add: step_choice_def fresh_in_def)
  then have "feasible_on caps pre (choices st) r n \<and> (\<forall>m. feasible_on caps pre (choices st) r m \<longrightarrow>
      fits_better (left_on caps pre (choices st) n) n (left_on caps pre (choices st) m) m)"
    by (simp add: best_fit_inv [OF st(1) assms(3)])
  with st(3) show ?thesis
    using feasible_on_cong [of pre ch "choices st"] left_on_cong [of pre ch "choices st"] pre by auto
qed

lemma plan_no_overcommit_aux:
  assumes plan: "plan (known @ fresh) caps rc ov = Inr (ch, ps)"
    and dist: "distinct (map rq_key (known @ fresh))" and wf: "dict_wf caps"
    and fresh: "\<forall>r \<in> set fresh. fresh_in ov rc r"
    and some: "\<exists>r \<in> set fresh. dget ch (rq_key r) = Some n"
  shows "n \<in> set (dkeys caps) \<and> 0 \<le> fst (left_on caps (known @ fresh) ch n)
     \<and> 0 \<le> snd (left_on caps (known @ fresh) ch n)"
proof -
  from some obtain pre r post where split: "fresh = pre @ r # post"
    and r: "dget ch (rq_key r) = Some n" and post: "\<forall>q \<in> set post. dget ch (rq_key q) \<noteq> Some n"
    using split_list_last_prop [of fresh "\<lambda>r. dget ch (rq_key r) = Some n"] by blast
  have all: "known @ fresh = (known @ pre) @ r # post" using split by simp
  from plan_best_fit [OF plan [unfolded all] dist [unfolded all] wf] fresh split r
  have f: "feasible_on caps (known @ pre) ch r n" by auto
  have "load_on g (known @ fresh) ch n = load_on g (known @ pre) ch n + g r" for g
  proof -
    have "load_on g post ch n = 0" using post by (intro load_on_none) auto
    moreover have "load_on g (r # post) ch n = load_on g [r] ch n + load_on g post ch n"
      using load_on_append [of g "[r]" post] by simp
    ultimately show ?thesis unfolding all by (simp add: load_on_append load_on_single r)
  qed
  with f show ?thesis by (auto simp: feasible_on_def left_on_def split: option.splits)
qed

text \<open>
  C4: when a build places a VM afresh on a node, everything the build has on that node
  (pinned, recorded and fresh VMs together) fits the RAM and the disk the node reported free.
\<close>

theorem plan_no_overcommit:
  assumes "decide_placement vms caps rc ov = Inr (ch, ps)" and "dict_wf vms" and "dict_wf caps"
    and "k \<in> set (fresh_keys vms ov rc)" and "dget ch k = Some n"
  shows "\<exists>cap. dget caps n = Some cap \<and> vm_load fst vms ch n \<le> free_ram_bytes cap
     \<and> vm_load snd vms ch n \<le> free_disk_bytes cap"
proof -
  let ?K = "map (placement_request_of vms) (known_keys vms ov rc)"
  let ?F = "map (placement_request_of vms) (fresh_keys vms ov rc)"
  have reqs: "placement_requests vms ov rc = ?K @ ?F" by (simp add: placement_requests_def)
  have "\<forall>r \<in> set ?F. fresh_in ov rc r" by (auto simp: set_fresh_keys fresh_in_def)
  moreover have "\<exists>r \<in> set ?F. dget ch (rq_key r) = Some n" using assms(4,5) by auto
  ultimately have "n \<in> set (dkeys caps) \<and> 0 \<le> fst (left_on caps (?K @ ?F) ch n)
      \<and> 0 \<le> snd (left_on caps (?K @ ?F) ch n)"
    using assms(1-3) distinct_request_keys [OF assms(2), of ov rc]
    by (intro plan_no_overcommit_aux) (simp_all add: decide_placement_def reqs)
  then show ?thesis
    unfolding reqs [symmetric]
    by (auto simp: in_dkeys left_on_def load_requests_ram [OF assms(2)] load_requests_disk [OF assms(2)])
qed

text \<open>
  C29: planning raises exactly when some VM without override or record entry comes up while
  no candidate node can hold it beside what the plan has put there, and then with that VM's error.
\<close>

theorem plan_fails_iff:
  assumes "distinct (map rq_key reqs)" and "dict_wf caps"
  shows "plan reqs caps rc ov = Inl e \<longleftrightarrow>
     (\<exists>pre r post ch ps. reqs = pre @ r # post \<and> plan pre caps rc ov = Inr (ch, ps) \<and> fresh_in ov rc r \<and>
        (\<forall>n. \<not> feasible_on caps pre ch r n) \<and> e = no_feasible r)"
proof -
  have step: "plan_step caps ov r st = Inl e \<longleftrightarrow>
      fresh_in ov rc r \<and> (\<forall>n. \<not> feasible_on caps pre (choices st) r n) \<and> e = no_feasible r"
    if "reqs = pre @ r # post" "plan_run caps ov rc pre = Inr st" for pre r post st
  proof -
    have inv: "plan_inv caps ov rc pre st" using that assms(1) by (intro plan_inv_run) auto
    have "rq_key r \<notin> rq_key ` set pre" using that(1) assms(1) by auto
    with inv have "dget (recorded st) (rq_key r) = dget rc (rq_key r)" by (auto simp: plan_inv_def image_iff)
    then show ?thesis by (simp add: plan_step_Inl no_candidates_inv [OF inv assms(2)] fresh_in_def)
  qed
  have "plan reqs caps rc ov = Inl e \<longleftrightarrow>
      (\<exists>pre r post st. reqs = pre @ r # post \<and> plan_run caps ov rc pre = Inr st \<and> plan_step caps ov r st = Inl e)"
    by (simp add: plan_def res_bind_eq_Inl res_fold_Inl)
  also have "\<dots> \<longleftrightarrow>
      (\<exists>pre r post st. reqs = pre @ r # post \<and> plan_run caps ov rc pre = Inr st \<and> fresh_in ov rc r \<and>
        (\<forall>n. \<not> feasible_on caps pre (choices st) r n) \<and> e = no_feasible r)"
    using step by blast
  also have "\<dots> \<longleftrightarrow>
      (\<exists>pre r post ch ps. reqs = pre @ r # post \<and> plan pre caps rc ov = Inr (ch, ps) \<and> fresh_in ov rc r \<and>
        (\<forall>n. \<not> feasible_on caps pre ch r n) \<and> e = no_feasible r)"
    by (auto simp: plan_def)
  finally show ?thesis .
qed

subsection \<open>The order of the dictionaries does not matter\<close>

text \<open>Two states that answer every query alike take every step alike.\<close>

definition same_state :: "plan_state \<Rightarrow> plan_state \<Rightarrow> bool" where
  "same_state a b \<longleftrightarrow> choices a = choices b \<and> recorded a = recorded b \<and>
     set (dkeys (occupied_ram a)) = set (dkeys (occupied_ram b)) \<and>
     used_ram a = used_ram b \<and> used_disk a = used_disk b"

lemma inj_fit_key: "inj_on fit_key A"
  by (rule inj_onI) (auto simp: fit_key_def prod_eq_iff)

lemma used_occupy [simp]:
  "used_ram (occupy r n st) = (used_ram st)(n := used_ram st n + ram_bytes r)"
  "used_disk (occupy r n st) = (used_disk st)(n := used_disk st n + disk_bytes r)"
  by (simp_all add: fun_eq_iff used_ram_def used_disk_def occupy_def dget_or_def)

lemma fields_occupy [simp]:
  "choices (occupy r n st) = choices st" "recorded (occupy r n st) = recorded st"
  "set (dkeys (occupied_ram (occupy r n st))) = insert n (set (dkeys (occupied_ram st)))"
  by (simp_all add: occupy_def)

lemma fields_assign [simp]:
  "choices (assign_node r n st) = dset (rq_key r) n (choices st)"
  "recorded (assign_node r n st) = recorded st" "occupied_ram (assign_node r n st) = occupied_ram st"
  by (simp_all add: assign_node_def)

lemma used_recorded [simp]:
  "used_ram (st\<lparr>recorded := d\<rparr>) = used_ram st" "used_disk (st\<lparr>recorded := d\<rparr>) = used_disk st"
  by (simp_all add: fun_eq_iff used_ram_def used_disk_def)

lemma same_hold: "same_state a b \<Longrightarrow> same_state (hold r n a) (hold r n b)"
  by (simp add: same_state_def hold_def Let_def)

lemma candidates_same: "set caps = set caps' \<Longrightarrow> same_state a b \<Longrightarrow> set (candidates caps r a) = set (candidates caps' r b)"
  by (simp add: candidates_def same_state_def)

lemma plan_step_same:
  assumes caps: "set caps = set caps'" and same: "same_state a b"
    and step: "plan_step caps ov r a = Inr a'"
  shows "\<exists>b'. plan_step caps' ov r b = Inr b' \<and> same_state a' b'"
proof (cases "dget ov (rq_key r) = None \<and> dget (recorded a) (rq_key r) = None")
  case False
  with step same same_hold [OF same] show ?thesis
    by (auto simp: plan_step_def same_state_def split: option.splits)
next
  case True
  have set_eq: "set (candidates caps r a) = set (candidates caps' r b)" by (rule candidates_same [OF caps same])
  then have ne: "candidates caps r a = [] \<longleftrightarrow> candidates caps' r b = []" by (metis set_empty)
  have min_eq: "py_min_by fit_key (candidates caps r a) = py_min_by fit_key (candidates caps' r b)"
    using set_eq inj_fit_key by (rule py_min_by_cong)
  from True same have "dget (recorded b) (rq_key r) = None" by (simp add: same_state_def)
  with True step same show ?thesis
    by (auto simp: plan_step_def ne min_eq Let_def same_state_def split: if_splits)
qed

lemma plan_run_same:
  "set caps = set caps' \<Longrightarrow> same_state a b \<Longrightarrow> res_fold (plan_step caps ov) reqs a = Inr a' \<Longrightarrow>
     \<exists>b'. res_fold (plan_step caps' ov) reqs b = Inr b' \<and> same_state a' b'"
proof (induction reqs arbitrary: a b)
  case (Cons r reqs)
  then obtain a1 where "plan_step caps ov r a = Inr a1" "res_fold (plan_step caps ov) reqs a1 = Inr a'" by auto
  with plan_step_same [OF Cons.prems(1,2)] Cons.IH Cons.prems(1) show ?case by fastforce
qed auto

lemma same_init: "set caps = set caps' \<Longrightarrow> same_state (plan_init caps rc) (plan_init caps' rc)"
proof -
  assume "set caps = set caps'"
  then have "set (dkeys caps) = set (dkeys caps')" by (simp add: dkeys_def)
  moreover have "dget_or (map (\<lambda>n. (n, 0::int)) ks) n 0 = 0" for ks :: "string list" and n
    by (auto simp: dget_or_def dget_def dest: map_of_SomeD split: option.splits)
  ultimately show ?thesis
    by (simp add: same_state_def plan_init_def used_ram_def used_disk_def fun_eq_iff)
      (simp add: dkeys_def image_image)
qed

lemma sort_filter_keys:
  "dict_wf vms \<Longrightarrow> dict_wf vms' \<Longrightarrow> set vms = set vms' \<Longrightarrow>
     sort (filter Q (dkeys vms)) = sort (filter Q (dkeys (vms' :: (string, 'v) dict)))"
  by (intro sorted_distinct_set_unique) (auto simp: dict_wf_def dkeys_def distinct_map)

text \<open>
  C28: the plan does not depend on the order in which the VMs of the build or the
  candidate nodes are listed.
\<close>

theorem plan_order_independent:
  assumes "decide_placement vms caps rc ov = Inr res"
    and "dict_wf vms" "dict_wf vms'" "set vms' = set vms" and "set caps' = set caps"
  shows "decide_placement vms' caps' rc ov = Inr res"
proof -
  have "dget vms' k = dget vms k" for k
  proof (cases "dget vms k")
    case None
    then have "k \<notin> set (dkeys vms')" using assms(4) by (simp add: dkeys_def dget_def map_of_eq_None_iff)
    then have "dget vms' k = None" by (simp add: dkeys_def dget_def map_of_eq_None_iff)
    with None show ?thesis by simp
  next
    case (Some v)
    then have "(k, v) \<in> set vms'" using assms(4) dget_in_set by metis
    with Some show ?thesis using dget_of_set [OF assms(3)] by simp
  qed
  then have "placement_request_of vms' = placement_request_of vms"
    by (simp add: fun_eq_iff placement_request_of_def dget_or_def)
  then have reqs: "placement_requests vms' ov rc = placement_requests vms ov rc"
    using sort_filter_keys [OF assms(3,2,4)] by (simp add: placement_requests_def known_keys_def fresh_keys_def)
  from assms(1) obtain st where st: "plan_run caps ov rc (placement_requests vms ov rc) = Inr st"
    and res: "res = (choices st, recorded st)"
    by (auto simp: decide_placement_def plan_def)
  from plan_run_same [OF assms(5) [symmetric] same_init [OF assms(5) [symmetric]] st] obtain st' where
    "plan_run caps' ov rc (placement_requests vms ov rc) = Inr st'" "same_state st st'" by blast
  then show ?thesis by (simp add: decide_placement_def reqs plan_def res same_state_def)
qed

section \<open>The record between builds\<close>

text \<open>What a build reads back is a function of the record file alone.\<close>

definition load_result :: "string \<Rightarrow> file_content option \<Rightarrow> placement_record res" where
  "load_result path f =
     (case f of
        None \<Rightarrow> Inr \<lparr>rec_path = path, placements = []\<rparr>
      | Some (Text s) \<Rightarrow>
          (case json_loads s of
             Inr raw \<Rightarrow> record_of_json path raw
           | Inl e \<Rightarrow> if catches [OSError, JSONDecodeError] e
                      then throw RuntimeError (''placement record '' @ path @ '' is unreadable ('' @
                             exn_msg e @ ''); fix or delete it before running'')
                      else Inl e)
      | Some (Unreadable m) \<Rightarrow>
          throw RuntimeError (''placement record '' @ path @ '' is unreadable ('' @ m @
             ''); fix or delete it before running'')
      | Some (Undecodable m) \<Rightarrow> throw ValueError m)"

lemma load_record_run: "load_record path w = (load_result path (files w path), w)"
  by (auto simp: load_record_def load_result_def file_exists_def read_file_def io_bind_def io_except_def ret_def
      lift_def raise_def catches_def split: option.splits file_content.splits sum.splits)

lemma load_result_Inr:
  "load_result path f = Inr r \<Longrightarrow> rec_path r = path \<and> dict_wf (placements r)"
  by (auto simp: load_result_def record_of_json_def split: option.splits file_content.splits sum.splits if_splits)

lemma json_members_ok_strings: "json_members_ok (map (\<lambda>k. (k, JStr (f k))) ks)"
  by (induction ks) simp_all

lemma load_record_text:
  assumes "dict_wf ps"
  shows "load_result path (Some (Text (record_text ps))) =
     Inr \<lparr>rec_path = path, placements = map (\<lambda>k. (k, dget_or ps k [])) (sort (dkeys ps))\<rparr>"
proof -
  let ?ms = "map (\<lambda>k. (k, JStr (dget_or ps k []))) (sort (dkeys ps))"
  have "dict_wf ?ms" using pydict.wf_keys [OF assms] by (simp add: dict_wf_def o_def)
  then have ok: "json_ok (JObj ?ms)" by (simp add: json_members_ok_strings)
  have wf: "dict_wf (map (\<lambda>k. (k, dget_or ps k [])) (sort (dkeys ps)))"
    using pydict.wf_keys [OF assms] by (simp add: dict_wf_def o_def)
  have "json_loads (record_text ps) = Inr (JObj ?ms)"
    using loads_dumps [OF ok, of "Some 2" 1] by (simp add: record_text_def)
  then show ?thesis
    using dict_of_id [OF wf] by (simp add: load_result_def record_of_json_def o_def)
qed

lemma dget_or_cong: "dget d k = dget d' k \<Longrightarrow> dget_or d k v = dget_or d' k v"
  by (simp add: dget_or_def)

lemma dget_map_keys: "dget (map (\<lambda>k. (k, f k)) ks) k = (if k \<in> set ks then Some (f k) else None)"
  by (simp add: dget_def map_of_map_restrict restrict_map_def)

lemma record_roundtrip_facts:
  assumes "dict_wf ps"
  shows "\<exists>ps'. load_result path (Some (Text (record_text ps))) = Inr \<lparr>rec_path = path, placements = ps'\<rparr>
     \<and> (\<forall>k. dget ps' k = dget ps k) \<and> sorted (dkeys ps') \<and> record_text ps' = record_text ps"
proof -
  let ?ps' = "map (\<lambda>k. (k, dget_or ps k [])) (sort (dkeys ps))"
  have get: "dget ?ps' k = dget ps k" for k
    by (auto simp: dget_map_keys dget_or_def in_dkeys split: option.splits)
  moreover have keys: "dkeys ?ps' = sort (dkeys ps)" by (simp add: dkeys_def o_def)
  moreover have "record_text ?ps' = record_text ps"
    unfolding record_text_def keys by (simp only: dget_or_cong [OF get] sorted_sort_id sorted_sort)
  ultimately show ?thesis using load_record_text [OF assms] by auto
qed

text \<open>
  C21: loading the text that saving a record writes gives back every VM's node and no other
  entry, in a record whose keys are sorted, and saving that again writes the same text.
\<close>

theorem record_roundtrip:
  assumes "dict_wf ps"
  shows "\<exists>ps'. load_result path (Some (Text (record_text ps))) = Inr \<lparr>rec_path = path, placements = ps'\<rparr>
     \<and> (\<forall>k. dget ps' k = dget ps k) \<and> sorted (dkeys ps') \<and> record_text ps' = record_text ps"
  using assms by (rule record_roundtrip_facts)

text \<open>
  The contract between the planner and whatever keeps its decisions, and what the planner gets from it:
  a VM that one build placed is where it was in every later build.
\<close>

locale decision_store =
  fixes store :: "(string, string) dict \<Rightarrow> 'f"
    and fetch :: "'f \<Rightarrow> (string, string) dict option"
  assumes fetch_store: "dict_wf ps \<Longrightarrow> \<exists>ps'. fetch (store ps) = Some ps' \<and> dict_wf ps' \<and> dget ps' = dget ps"
begin

lemma kept:
  assumes "decide_placement vms caps rc ov = Inr (ch, ps)" and "dict_wf vms" and "dict_wf ps"
    and "fetch (store ps) = Some rc'"
    and "decide_placement vms' caps' rc' ov' = Inr (ch', ps')" and "dict_wf vms'"
    and "k \<in> set (dkeys vms)" and "k \<in> set (dkeys vms')" and "dget ov k = None" and "dget ov' k = None"
  shows "dget ch' k = dget ch k"
proof -
  have rc': "dget rc' k = dget ps k" using fetch_store [OF assms(3)] assms(4) by auto
  obtain n where n: "dget ch k = Some n" "dget ps k = Some n"
    using plan_priority_facts [OF assms(1,2,7)] assms(9) by (auto split: option.splits)
  then show ?thesis
    using plan_priority_facts [OF assms(5,6,8)] assms(10) rc' by (auto split: option.splits)
qed

end

definition parse_record :: "string \<Rightarrow> (string, string) dict option" where
  "parse_record text =
     (case load_result [] (Some (Text text)) of Inr r \<Rightarrow> Some (placements r) | Inl _ \<Rightarrow> None)"

interpretation record_file: decision_store record_text parse_record
proof (unfold_locales, goal_cases)
  case (1 ps)
  obtain ps' where ps': "load_result [] (Some (Text (record_text ps))) = Inr \<lparr>rec_path = [], placements = ps'\<rparr>"
      "\<forall>k. dget ps' k = dget ps k"
    using record_roundtrip_facts [OF 1, of "[]"] by blast
  then show ?case using load_result_Inr [OF ps'(1)] by (auto simp: parse_record_def fun_eq_iff)
qed

lemma load_result_parse:
  "load_result path (Some (Text s)) = Inr r \<Longrightarrow> parse_record s = Some (placements r)"
  by (auto simp: load_result_def parse_record_def record_of_json_def catches_def split: sum.splits if_splits)

subsection \<open>The effects of plan_placement\<close>

text \<open>Its queries only read.\<close>

lemma only_usage_get [only_intros]:
  "(\<And>out. is_read (EHttp (pve_http_request (uc_insecure c) (uc_base c @ path) m (uc_ticket c) (uc_csrf c) f) out)) \<Longrightarrow>
     only is_read (usage_request P c m path f)"
  unfolding usage_request_def by (intro only_intros)

lemma only_usage_auth [only_intros]: "only is_read (usage_auth P c)"
  unfolding usage_auth_def by (intro only_intros) simp_all

lemma only_cluster_entries [only_intros]: "only is_read (cluster_entries P c)"
  unfolding cluster_entries_def by (intro only_intros) simp_all

lemma only_online_nodes [only_intros]: "only is_read (online_nodes P c)"
  unfolding online_nodes_def by (intro only_intros)

lemma only_node_capacity [only_intros]: "only is_read (read_node_capacity P c n)"
  unfolding read_node_capacity_def by (intro only_intros) simp_all

lemma only_candidate_nodes [only_intros]: "only is_read (candidate_nodes_of P c ns)"
  unfolding candidate_nodes_of_def by (auto intro!: only_intros split: option.split list.split)

lemma only_read_capacities [only_intros]: "only is_read (read_capacities P c ns)"
  unfolding read_capacities_def by (intro only_intros)

lemma only_load_record [only_intros]: "only Q (load_record path)"
  unfolding load_record_def by (intro only_intros)

lemma only_report [only_intros]: "only is_read (report_fresh ch fresh)"
  unfolding report_fresh_def by (intro only_intros) simp

definition placement_event :: "string \<Rightarrow> event \<Rightarrow> bool" where
  "placement_event path e \<longleftrightarrow> is_read e \<or> e = EMkdirParents path \<or> (\<exists>s. e = EWrite path s)"

lemma read_only: "only is_read m \<Longrightarrow> only (placement_event path) m"
  by (erule only_weaken) (simp add: placement_event_def)

lemma load_record_path: "load_record path w = (Inr r, w') \<Longrightarrow> rec_path r = path"
  using load_result_Inr by (auto simp: load_record_run)

lemma only_files_io: "only is_read m \<Longrightarrow> m w = (r, w') \<Longrightarrow> files w' = files w"
  by (rule only_files [OF only_weaken [OF _ is_read_not_write]])

lemma persist_record_files:
  "persist_record P persist fresh r w = (Inr u, w') \<Longrightarrow>
     files w' = (if persist \<and> fresh \<noteq> [] then (files w)(rec_path r \<mapsto> Text (record_text (placements r)))
                 else files w)"
  by (auto simp: persist_record_def save_record_def io_then_def io_bind_def mkdir_parents_def write_file_def emit_def split: option.splits)

definition overrides_of :: "(string, string) dict option \<Rightarrow> (string, string) dict" where
  "overrides_of ov = (case ov of None \<Rightarrow> [] | Some d \<Rightarrow> d)"

lemma plan_placement_Inr:
  assumes "plan_placement P ep us pw ins vms path ov cn persist w = (Inr ch, w')"
  obtains rec caps ps where
    "load_result path (files w path) = Inr rec" "dict_wf caps"
    "decide_placement vms caps (placements rec) (overrides_of ov) = Inr (ch, ps)"
    "files w' = (if persist \<and> fresh_keys vms (overrides_of ov) (placements rec) \<noteq> []
                 then (files w)(path \<mapsto> Text (record_text ps)) else files w)"
proof -
  let ?ov = "overrides_of ov"
  from assms obtain rec c0 c ns w1 caps w2 ps u w3 u' w4 where
    rec: "load_result path (files w path) = Inr rec" and
    ns: "candidate_nodes_of P c0 cn w = (Inr (c, ns), w1)" and
    caps: "read_capacities P c ns w1 = (Inr caps, w2)" and
    plan: "decide_placement vms caps (placements rec) ?ov = Inr (ch, ps)" and
    save: "persist_record P persist (fresh_keys vms ?ov (placements rec)) (rec\<lparr>placements := ps\<rparr>) w2
           = (Inr u, w3)" and
    report: "report_fresh ch (fresh_keys vms ?ov (placements rec)) w3 = (Inr u', w4)" "w' = w4"
    unfolding plan_placement_def overrides_of_def [symmetric]
    by (auto simp: io_bind_Inr io_then_Inr Let_def load_record_run split: prod.splits if_splits)
  have "files w2 = files w"
    using only_files_io [OF only_candidate_nodes ns] only_files_io [OF only_read_capacities caps] by simp
  moreover have "files w' = files w3" using only_files_io [OF only_report report(1)] report(2) by simp
  moreover have "rec_path rec = path" using load_result_Inr [OF rec] by simp
  ultimately have "files w' = (if persist \<and> fresh_keys vms ?ov (placements rec) \<noteq> []
      then (files w)(path \<mapsto> Text (record_text ps)) else files w)"
    using persist_record_files [OF save] by simp
  moreover have "dict_wf caps" using caps by (auto simp: read_capacities_def io_bind_Inr)
  ultimately show thesis using that rec plan by blast
qed

lemma decide_dict_wf:
  assumes "decide_placement vms caps rc ov = Inr (ch, ps)" and "dict_wf vms" and "dict_wf rc"
  shows "dict_wf ps"
proof -
  from assms(1) obtain st where "plan_run caps ov rc (placement_requests vms ov rc) = Inr st" "ps = recorded st"
    by (auto simp: decide_placement_def plan_def)
  moreover have "dict_wf (recorded a')"
    if "dict_wf (recorded a)" "plan_step caps ov r a = Inr a'" for r a a'
    using that by (auto simp: plan_step_def hold_def assign_node_def occupy_def Let_def split: option.splits if_splits)
  ultimately show ?thesis
    using res_fold_invariant [where I = "\<lambda>st. dict_wf (recorded st)"] assms(3)
    by (fastforce simp: plan_init_def)
qed

text \<open>
  A VM that a persisting build placed is where it was in every later build that finds the
  record file as that build left it, whatever the cluster, the other VMs and the credentials are then,
  unless an override names it.
\<close>

theorem rebuild_stable:
  assumes first: "plan_placement P ep us pw ins vms path ov cn True w = (Inr ch, w1)"
    and later: "plan_placement P' ep' us' pw' ins' vms' path ov' cn' persist' w2 = (Inr ch', w3)"
    and kept: "files w2 path = files w1 path"
    and wf: "dict_wf vms" "dict_wf vms'"
    and k: "k \<in> set (dkeys vms)" "k \<in> set (dkeys vms')"
    and free: "dget (overrides_of ov) k = None" "dget (overrides_of ov') k = None"
  shows "dget ch' k = dget ch k"
proof -
  from plan_placement_Inr [OF first] obtain rec caps ps where
    rec: "load_result path (files w path) = Inr rec" and "dict_wf caps" and
    plan: "decide_placement vms caps (placements rec) (overrides_of ov) = Inr (ch, ps)" and
    files: "files w1 = (if True \<and> fresh_keys vms (overrides_of ov) (placements rec) \<noteq> []
                 then (files w)(path \<mapsto> Text (record_text ps)) else files w)" .
  from plan_placement_Inr [OF later] obtain rec' caps' ps' where
    rec': "load_result path (files w2 path) = Inr rec'" and "dict_wf caps'" and
    plan': "decide_placement vms' caps' (placements rec') (overrides_of ov') = Inr (ch', ps')" .
  show ?thesis
  proof (cases "fresh_keys vms (overrides_of ov) (placements rec) = []")
    case True
    then have "rec' = rec" using rec rec' kept files by simp
    moreover have "dget (placements rec) k \<noteq> None"
      using True k(1) free(1) set_fresh_keys [of vms "overrides_of ov" "placements rec"] by auto
    ultimately show ?thesis
      using plan_priority_facts [OF plan wf(1) k(1)] plan_priority_facts [OF plan' wf(2) k(2)] free by auto
  next
    case False
    then have "parse_record (record_text ps) = Some (placements rec')"
      using rec' kept files load_result_parse by simp
    moreover have "dict_wf ps"
      using decide_dict_wf [OF plan wf(1)] load_result_Inr [OF rec] by simp
    ultimately show ?thesis
      by (intro record_file.kept [OF plan wf(1) _ _ plan' wf(2) k free])
  qed
qed

text \<open>
  Without \<open>persist\<close> (a preview) placement leaves every file as it was, and all it does is
  read: \<open>GET\<close> requests, the ticket request and log lines.
\<close>

theorem preview_read_only:
  assumes "plan_placement P ep us pw ins vms path ov cn False w = (r, w')"
  shows "files w' = files w \<and> (\<exists>es. trace w' = trace w @ es \<and> (\<forall>e \<in> set es. is_read e))"
proof -
  have "only is_read (plan_placement P ep us pw ins vms path ov cn False)"
    unfolding plan_placement_def persist_record_def Let_def by (intro only_intros) simp_all
  with assms show ?thesis using only_files_io only_trace by blast
qed

text \<open>
  What is done: any build's placement reads the cluster and writes nothing but the record file.
\<close>

theorem placement_effects:
  assumes "plan_placement P ep us pw ins vms path ov cn persist w = (r, w')"
  shows "\<exists>es. trace w' = trace w @ es \<and> (\<forall>e \<in> set es. placement_event path e)"
proof -
  have save: "only (placement_event path) (persist_record P persist fresh (r\<lparr>placements := ps\<rparr>))"
    if "rec_path r = path" for r :: placement_record and ps fresh
    unfolding persist_record_def save_record_def using that
    by (intro only_intros) (auto simp: placement_event_def)
  have "only (placement_event path) (plan_placement P ep us pw ins vms path ov cn persist)"
    unfolding plan_placement_def Let_def
    by (rule only_bind_result [OF only_load_record])
      (intro only_intros save read_only [OF only_candidate_nodes] read_only [OF only_read_capacities]
        read_only [OF only_report] load_record_path)
  with assms show ?thesis using only_trace by blast
qed

section \<open>The properties at work\<close>

definition demo_caps :: capacities where
  "demo_caps =
     [(''pve01'', \<lparr>cap_name = ''pve01'', free_ram_bytes = 100, free_disk_bytes = 500\<rparr>),
      (''pve02'', \<lparr>cap_name = ''pve02'', free_ram_bytes = 200, free_disk_bytes = 500\<rparr>)]"

definition demo_vms :: footprints where
  "demo_vms = [(''repo01'', (80, 100)), (''core01'', (60, 100)), (''kubecp01'', (60, 100))]"

lemma demo_plan:
  "decide_placement demo_vms demo_caps [(''core01'', ''pve01'')] [(''kubecp01'', ''pve02'')] =
     Inr ([(''core01'', ''pve01''), (''kubecp01'', ''pve02''), (''repo01'', ''pve02'')],
          [(''core01'', ''pve01''), (''repo01'', ''pve02'')])"
  by code_simp

lemma demo_wf: "dict_wf demo_vms" "dict_wf demo_caps"
  by (simp_all add: demo_vms_def demo_caps_def)

lemma demo_fresh: "fresh_keys demo_vms [(''kubecp01'', ''pve02'')] [(''core01'', ''pve01'')] = [''repo01'']"
  by code_simp

lemma plan_priority_witness:
  "dget [(''core01'', ''pve01''), (''kubecp01'', ''pve02''), (''repo01'', ''pve02'')] ''kubecp01'' = Some ''pve02''"
  using plan_priority [OF demo_plan demo_wf(1), of "''kubecp01''"] by (simp add: demo_vms_def)

lemma plan_domain_witness:
  "set (dkeys [(''core01'', ''pve01''), (''kubecp01'', ''pve02''), (''repo01'', ''pve02'')]) = set (dkeys demo_vms)"
  using plan_domain [OF demo_plan demo_wf(1)] by blast

lemma plan_no_overcommit_witness:
  "\<exists>cap. dget demo_caps ''pve02'' = Some cap \<and>
     vm_load fst demo_vms [(''core01'', ''pve01''), (''kubecp01'', ''pve02''), (''repo01'', ''pve02'')] ''pve02''
       \<le> free_ram_bytes cap"
  using plan_no_overcommit [OF demo_plan demo_wf, of "''repo01''" "''pve02''"] by (auto simp: demo_fresh)

lemma plan_order_independent_witness:
  "decide_placement (rev demo_vms) (rev demo_caps) [(''core01'', ''pve01'')] [(''kubecp01'', ''pve02'')] =
     Inr ([(''core01'', ''pve01''), (''kubecp01'', ''pve02''), (''repo01'', ''pve02'')],
          [(''core01'', ''pve01''), (''repo01'', ''pve02'')])"
  by (rule plan_order_independent [OF demo_plan demo_wf(1)]) (auto simp: demo_vms_def demo_caps_def)

definition demo_request :: "string \<Rightarrow> placement_request" where
  "demo_request k = \<lparr>rq_key = k, ram_bytes = 80, disk_bytes = 100\<rparr>"

lemma plan_best_fit_witness:
  "\<exists>n. dget [(''a'', ''pve02''), (''b'', ''pve02'')] ''b'' = Some n \<and>
     feasible_on demo_caps [demo_request ''a''] [(''a'', ''pve02''), (''b'', ''pve02'')] (demo_request ''b'') n"
proof -
  have "plan ([demo_request ''a''] @ demo_request ''b'' # []) demo_caps [] [] =
      Inr ([(''a'', ''pve02''), (''b'', ''pve02'')], [(''a'', ''pve02''), (''b'', ''pve02'')])"
    by code_simp
  from plan_best_fit [OF this _ demo_wf(2)] show ?thesis
    by (auto simp: demo_request_def fresh_in_def)
qed

lemma plan_fails_iff_witness:
  "\<exists>e. plan [demo_request ''a'', demo_request ''b'', demo_request ''c'', demo_request ''d''] demo_caps [] [] = Inl e \<and>
     (\<exists>pre r post. [demo_request ''a'', demo_request ''b'', demo_request ''c'', demo_request ''d''] = pre @ r # post \<and>
        e = no_feasible r)"
proof -
  have fails: "plan [demo_request ''a'', demo_request ''b'', demo_request ''c'', demo_request ''d''] demo_caps [] [] =
      Inl (no_feasible (demo_request ''d''))"
    by code_simp
  then show ?thesis
    using iffD1 [OF plan_fails_iff [OF _ demo_wf(2)] fails] by (fastforce simp: demo_request_def)
qed

lemma record_roundtrip_witness:
  "\<exists>ps'. load_result ''r'' (Some (Text (record_text [(''b'', ''n1''), (''a'', ''n2'')])))
       = Inr \<lparr>rec_path = ''r'', placements = ps'\<rparr> \<and> dget ps' ''b'' = Some ''n1''"
  using record_roundtrip [of "[(''b'', ''n1''), (''a'', ''n2'')]" "''r''"] by fastforce

text \<open>A cluster of two nodes behind the API, the second with more headroom.\<close>

definition demo_reply :: "http_request \<Rightarrow> json" where
  "demo_reply r =
     (if req_url r = ''https://h/api2/json/access/ticket''
      then JObj [(''data'', JObj [(''ticket'', JStr ''T'')])]
      else if req_url r = ''https://h/api2/json/nodes/pve01/status''
      then JObj [(''data'', JObj [(''memory'', JObj [(''available'', JInt 1000)])])]
      else if req_url r = ''https://h/api2/json/nodes/pve02/status''
      then JObj [(''data'', JObj [(''memory'', JObj [(''available'', JInt 2000)])])]
      else JObj [(''data'', JList [JObj [(''active'', JInt 1), (''content'', JStr ''images''), (''avail'', JInt 5000)]])])"

definition demo_client :: "json \<Rightarrow> usage_client" where
  "demo_client t = \<lparr>uc_base = ''https://h/api2/json'', uc_username = ''root@pam'', uc_password = ''pw'',
     uc_insecure = True, uc_ticket = t, uc_csrf = JStr []\<rparr>"

lemma demo_host: "endpoint_host ''h'' = Inr ''h''"
  by code_simp

lemma demo_store: "vm_store (JObj [(''active'', JInt 1), (''content'', JStr ''images''), (''avail'', JInt 5000)])"
  by code_simp

lemma demo_auth:
  "\<exists>es. usage_auth (scripted demo_reply out d) (demo_client t) w = (Inr (demo_client (JStr ''T'')), w\<lparr>trace := es\<rparr>)"
  by (simp add: usage_auth_def usage_request_def demo_reply_def io_eval payload_data_or_empty_def dget_or_def
      demo_client_def del: io_run_simps, rule exI, rule refl)

lemma demo_capacity:
  "n = ''pve01'' \<or> n = ''pve02'' \<Longrightarrow>
     \<exists>es. read_node_capacity (scripted demo_reply out d) (demo_client t) n w =
       (Inr \<lparr>cap_name = n, free_ram_bytes = (if n = ''pve01'' then 1000 else 2000), free_disk_bytes = 5000\<rparr>,
        w\<lparr>trace := es\<rparr>)"
  by (elim disjE; simp add: read_node_capacity_def usage_request_def demo_reply_def io_eval free_ram_of_def
      free_disk_of_def payload_entries_def payload_data_or_empty_def dget_or_def add_store_def demo_store
      demo_client_def del: io_run_simps; rule exI; rule refl)

abbreviation demo_build where
  "demo_build n persist \<equiv> plan_placement (scripted demo_reply [] False) ''h'' ''root@pam'' ''pw'' True
     [(''a'', (10, 10))] ''/r'' None (Some [n]) persist"

lemma demo_first: "\<exists>w1. demo_build ''pve01'' True blank = (Inr [(''a'', ''pve01'')], w1)
    \<and> files w1 ''/r'' = Some (Text (record_text [(''a'', ''pve01'')]))"
proof -
  obtain e1 where 1: "usage_auth (scripted demo_reply [] False) (demo_client (JStr [])) blank
      = (Inr (demo_client (JStr ''T'')), blank\<lparr>trace := e1\<rparr>)"
    using demo_auth by metis
  obtain e2 where 2: "read_node_capacity (scripted demo_reply [] False) (demo_client (JStr ''T'')) ''pve01''
      (blank\<lparr>trace := e1\<rparr>) =
      (Inr \<lparr>cap_name = ''pve01'', free_ram_bytes = 1000, free_disk_bytes = 5000\<rparr>, blank\<lparr>trace := e2\<rparr>)"
    using demo_capacity [of "''pve01''" "[]" False "JStr ''T''" "blank\<lparr>trace := e1\<rparr>"] by auto
  have dec: "decide_placement [(''a'', (10, 10))]
      [(''pve01'', \<lparr>cap_name = ''pve01'', free_ram_bytes = 1000, free_disk_bytes = 5000\<rparr>)] [] [] =
      Inr ([(''a'', ''pve01'')], [(''a'', ''pve01'')])"
    and fresh: "fresh_keys [(''a'', (10, 10))] [] [] = [''a'']"
    by code_simp+
  show ?thesis
    using 1 2
    by (simp add: plan_placement_def load_record_run load_result_def io_eval usage_client_init_def demo_host
        candidate_nodes_of_def read_capacities_def dict_of_def dset_def dec fresh persist_record_def
        save_record_def report_fresh_def scripted_def blank_def demo_client_def del: io_run_simps)
qed

lemma demo_second:
  assumes "files w ''/r'' = Some (Text (record_text [(''a'', ''pve01'')]))"
  shows "\<exists>ch w2. demo_build ''pve02'' False w = (Inr ch, w2)"
proof -
  obtain e1 where 1: "usage_auth (scripted demo_reply [] False) (demo_client (JStr [])) w
      = (Inr (demo_client (JStr ''T'')), w\<lparr>trace := e1\<rparr>)"
    using demo_auth by metis
  obtain e2 where 2: "read_node_capacity (scripted demo_reply [] False) (demo_client (JStr ''T'')) ''pve02''
      (w\<lparr>trace := e1\<rparr>) =
      (Inr \<lparr>cap_name = ''pve02'', free_ram_bytes = 2000, free_disk_bytes = 5000\<rparr>, w\<lparr>trace := e2\<rparr>)"
    using demo_capacity [of "''pve02''" "[]" False "JStr ''T''" "w\<lparr>trace := e1\<rparr>"] by auto
  have dec: "decide_placement [(''a'', (10, 10))]
      [(''pve02'', \<lparr>cap_name = ''pve02'', free_ram_bytes = 2000, free_disk_bytes = 5000\<rparr>)]
      [(''a'', ''pve01'')] [] = Inr ([(''a'', ''pve01'')], [(''a'', ''pve01'')])"
    and fresh: "fresh_keys [(''a'', (10, 10))] [] [(''a'', ''pve01'')] = []"
    by code_simp+
  have "load_result ''/r'' (files w ''/r'') = Inr \<lparr>rec_path = ''/r'', placements = [(''a'', ''pve01'')]\<rparr>"
    using load_record_text [of "[(''a'', ''pve01'')]"] assms by (simp add: dget_or_def)
  then show ?thesis
    using 1 2
    by (simp add: plan_placement_def load_record_run io_eval usage_client_init_def demo_host
        candidate_nodes_of_def read_capacities_def dict_of_def dset_def dec fresh persist_record_def
        save_record_def report_fresh_def scripted_def demo_client_def del: io_run_simps)
qed

lemma rebuild_stable_witness:
  "\<exists>w1 ch w2. demo_build ''pve01'' True blank = (Inr [(''a'', ''pve01'')], w1) \<and>
     demo_build ''pve02'' False w1 = (Inr ch, w2) \<and> dget ch ''a'' = Some ''pve01''"
proof -
  obtain w1 where first: "demo_build ''pve01'' True blank = (Inr [(''a'', ''pve01'')], w1)"
    and f: "files w1 ''/r'' = Some (Text (record_text [(''a'', ''pve01'')]))"
    using demo_first by blast
  obtain ch w2 where second: "demo_build ''pve02'' False w1 = (Inr ch, w2)"
    using demo_second [OF f] by blast
  have "dget ch ''a'' = dget [(''a'', ''pve01'')] ''a''"
    by (rule rebuild_stable [OF first second]) (simp_all add: overrides_of_def)
  with first second show ?thesis by auto
qed

lemma preview_read_only_witness: "files (snd (demo_build ''pve01'' False blank)) = files blank"
  using preview_read_only [OF surjective_pairing] by blast

lemma placement_effects_witness:
  "\<exists>es. trace (snd (demo_build ''pve01'' True blank)) = es \<and> (\<forall>e \<in> set es. placement_event ''/r'' e)"
  using placement_effects [OF surjective_pairing] by (fastforce simp: blank_def)

end
