(* ===== verification/Sdn.thy ===== *)
theory Sdn
  imports Scripted
begin

text \<open>
  \<open>infra/pulumi/modules/sdn.py\<close>: the VXLAN zone and vnet of the internal LAN, and the cluster-wide apply of
  the SDN configuration, which polls the reload task until it finishes or a deadline passes. The polling
  loop may run forever on a clock that stands still, so it is a partial function into \<open>option\<close>; with a
  clock that a sleep advances it is shown to return within 60 polls.
\<close>

section \<open>Settings and resources\<close>

record sdn_settings =
  sd_endpoint :: string
  sd_username :: string
  sd_password :: string
  sd_insecure :: bool
  sd_zone_id :: string
  sd_vnet_id :: string
  sd_vxlan_tag :: int
  sd_node_names :: "string list"
  sd_peers :: "string list"

text \<open>The arguments of the two resources that are registered with Pulumi.\<close>

record vxlan_zone =
  zone_resource :: string
  zone_id :: string
  zone_peers :: "string list"
  zone_nodes :: "string list"

record sdn_vnet =
  vnet_resource :: string
  vnet_id :: string
  vnet_zone :: string
  vnet_tag :: int
  vnet_depends_on :: "string list"

definition build_internal_lan :: "sdn_settings \<Rightarrow> vxlan_zone \<times> sdn_vnet" where
  "build_internal_lan s =
     (let zone = \<lparr>zone_resource = ''sdn-vxlan-zone'', zone_id = sd_zone_id s, zone_peers = sd_peers s,
                  zone_nodes = sd_node_names s\<rparr>;
          vnet = \<lparr>vnet_resource = ''sdn-vxlan-vnet'', vnet_id = sd_vnet_id s, vnet_zone = zone_id zone,
                  vnet_tag = sd_vxlan_tag s, vnet_depends_on = [zone_resource zone]\<rparr>
      in (zone, vnet))"

section \<open>Starting the apply\<close>

text \<open>The clock counts microseconds.\<close>

definition task_timeout_s :: int where
  "task_timeout_s = 300"

definition seconds :: "int \<Rightarrow> int" where
  "seconds n = n * 1000000"

definition sdn_request ::
  "'w platform \<Rightarrow> bool \<Rightarrow> string \<Rightarrow> string \<Rightarrow> string \<Rightarrow> json \<Rightarrow> json \<Rightarrow> (string, json) dict option \<Rightarrow>
     ('w, int \<times> json) io" where
  "sdn_request P insecure base meth path ticket csrf form =
     send_request P (pve_http_request insecure (base @ path) meth ticket csrf form)"

definition sdn_ticket ::
  "'w platform \<Rightarrow> bool \<Rightarrow> string \<Rightarrow> string \<Rightarrow> string \<Rightarrow> ('w, json \<times> json) io" where
  "sdn_ticket P insecure base username password =
     io_bind
       (sdn_request P insecure base ''POST'' ''/access/ticket'' (JStr []) (JStr [])
         (Some [(''new-format'', JInt 1), (''username'', JStr username), (''password'', JStr password)]))
       (\<lambda>(status, payload).
     io_bind (lift (payload_data_or_empty payload)) (\<lambda>data.
     io_bind (lift (jget data ''ticket'' (JStr []))) (\<lambda>ticket.
     if status \<noteq> 200 \<or> \<not> truthy ticket
     then raise (Exn RuntimeError
            (''Proxmox ticket auth failed ('' @ int_str status @ ''): '' @ py_str payload))
     else io_bind (lift (jget data ''CSRFPreventionToken'' (JStr []))) (\<lambda>csrf. ret (ticket, csrf)))))"

text \<open>The task of an accepted apply; none when it was applied synchronously.\<close>

definition apply_task :: "json \<Rightarrow> json option" where
  "apply_task payload =
     (let d = (if is_obj payload then dget_or (members payload) ''data'' JNull else JNull)
      in if truthy d then Some d else None)"

definition start_apply ::
  "'w platform \<Rightarrow> bool \<Rightarrow> string \<Rightarrow> string \<Rightarrow> string \<Rightarrow> ('w, json \<times> json option) io" where
  "start_apply P insecure base username password =
     io_bind (sdn_ticket P insecure base username password) (\<lambda>(ticket, csrf).
     io_bind (sdn_request P insecure base ''PUT'' ''/cluster/sdn/'' ticket csrf None) (\<lambda>(status, payload).
     if status \<noteq> 200
     then raise (Exn RuntimeError (''SDN apply failed ('' @ int_str status @ ''): '' @ py_str payload))
     else ret (ticket, apply_task payload)))"

section \<open>Waiting for the task\<close>

text \<open>
  One pass over the cluster's task list: done, still running or not listed, or failed. The first entry of
  the task decides.
\<close>

fun scan_tasks :: "json \<Rightarrow> json list \<Rightarrow> bool res" where
  "scan_tasks upid [] = Inr False"
| "scan_tasks upid (entry # entries) =
     (if \<not> is_obj entry \<or> \<not> jeq (dget_or (members entry) ''upid'' JNull) upid then scan_tasks upid entries
      else
        (let tstatus = dget_or (members entry) ''status'' JNull in
         if tstatus = JNull then Inr False
         else if jeq tstatus (JStr ''OK'') then Inr True
         else throw RuntimeError
                (''SDN apply task '' @ py_str upid @ '' finished with '' @ py_str tstatus @ '': '' @
                 py_str (dget_or (members entry) ''statusmsg'' (JStr [])))))"

definition task_list_verdict :: "json \<Rightarrow> json \<Rightarrow> bool res" where
  "task_list_verdict upid payload =
     res_bind (jiter (jor (if is_obj payload then dget_or (members payload) ''data'' JNull else JNull) (JList [])))
       (scan_tasks upid)"

definition poll_once :: "'w platform \<Rightarrow> bool \<Rightarrow> string \<Rightarrow> json \<Rightarrow> json \<Rightarrow> ('w, bool) io" where
  "poll_once P insecure base ticket upid =
     io_bind (sdn_request P insecure base ''GET'' ''/cluster/tasks'' ticket (JStr []) None)
       (\<lambda>(status, payload). lift (task_list_verdict upid payload))"

definition apply_timed_out :: "json \<Rightarrow> exn" where
  "apply_timed_out upid =
     Exn TimeoutError (''SDN apply task '' @ py_str upid @ '' not finished within '' @
       int_str task_timeout_s @ ''s'')"

text \<open>\<open>while time.time() < deadline\<close>: \<open>None\<close> is a run that never ends.\<close>

partial_function (option) apply_poll ::
  "'w platform \<Rightarrow> bool \<Rightarrow> string \<Rightarrow> json \<Rightarrow> json \<Rightarrow> int \<Rightarrow> 'w world \<Rightarrow> (json res \<times> 'w world) option" where
  "apply_poll P insecure base ticket upid deadline w =
     (if p_time P (ext w) < deadline then
        (case poll_once P insecure base ticket upid w of
           (v, w1) \<Rightarrow>
             (case v of
                Inl e \<Rightarrow> Some (Inl e, w1)
              | Inr finished \<Rightarrow>
                  if finished then Some (Inr upid, w1)
                  else apply_poll P insecure base ticket upid deadline (snd (sleep P 5 w1))))
      else Some (Inl (apply_timed_out upid), w))"

definition apply_once ::
  "'w platform \<Rightarrow> string \<Rightarrow> string \<Rightarrow> string \<Rightarrow> bool \<Rightarrow> 'w world \<Rightarrow> (json option res \<times> 'w world) option" where
  "apply_once P endpoint username password insecure w =
     (case endpoint_host endpoint of
        Inl e \<Rightarrow> Some (Inl e, w)
      | Inr host \<Rightarrow>
          (let base = ''https://'' @ host @ ''/api2/json'' in
           case start_apply P insecure base username password w of
             (Inl e, w1) \<Rightarrow> Some (Inl e, w1)
           | (Inr (ticket, task), w1) \<Rightarrow>
               (case task of
                  None \<Rightarrow> Some (Inr None, w1)
                | Some upid \<Rightarrow>
                    map_option (apfst (map_sum id Some))
                      (apply_poll P insecure base ticket upid
                        (p_time P (ext w1) + seconds task_timeout_s) w1))))"

definition apply_sdn ::
  "'w platform \<Rightarrow> string \<Rightarrow> string \<Rightarrow> string \<Rightarrow> bool \<Rightarrow> 'w world \<Rightarrow> (unit res \<times> 'w world) option" where
  "apply_sdn P endpoint username password insecure w =
     (if p_dry_run P then
        Some (print_err ''pve-sdn-apply: skipped (dry run / preview)'' w)
      else
        (case apply_once P endpoint username password insecure w of
           None \<Rightarrow> None
         | Some (Inl e, w1) \<Rightarrow> Some (Inl e, w1)
         | Some (Inr upid, w1) \<Rightarrow>
             Some (print_err (''pve-sdn-apply: cluster-wide SDN apply done (task '' @
                     (case upid of None \<Rightarrow> ''None'' | Some u \<Rightarrow> py_str u) @ '')'') w1)))"

section \<open>The loop ends\<close>

text \<open>
  What the code relies on from its clock: it does not go back over a request, and a sleep lasts at least
  as long as asked for.
\<close>

definition clock_runs :: "'w platform \<Rightarrow> bool" where
  "clock_runs P \<longleftrightarrow>
     (\<forall>r x. p_time P x \<le> p_time P (snd (p_urlopen P r x))) \<and>
     (\<forall>n x. p_time P x + seconds n \<le> p_time P (p_sleep P n x))"

lemma urlopen_clock:
  assumes "clock_runs P" and "urlopen P r w = (v, w1)"
  shows "p_time P (ext w) \<le> p_time P (ext w1)"
proof -
  obtain out x where out: "p_urlopen P r (ext w) = (out, x)" by (cases "p_urlopen P r (ext w)")
  with assms(2) have "ext w1 = x" by (cases out) (auto simp: urlopen_def emit_def)
  moreover have "p_time P (ext w) \<le> p_time P (snd (p_urlopen P r (ext w)))"
    using assms(1) by (simp add: clock_runs_def)
  ultimately show ?thesis by (simp add: out)
qed

lemma sleep_clock: "clock_runs P \<Longrightarrow> p_time P (ext w) + seconds n \<le> p_time P (ext (snd (sleep P n w)))"
  by (simp add: clock_runs_def sleep_def emit_def)

lemma poll_clock:
  assumes "clock_runs P" and "poll_once P insecure base ticket upid w = (v, w1)"
  shows "p_time P (ext w) \<le> p_time P (ext w1)"
proof -
  let ?r = "pve_http_request insecure (base @ ''/cluster/tasks'') ''GET'' ticket (JStr []) None"
  obtain u w2 where u: "urlopen P ?r w = (u, w2)" by (cases "urlopen P ?r w")
  with assms(2) have "w1 = w2"
    by (cases u) (auto simp: poll_once_def sdn_request_def send_request_def io_bind_def lift_def
        split: sum.splits prod.splits)
  with urlopen_clock [OF assms(1) u] show ?thesis by simp
qed

definition tasks_query :: "bool \<Rightarrow> string \<Rightarrow> json \<Rightarrow> http_request" where
  "tasks_query insecure base ticket =
     pve_http_request insecure (base @ ''/cluster/tasks'') ''GET'' ticket (JStr []) None"

definition listed_ok :: "json \<Rightarrow> http_outcome \<Rightarrow> bool" where
  "listed_ok upid out \<longleftrightarrow> (\<exists>st payload. decode_outcome out = Inr (st, payload) \<and> task_list_verdict upid payload = Inr True)"

lemma spec_poll_once:
  "spec (poll_once P insecure base ticket upid)
     (\<lambda>es r. \<exists>out. es = [EHttp (tasks_query insecure base ticket) out] \<and> (r = Inr True \<longrightarrow> listed_ok upid out))"
  unfolding poll_once_def sdn_request_def tasks_query_def [symmetric]
proof (rule spec_send_bind, goal_cases)
  case (2 out x)
  then show ?case by (cases x) (auto intro!: spec_lift simp: listed_ok_def)
qed simp

text \<open>The events of a finished loop: polls with a pause after each that did not decide.\<close>

definition poll_events :: "bool \<Rightarrow> string \<Rightarrow> json \<Rightarrow> http_outcome list \<Rightarrow> event list" where
  "poll_events insecure base ticket outs =
     concat (map (\<lambda>out. [EHttp (tasks_query insecure base ticket) out, ESleep 5]) outs)"

lemma poll_events_simps [simp]:
  "poll_events i b t [] = []"
  "poll_events i b t (out # outs) = EHttp (tasks_query i b t) out # ESleep 5 # poll_events i b t outs"
  by (simp_all add: poll_events_def)

definition poll_run ::
  "bool \<Rightarrow> string \<Rightarrow> json \<Rightarrow> json \<Rightarrow> nat \<Rightarrow> event list \<Rightarrow> json res \<Rightarrow> bool" where
  "poll_run insecure base ticket upid n es r \<longleftrightarrow>
     (\<exists>outs last. es = poll_events insecure base ticket outs @ last \<and> length outs \<le> n \<and>
        (case r of
           Inl e \<Rightarrow> last = [] \<and> e = apply_timed_out upid \<or> (\<exists>out. last = [EHttp (tasks_query insecure base ticket) out])
         | Inr v \<Rightarrow> v = upid \<and> (\<exists>out. last = [EHttp (tasks_query insecure base ticket) out] \<and> listed_ok upid out)))"

lemma poll_run_late: "poll_run i b t upid n [] (Inl (apply_timed_out upid))"
  unfolding poll_run_def by (intro exI [of _ "[]"]) simp

lemma poll_run_decided:
  "v = Inl e \<Longrightarrow> poll_run i b t upid n [EHttp (tasks_query i b t) out] (Inl e)"
  "listed_ok upid out \<Longrightarrow> poll_run i b t upid n [EHttp (tasks_query i b t) out] (Inr upid)"
  unfolding poll_run_def by (intro exI [of _ "[]"] exI [of _ "[EHttp (tasks_query i b t) out]"]; simp)+

lemma poll_run_again:
  "poll_run i b t upid n es r \<Longrightarrow> poll_run i b t upid (Suc n) (EHttp (tasks_query i b t) out # ESleep 5 # es) r"
proof -
  assume "poll_run i b t upid n es r"
  then obtain outs last where "es = poll_events i b t outs @ last" "length outs \<le> n"
    "case r of
       Inl e \<Rightarrow> last = [] \<and> e = apply_timed_out upid \<or> (\<exists>out. last = [EHttp (tasks_query i b t) out])
     | Inr v \<Rightarrow> v = upid \<and> (\<exists>out. last = [EHttp (tasks_query i b t) out] \<and> listed_ok upid out)"
    unfolding poll_run_def by (elim exE conjE) (rule that)
  then show ?thesis
    unfolding poll_run_def by (intro exI [of _ "out # outs"] exI [of _ last]) simp
qed

lemma poll_run_requests: "poll_run i b t upid n es r \<Longrightarrow> length (filter (\<lambda>e. e \<noteq> ESleep 5) es) \<le> Suc n"
proof -
  have once: "length (filter (\<lambda>e. e \<noteq> ESleep 5) (poll_events i b t outs)) = length outs" for outs
    by (induction outs) simp_all
  assume "poll_run i b t upid n es r"
  then show ?thesis unfolding poll_run_def by (cases r) (auto simp: once)
qed

text \<open>
  With \<open>n\<close> pauses left before the deadline the loop returns after at most \<open>n\<close> undecided polls, and with
  success only when its last poll lists the task as finished with status OK.
\<close>

lemma apply_poll_returns:
  assumes "clock_runs P"
  shows "deadline \<le> p_time P (ext w) + seconds (5 * int n) \<Longrightarrow>
    \<exists>r w' es. apply_poll P insecure base ticket upid deadline w = Some (r, w') \<and>
      trace w' = trace w @ es \<and> poll_run insecure base ticket upid n es r"
proof (induction n arbitrary: w)
  case 0
  then have "\<not> p_time P (ext w) < deadline" by (simp add: seconds_def)
  then show ?case using poll_run_late by (simp add: apply_poll.simps)
next
  case (Suc n)
  show ?case
  proof (cases "p_time P (ext w) < deadline")
    case False
    then show ?thesis using poll_run_late by (simp add: apply_poll.simps)
  next
    case True
    obtain v w1 where v: "poll_once P insecure base ticket upid w = (v, w1)"
      by (cases "poll_once P insecure base ticket upid w")
    from specD [OF spec_poll_once v] obtain out where out:
      "trace w1 = trace w @ [EHttp (tasks_query insecure base ticket) out]" "v = Inr True \<longrightarrow> listed_ok upid out"
      by metis
    consider e where "v = Inl e" | "v = Inr True" | "v = Inr False" by (cases v) auto
    then show ?thesis
    proof cases
      case 1
      then show ?thesis using True v out poll_run_decided(1) by (simp add: apply_poll.simps)
    next
      case 2
      then show ?thesis using True v out poll_run_decided(2) by (simp add: apply_poll.simps)
    next
      case 3
      let ?w2 = "snd (sleep P 5 w1)"
      have step: "apply_poll P insecure base ticket upid deadline w = apply_poll P insecure base ticket upid deadline ?w2"
        using True v 3 by (subst apply_poll.simps) simp
      have "deadline \<le> p_time P (ext ?w2) + seconds (5 * int n)"
        using Suc.prems poll_clock [OF assms v] sleep_clock [OF assms, of w1 5] by (simp add: seconds_def)
      from Suc.IH [OF this] obtain r w' es where ih:
        "apply_poll P insecure base ticket upid deadline ?w2 = Some (r, w')"
        "trace w' = trace ?w2 @ es" "poll_run insecure base ticket upid n es r"
        by blast
      have "trace ?w2 = trace w @ [EHttp (tasks_query insecure base ticket) out, ESleep 5]"
        using out(1) by (simp add: sleep_def emit_def)
      with ih step poll_run_again [OF ih(3)] show ?thesis by fastforce
    qed
  qed
qed

text \<open>
  The same of a run that returned, whatever the clock does: by computation induction over the loop.
\<close>

lemma apply_poll_sound:
  assumes "apply_poll P insecure base ticket upid deadline w = Some y"
  shows "\<exists>es n. trace (snd y) = trace w @ es \<and> poll_run insecure base ticket upid n es (fst y)"
proof (rule apply_poll.raw_induct [where Pa = "\<lambda>((((((P, insecure), base), ticket), upid), deadline), w) y.
      \<exists>es n. trace (snd y) = trace w @ es \<and> poll_run insecure base ticket upid n es (fst y)", OF _ assms,
      unfolded prod.case], goal_cases)
  case (1 loop P insecure base ticket upid deadline w y)
  note IH = 1(1) and run = 1(2)
  obtain v w1 where v: "poll_once P insecure base ticket upid w = (v, w1)"
    by (cases "poll_once P insecure base ticket upid w")
  from specD [OF spec_poll_once v] obtain out where out:
    "trace w1 = trace w @ [EHttp (tasks_query insecure base ticket) out]" "v = Inr True \<longrightarrow> listed_ok upid out"
    by metis
  consider "\<not> p_time P (ext w) < deadline" | e where "p_time P (ext w) < deadline" "v = Inl e"
    | "p_time P (ext w) < deadline" "v = Inr True" | "p_time P (ext w) < deadline" "v = Inr False"
    by (cases v) auto
  then show ?case
  proof cases
    case 1
    with run have "y = (Inl (apply_timed_out upid), w)" by simp
    then show ?thesis using poll_run_late by fastforce
  next
    case 2
    with run v have "y = (Inl e, w1)" by simp
    then show ?thesis using out poll_run_decided(1) by fastforce
  next
    case 3
    with run v have "y = (Inr upid, w1)" by simp
    then show ?thesis using out 3 poll_run_decided(2) by fastforce
  next
    case 4
    let ?w2 = "snd (sleep P 5 w1)"
    from 4 run v have "loop P insecure base ticket upid deadline ?w2 = Some y" by simp
    from IH [OF this] obtain es n where
      "trace (snd y) = trace ?w2 @ es" "poll_run insecure base ticket upid n es (fst y)" by blast
    moreover have "trace ?w2 = trace w @ [EHttp (tasks_query insecure base ticket) out, ESleep 5]"
      using out(1) by (simp add: sleep_def emit_def)
    ultimately show ?thesis using poll_run_again by fastforce
  qed
qed

section \<open>The whole apply\<close>

definition apply_query :: "bool \<Rightarrow> string \<Rightarrow> json \<Rightarrow> json \<Rightarrow> http_request" where
  "apply_query insecure base ticket csrf =
     pve_http_request insecure (base @ ''/cluster/sdn/'') ''PUT'' ticket csrf None"

definition started :: "bool \<Rightarrow> string \<Rightarrow> event list \<Rightarrow> json \<Rightarrow> json option \<Rightarrow> bool" where
  "started insecure base es ticket task \<longleftrightarrow>
     (\<exists>login csrf out payload. es = [login, EHttp (apply_query insecure base ticket csrf) out] \<and>
        decode_outcome out = Inr (200, payload) \<and> task = apply_task payload)"

lemma spec_sdn_ticket:
  "spec (sdn_ticket P insecure base username password) (\<lambda>es r. \<exists>login. es = [login])"
  unfolding sdn_ticket_def sdn_request_def
proof (rule spec_send_bind, goal_cases)
  case (2 out x)
  show ?case
    by (cases x)
      (auto intro!: spec_if spec_ret spec_raise spec_bind [where R = "\<lambda>es r. es = []"] spec_lift)
qed simp

lemma spec_start_apply:
  "spec (start_apply P insecure base username password)
     (\<lambda>es r. length es \<le> 2 \<and> (\<forall>ticket task. r = Inr (ticket, task) \<longrightarrow> started insecure base es ticket task))"
  unfolding start_apply_def
proof (rule spec_bind [OF spec_sdn_ticket], goal_cases)
  case (2 es tc)
  then obtain login where login: "es = [login]" by blast
  obtain ticket csrf where tc: "tc = (ticket, csrf)" by (cases tc)
  show ?case
    unfolding tc prod.case sdn_request_def apply_query_def [symmetric]
  proof (rule spec_send_bind, goal_cases)
    case (2 out x)
    obtain st payload where x: "x = (st, payload)" by (cases x)
    show ?case
      unfolding x prod.case
    proof (rule spec_if, goal_cases)
      case 2
      show ?case
        by (rule spec_ret) (use 2 \<open>decode_outcome out = Inr x\<close> x login in \<open>auto simp: started_def\<close>)
    qed (auto intro!: spec_raise simp: login)
  qed (simp add: login)
qed auto

lemma apply_once_cases:
  assumes "endpoint_host endpoint = Inr host"
  obtains r1 w1 es1 where
    "start_apply P insecure (''https://'' @ host @ ''/api2/json'') username password w = (r1, w1)"
    "trace w1 = trace w @ es1" "length es1 \<le> 2"
    "\<forall>ticket task. r1 = Inr (ticket, task) \<longrightarrow> started insecure (''https://'' @ host @ ''/api2/json'') es1 ticket task"
proof -
  let ?base = "''https://'' @ host @ ''/api2/json''"
  obtain r1 w1 where run: "start_apply P insecure ?base username password w = (r1, w1)"
    by (cases "start_apply P insecure ?base username password w")
  from specD [OF spec_start_apply run] obtain es1 where "trace w1 = trace w @ es1"
    "length es1 \<le> 2 \<and> (\<forall>ticket task. r1 = Inr (ticket, task) \<longrightarrow> started insecure ?base es1 ticket task)" .
  with run show thesis using that by blast
qed

text \<open>
  C20: with a clock that requests do not turn back and that a sleep advances, the apply
  returns, with a result or an exception, and has then made at most 63 requests: the login, the apply and
  at most 61 polls.
\<close>

theorem apply_terminates:
  assumes "clock_runs P"
  shows "\<exists>r w' es. apply_once P endpoint username password insecure w = Some (r, w') \<and> trace w' = trace w @ es \<and>
     length (filter (\<lambda>e. e \<noteq> ESleep 5) es) \<le> 63"
proof (cases "endpoint_host endpoint")
  case (Inl e)
  then show ?thesis by (simp add: apply_once_def)
next
  case (Inr host)
  let ?base = "''https://'' @ host @ ''/api2/json''"
  from apply_once_cases [OF Inr] obtain r1 w1 es1 where
    run: "start_apply P insecure ?base username password w = (r1, w1)"
    and es1: "trace w1 = trace w @ es1" "length es1 \<le> 2" by metis
  have short: "length (filter (\<lambda>e. e \<noteq> ESleep 5) es1) \<le> 2" using es1(2) length_filter_le le_trans by blast
  show ?thesis
  proof (cases "\<exists>ticket upid. r1 = Inr (ticket, Some upid)")
    case False
    with run Inr es1 short show ?thesis by (cases r1) (auto simp: apply_once_def split: option.splits)
  next
    case True
    then obtain ticket upid where r1: "r1 = Inr (ticket, Some upid)" by blast
    let ?deadline = "p_time P (ext w1) + seconds task_timeout_s"
    have "?deadline \<le> p_time P (ext w1) + seconds (5 * int 60)" by (simp add: seconds_def task_timeout_s_def)
    from apply_poll_returns [OF assms this] obtain r w' es where
      poll: "apply_poll P insecure ?base ticket upid ?deadline w1 = Some (r, w')"
      and es: "trace w' = trace w1 @ es" "poll_run insecure ?base ticket upid 60 es r"
      by blast
    from poll_run_requests [OF es(2)] have "length (filter (\<lambda>e. e \<noteq> ESleep 5) es) \<le> 61" by simp
    with run Inr es(1) es1 r1 poll short show ?thesis by (auto simp: apply_once_def Let_def)
  qed
qed


text \<open>
  In a preview the apply only logs that it is skipped: no request, no wait, no change.
\<close>

theorem apply_preview:
  assumes "p_dry_run P"
  shows "apply_sdn P endpoint username password insecure w =
     Some (Inr (), w\<lparr>trace := trace w @ [EPrint True ''pve-sdn-apply: skipped (dry run / preview)'']\<rparr>)"
  using assms by (simp add: apply_sdn_def print_err_def emit_def)

section \<open>The properties at work\<close>

definition sdn_reply :: "http_request \<Rightarrow> json" where
  "sdn_reply r =
     (if req_url r = ''https://h/api2/json/access/ticket''
      then JObj [(''data'', JObj [(''ticket'', JStr ''T'')])]
      else if req_method r = ''PUT'' then JObj [(''data'', JStr ''UPID:1'')]
      else JObj [(''data'', JList [JObj [(''upid'', JStr ''UPID:1''), (''status'', JStr ''OK'')]])])"

text \<open>A platform whose clock moves with every sleep, and a cluster that never lists the task.\<close>

definition silent_reply :: "http_request \<Rightarrow> json" where
  "silent_reply r =
     (if req_method r = ''POST'' then JObj [(''data'', JObj [(''ticket'', JStr ''T'')])]
      else if req_method r = ''PUT'' then JObj [(''data'', JStr ''UPID:1'')]
      else JObj [(''data'', JList [])])"

definition ticking :: "(http_request \<Rightarrow> json) \<Rightarrow> int platform" where
  "ticking reply =
     \<lparr>p_urlopen = \<lambda>r x. (HttpOk 200 (json_dumps None (reply r)), x), p_pexpect = False,
      p_spawn = \<lambda>argv t x. (Inr (), x), p_expect = \<lambda>ps x. (Matched 0 None, x),
      p_sendline = \<lambda>s x. (Inr (), x), p_close = \<lambda>x. (Inr (), x), p_exitstatus = \<lambda>x. None,
      p_time = \<lambda>x. x, p_sleep = \<lambda>n x. x + seconds n, p_environ = \<lambda>k. None, p_expanduser = \<lambda>p. p,
      p_write_error = \<lambda>p. None, p_dry_run = False,
      p_run = \<lambda>r x. (Inr \<lparr>pr_returncode = 0, pr_stdout = [], pr_stderr = []\<rparr>, x), p_which = \<lambda>n. None,
      p_token_urlsafe = \<lambda>n x. (''token'', x), p_repo_root = ''/repo'',
      p_popen = \<lambda>r x. (Inr (), x), p_new_session = \<lambda>x. (0, x),
      p_web = \<lambda>c r x. (Inl (Exn OSError []), x), p_html5 = \<lambda>n. None\<rparr>"

lemma apply_terminates_witness:
  "\<exists>r w' es. apply_once (ticking silent_reply) ''h'' ''root@pam'' ''pw'' True
       \<lparr>ext = 0, files = \<lambda>p. None, trace = []\<rparr> = Some (r, w') \<and>
     trace w' = es \<and> length (filter (\<lambda>e. e \<noteq> ESleep 5) es) \<le> 63"
proof -
  have "clock_runs (ticking silent_reply)" by (simp add: clock_runs_def ticking_def)
  from apply_terminates [OF this, of "''h''" "''root@pam''" "''pw''" True "\<lparr>ext = 0, files = \<lambda>p. None, trace = []\<rparr>"]
  show ?thesis by simp
qed

lemma demo_tasks:
  "task_list_verdict (JStr ''UPID:1'')
     (JObj [(''data'', JList [JObj [(''upid'', JStr ''UPID:1''), (''status'', JStr ''OK'')]])]) = Inr True"
  by code_simp

lemma sdn_host: "endpoint_host ''h'' = Inr ''h''"
  by code_simp

lemma sdn_run:
  "\<exists>w'. apply_once (scripted sdn_reply [] False) ''h'' ''root@pam'' ''pw'' True blank =
     Some (Inr (Some (JStr ''UPID:1'')), w')"
  by (simp add: apply_once_def sdn_host start_apply_def sdn_ticket_def sdn_request_def sdn_reply_def io_eval
      payload_data_or_empty_def dget_or_def apply_task_def apply_poll.simps poll_once_def demo_tasks
      Let_def seconds_def task_timeout_s_def del: io_run_simps)


lemma apply_preview_witness:
  "apply_sdn (scripted sdn_reply [] True) ''h'' ''root@pam'' ''pw'' True blank =
     Some (Inr (), blank\<lparr>trace := [EPrint True ''pve-sdn-apply: skipped (dry run / preview)'']\<rparr>)"
  using apply_preview [of "scripted sdn_reply [] True"] by (simp add: scripted_def)

end
