(* ===== verification/Host_Ssh.thy ===== *)
theory Host_Ssh
  imports Scripted
begin

text \<open>
  Running a command on a PVE host over root password-SSH, as \<open>pve_cleanup.py\<close> and \<open>sdn_fdb.py\<close> both do:
  the quoting of the remote command line, the \<open>pexpect\<close> dialogue, and the redaction of the password in the
  captured output. The shell that reads the command line is modelled as far as the quoting needs it
  (words, quotes, blanks), and \<open>shlex.quote\<close> is shown to be a codec for it.
\<close>

section \<open>shlex.quote and the shell that reads it\<close>

definition shell_safe :: "char \<Rightarrow> bool" where
  "shell_safe c \<longleftrightarrow> is_alpha c \<or> is_digit c \<or> c \<in> set ''_@%+=:,./-''"

text \<open>An embedded quote leaves the quoted part, is written in double quotes, and enters it again.\<close>

definition quote_break :: string where
  "quote_break = [squote, dquote, squote, dquote, squote]"

definition shlex_quote :: "string \<Rightarrow> string" where
  "shlex_quote s =
     (if s = [] then [squote, squote]
      else if list_all shell_safe s then s
      else squote # py_replace [squote] quote_break s @ [squote])"

text \<open>
  The word splitting of a POSIX shell on text without expansions: blanks separate words, quotes keep
  their content together. A character that the shell treats specially outside quotes ends the
  reading (\<open>None\<close>), and so does an open quote.
\<close>

datatype quoting = Bare | InSingle | InDouble

fun sh_read :: "quoting \<Rightarrow> string option \<Rightarrow> string \<Rightarrow> string list option" where
  "sh_read Bare word [] = Some (case word of None \<Rightarrow> [] | Some v \<Rightarrow> [v])"
| "sh_read InSingle word [] = None"
| "sh_read InDouble word [] = None"
| "sh_read Bare word (c # cs) =
     (if c = CHR '' '' then
        map_option ((@) (case word of None \<Rightarrow> [] | Some v \<Rightarrow> [v])) (sh_read Bare None cs)
      else if c = squote then sh_read InSingle (Some (case word of None \<Rightarrow> [] | Some v \<Rightarrow> v)) cs
      else if c = dquote then sh_read InDouble (Some (case word of None \<Rightarrow> [] | Some v \<Rightarrow> v)) cs
      else if shell_safe c then sh_read Bare (Some ((case word of None \<Rightarrow> [] | Some v \<Rightarrow> v) @ [c])) cs
      else None)"
| "sh_read InSingle word (c # cs) =
     (if c = squote then sh_read Bare word cs
      else sh_read InSingle (Some ((case word of None \<Rightarrow> [] | Some v \<Rightarrow> v) @ [c])) cs)"
| "sh_read InDouble word (c # cs) =
     (if c = dquote then sh_read Bare word cs
      else if c \<in> {CHR ''$'', CHR 0x60, backslash} then None
      else sh_read InDouble (Some ((case word of None \<Rightarrow> [] | Some v \<Rightarrow> v) @ [c])) cs)"

definition sh_words :: "string \<Rightarrow> string list option" where
  "sh_words s = sh_read Bare None s"

lemma shell_safe_not: "\<not> shell_safe (CHR '' '')" "\<not> shell_safe squote" "\<not> shell_safe dquote"
  by code_simp+

lemma sh_read_safe:
  "list_all shell_safe s \<Longrightarrow> s \<noteq> [] \<or> word \<noteq> None \<Longrightarrow>
     sh_read Bare word (s @ r) = sh_read Bare (Some ((case word of None \<Rightarrow> [] | Some v \<Rightarrow> v) @ s)) r"
proof (induction s arbitrary: word)
  case (Cons c s)
  have "c \<noteq> CHR '' ''" "c \<noteq> squote" "c \<noteq> dquote" using Cons.prems(1) shell_safe_not by auto
  with Cons show ?case by simp
qed auto

lemma py_replace_char:
  "py_replace [q] new (c # cs) = (if c = q then new else [c]) @ py_replace [q] new cs"
  by (simp add: eq_commute)

lemma sh_read_single:
  "sh_read InSingle (Some v) (py_replace [squote] quote_break s @ squote # r) = sh_read Bare (Some (v @ s)) r"
proof (induction s arbitrary: v)
  case (Cons c s)
  show ?case
    unfolding py_replace_char using Cons by (cases "c = squote") (simp_all add: quote_break_def)
qed simp

text \<open>A quoted text in command position, followed by a blank or the end, is read as one word.\<close>

lemma append_one: "(@) [x] = (#) x"
  by (simp add: fun_eq_iff)

lemma sh_words_quote_Cons:
  "sh_words (shlex_quote s @ CHR '' '' # r) = map_option ((#) s) (sh_words r)"
proof (cases "s = [] \<or> \<not> list_all shell_safe s")
  case True
  then show ?thesis
    using sh_read_single [of "[]" s "CHR '' '' # r"]
    by (auto simp: sh_words_def shlex_quote_def append_one)
next
  case False
  then show ?thesis
    using sh_read_safe [of s None "CHR '' '' # r"]
    by (auto simp: sh_words_def shlex_quote_def append_one)
qed

lemma sh_words_quote: "sh_words (shlex_quote s) = Some [s]"
proof (cases "s = [] \<or> \<not> list_all shell_safe s")
  case True
  then show ?thesis
    using sh_read_single [of "[]" s "[]"] by (auto simp: sh_words_def shlex_quote_def append_one)
next
  case False
  then show ?thesis
    using sh_read_safe [of s None "[]"] by (auto simp: sh_words_def shlex_quote_def append_one)
qed

definition sh_word :: "string \<Rightarrow> string option" where
  "sh_word s = (case sh_words s of Some [v] \<Rightarrow> Some v | _ \<Rightarrow> None)"

interpretation shell_word: codec shlex_quote sh_word "\<lambda>_. True"
  by unfold_locales (simp add: sh_word_def sh_words_quote)

section \<open>The command line\<close>

definition ssh_client_opts :: "string list" where
  "ssh_client_opts =
     [''-o'', ''StrictHostKeyChecking=accept-new'', ''-o'', ''UserKnownHostsFile=/dev/null'',
      ''-o'', ''BatchMode=no'', ''-o'', ''ConnectTimeout=10'']"

definition ssh_argv :: "string \<Rightarrow> string \<Rightarrow> string list" where
  "ssh_argv host remote = ''ssh'' # ssh_client_opts @ [''root@'' @ host, remote]"

definition bash_line :: "string \<Rightarrow> string" where
  "bash_line cmd = ''bash -lc '' @ shlex_quote cmd"

text \<open>Whatever the command, the login shell of the host hands it to \<open>bash\<close> as one argument.\<close>

lemma bash_line_words: "sh_words (bash_line cmd) = Some [''bash'', ''-lc'', cmd]"
proof -
  have safe: "shlex_quote ''bash'' = ''bash''" "shlex_quote ''-lc'' = ''-lc''" by code_simp+
  have "bash_line cmd = shlex_quote ''bash'' @ CHR '' '' # shlex_quote ''-lc'' @ CHR '' '' # shlex_quote cmd"
    by (simp add: bash_line_def safe)
  then show ?thesis by (simp only: sh_words_quote_Cons sh_words_quote) simp
qed

section \<open>The dialogue\<close>

text \<open>
  The output so far and whether the child timed out. A \<open>pexpect.TIMEOUT\<close> raised by a call counts as a
  time-out; what was captured before it is kept.
\<close>

definition expect_or_timeout :: "('w, nat \<times> string option) io \<Rightarrow> ('w, (nat \<times> string option) option) io" where
  "expect_or_timeout m =
     io_except [PexpectTimeout] (io_bind m (\<lambda>r. ret (Some r))) (\<lambda>_. ret None)"

definition or_empty :: "string option \<Rightarrow> string" where
  "or_empty b = (case b of None \<Rightarrow> [] | Some s \<Rightarrow> s)"

definition ssh_dialogue :: "'w platform \<Rightarrow> string \<Rightarrow> ('w, string list \<times> bool) io" where
  "ssh_dialogue P password =
     io_bind (expect_or_timeout (expect P [Pat ''assword:'', PatTimeout, PatEof])) (\<lambda>first.
     case first of
       None \<Rightarrow> ret ([], True)
     | Some (idx, before) \<Rightarrow>
         if idx = 0 then
           io_bind (expect_or_timeout (io_then (sendline P password) (expect P [PatTimeout, PatEof])))
             (\<lambda>second.
             case second of
               None \<Rightarrow> ret ([or_empty before], True)
             | Some (idx2, before2) \<Rightarrow> ret ([or_empty before, or_empty before2], idx2 = 0))
         else ret ([or_empty before], idx = 1))"

definition ssh_session :: "'w platform \<Rightarrow> string list \<Rightarrow> int \<Rightarrow> string \<Rightarrow> ('w, string list \<times> bool) io" where
  "ssh_session P argv timeout password =
     io_then (spawn P argv timeout) (io_finally (ssh_dialogue P password) (close_child P))"

section \<open>Redaction\<close>

definition redact :: "string \<Rightarrow> string list \<Rightarrow> string" where
  "redact password parts = py_replace password ''<redacted>'' (py_join [newline] parts)"

definition squeeze :: "string \<Rightarrow> string" where
  "squeeze out = py_join '' '' (py_words out)"

text \<open>
  The passwords that redaction protects: non-empty, without blanks and without the marker's brackets, and
  not a piece of the marker's own word.
\<close>

definition protected_password :: "string \<Rightarrow> bool" where
  "protected_password p \<longleftrightarrow>
     p \<noteq> [] \<and> list_all (\<lambda>c. \<not> is_ws c \<and> c \<noteq> CHR ''<'' \<and> c \<noteq> CHR ''>'') p \<and> \<not> sublist p ''redacted''"

lemma is_ws_blank: "is_ws (CHR '' '')"
  by code_simp

lemma protected_passwordD:
  assumes "protected_password p"
  shows "p \<noteq> []" and "\<forall>c \<in> set p. \<not> is_ws c" and "CHR '' '' \<notin> set p"
  using assms is_ws_blank by (auto simp only: protected_password_def list_all_iff)

lemma redact_removes: "protected_password p \<Longrightarrow> \<not> sublist p (redact p parts)"
  unfolding redact_def protected_password_def
  by (rule replace_removes [where a = "CHR ''<''" and b = "CHR ''>''" and m = "''redacted''"])
    (auto simp: list_all_iff)

lemma sublist_trans: "sublist a b \<Longrightarrow> sublist b c \<Longrightarrow> sublist a c"
  using sublist_order.order.trans .

lemma redact_tail: "protected_password p \<Longrightarrow> \<not> sublist p (last_n k (redact p parts))"
  using redact_removes sublist_trans [OF _ sublist_last_n] by blast

lemma redact_squeezed: "protected_password p \<Longrightarrow> \<not> sublist p (last_n k (squeeze (redact p parts)))"
proof
  assume p: "protected_password p" and s: "sublist p (last_n k (squeeze (redact p parts)))"
  from s have "sublist p (squeeze (redact p parts))" by (rule sublist_trans) (rule sublist_last_n)
  then have "sublist p (redact p parts)"
    unfolding squeeze_def by (rule sublist_squeeze) (use protected_passwordD [OF p] in simp_all)
  with redact_removes [OF p] show False by blast
qed

text \<open>A message made of a text, a blank and a tail contains the password only if one of the two does.\<close>

lemma sublist_message:
  "protected_password p \<Longrightarrow> \<not> sublist p a \<Longrightarrow> \<not> sublist p b \<Longrightarrow> \<not> sublist p (a @ CHR '' '' # b)"
proof
  assume p: "protected_password p" "\<not> sublist p a" "\<not> sublist p b" and s: "sublist p (a @ CHR '' '' # b)"
  note nb = protected_passwordD(3) [OF p(1)] and ne = protected_passwordD(1) [OF p(1)]
  from s consider "sublist p a" | "sublist p (CHR '' '' # b)"
    | q1 q2 where "p = q1 @ q2" "suffix q1 a" "prefix q2 (CHR '' '' # b)"
    unfolding sublist_append by blast
  then show False
  proof cases
    case 2
    with nb ne p(3) show False by (cases p) (auto simp: sublist_Cons_right)
  next
    case 3
    with nb have "q2 = []" by (cases q2) auto
    with 3 p(2) show False by (auto dest: suffix_imp_sublist)
  qed (use p(2) in blast)
qed

section \<open>Effects\<close>

text \<open>All that a session does besides reading the child: start it, send the password, close it.\<close>

definition session_event :: "string list \<Rightarrow> string \<Rightarrow> event \<Rightarrow> bool" where
  "session_event argv password e \<longleftrightarrow> e = ESpawn argv \<or> e = ESendline password \<or> e = EClose"

lemma only_expect_or_timeout [only_intros]: "only Q m \<Longrightarrow> only Q (expect_or_timeout m)"
  unfolding expect_or_timeout_def by (intro only_intros)

lemma only_ssh_dialogue: "only (\<lambda>e. e = ESendline password) (ssh_dialogue P password)"
  unfolding ssh_dialogue_def by (intro only_intros) simp_all

lemma only_ssh_session: "only (session_event argv password) (ssh_session P argv timeout password)"
  unfolding ssh_session_def
  by (intro only_intros only_weaken [OF only_ssh_dialogue]) (simp_all add: session_event_def)

lemma session_event_not_write: "session_event argv password e \<Longrightarrow> not_write e"
  by (auto simp: session_event_def not_write_def)

end
