(* ===== verification/Pve_Cleanup.thy ===== *)
theory Pve_Cleanup
  imports Host_Ssh
begin

text \<open>
  \<open>infra/pulumi/modules/pve_cleanup.py\<close>: the API client with its two ways to authenticate, the search for
  storage volumes whose VM is gone, and their removal over the API with the host fallback. The lemmas
  show what the search finds, that without \<open>apply\<close> nothing is changed, that with it exactly the found
  volumes are deleted, how long a task is polled, and that the host password stays out of the messages.
\<close>

section \<open>Settings\<close>

record cleanup_settings =
  cs_endpoint :: string
  cs_username :: string
  cs_password :: string
  cs_node_names :: "string list"
  cs_datastore_ids :: "string list"
  cs_insecure :: bool
  cs_fallback_file :: "string option"
  cs_node_ssh_hosts :: "(string, string) dict option"

definition ssh_host_for :: "cleanup_settings \<Rightarrow> string \<Rightarrow> string" where
  "ssh_host_for s node =
     (case cs_node_ssh_hosts s of
        None \<Rightarrow> node
      | Some hosts \<Rightarrow> if hosts \<noteq> [] then dget_or hosts node node else node)"

definition has_fallback :: "cleanup_settings \<Rightarrow> bool" where
  "has_fallback s \<longleftrightarrow> cs_fallback_file s \<noteq> None \<and> cs_fallback_file s \<noteq> Some []"

definition read_fallback_password :: "cleanup_settings \<Rightarrow> ('w, string) io" where
  "read_fallback_password s =
     (case cs_fallback_file s of
        None \<Rightarrow> raise (Exn RuntimeError ''no fallback password file configured'')
      | Some path \<Rightarrow>
          if path = [] then raise (Exn RuntimeError ''no fallback password file configured'')
          else
            io_bind
              (io_except [OSError] (io_bind (read_file path) (\<lambda>t. ret (py_strip t)))
                (\<lambda>exc. raise (Exn RuntimeError (''fallback password file unreadable: '' @ exn_msg exc))))
              (\<lambda>password.
              if password = [] then raise (Exn RuntimeError ''fallback password file is empty'')
              else ret password))"

section \<open>The client\<close>

record pve_client =
  pc_settings :: cleanup_settings
  pc_host :: string

definition pve_client_init :: "cleanup_settings \<Rightarrow> pve_client res" where
  "pve_client_init s =
     res_bind (endpoint_host (cs_endpoint s)) (\<lambda>host. Inr \<lparr>pc_settings = s, pc_host = host\<rparr>)"

definition pve_url :: "pve_client \<Rightarrow> string \<Rightarrow> string" where
  "pve_url c path = ''https://'' @ pc_host c @ path"

definition pve_request ::
  "'w platform \<Rightarrow> pve_client \<Rightarrow> string \<Rightarrow> string \<Rightarrow> json \<Rightarrow> json \<Rightarrow> (string, json) dict option \<Rightarrow>
     ('w, int \<times> json) io" where
  "pve_request P c meth path ticket csrf form =
     send_request P
       (pve_http_request (cs_insecure (pc_settings c)) (pve_url c path) meth ticket csrf form)"

definition try_ticket :: "'w platform \<Rightarrow> pve_client \<Rightarrow> string \<Rightarrow> string \<Rightarrow> ('w, json \<times> json) io" where
  "try_ticket P c username password =
     io_bind
       (pve_request P c ''POST'' ''/api2/json/access/ticket'' (JStr []) (JStr [])
         (Some [(''new-format'', JInt 1), (''username'', JStr username), (''password'', JStr password)]))
       (\<lambda>(status, payload).
     io_bind (lift (payload_data_or_empty payload)) (\<lambda>data.
     io_bind (lift (jget data ''ticket'' (JStr []))) (\<lambda>ticket.
     if status \<noteq> 200 \<or> \<not> truthy ticket
     then raise (Exn RuntimeError
            (''Proxmox ticket auth failed ('' @ int_str status @ ''): '' @ py_str payload))
     else io_bind (lift (jget data ''CSRFPreventionToken'' (JStr []))) (\<lambda>csrf. ret (ticket, csrf)))))"

definition pve_auth :: "'w platform \<Rightarrow> pve_client \<Rightarrow> ('w, json \<times> json) io" where
  "pve_auth P c =
     (let s = pc_settings c in
      io_except [RuntimeError] (try_ticket P c (cs_username s) (cs_password s))
        (\<lambda>exc.
           if \<not> has_fallback s then raise exc
           else
             io_then
               (print_line (''[pve_cleanup] provider credentials rejected by PAM; '' @
                            ''falling back to host password file''))
               (io_bind (read_fallback_password s) (\<lambda>password.
                try_ticket P c (cs_username s) password))))"

text \<open>A Python set of decoded values: membership is by equality, and every element must be hashable.\<close>

definition jmember :: "json \<Rightarrow> json list \<Rightarrow> bool" where
  "jmember v vs = list_ex (jeq v) vs"

definition require_hashable :: "json \<Rightarrow> json res" where
  "require_hashable v = (if hashable v then Inr v else throw TypeError ''unhashable type'')"

definition has_vmid :: "json \<Rightarrow> bool" where
  "has_vmid v \<longleftrightarrow> is_obj v \<and> ''vmid'' \<in> set (dkeys (members v))"

definition vmids_of :: "json \<Rightarrow> json list res" where
  "vmids_of payload =
     res_bind (jiter (payload_entries payload payload)) (\<lambda>entries.
     res_map (\<lambda>v. res_bind (jitem v ''vmid'') require_hashable) (filter has_vmid entries))"

definition node_vmids :: "'w platform \<Rightarrow> pve_client \<Rightarrow> json \<Rightarrow> string \<Rightarrow> ('w, json list) io" where
  "node_vmids P c ticket node =
     io_bind (pve_request P c ''GET'' (''/api2/json/nodes/'' @ node @ ''/qemu'') ticket (JStr []) None)
       (\<lambda>(status, payload).
     if status \<noteq> 200
     then raise (Exn RuntimeError
            (''Failed to list VMs on node: HTTP '' @ int_str status @ '': '' @ py_str payload))
     else lift (vmids_of payload))"

definition mac_of_config :: "json \<Rightarrow> int \<Rightarrow> string" where
  "mac_of_config payload nic_index =
     (case (if is_obj payload then dget_or (members payload) ''data'' JNull else JNull) of
        JObj data \<Rightarrow>
          (case dget_or data (''net'' @ int_str nic_index) JNull of
             JStr net \<Rightarrow> (case search_mac ''virtio='' net of Some m \<Rightarrow> py_lower m | None \<Rightarrow> [])
           | _ \<Rightarrow> [])
      | _ \<Rightarrow> [])"

definition node_vm_mac ::
  "'w platform \<Rightarrow> pve_client \<Rightarrow> json \<Rightarrow> string \<Rightarrow> int \<Rightarrow> int \<Rightarrow> ('w, string) io" where
  "node_vm_mac P c ticket node vmid nic_index =
     io_bind
       (pve_request P c ''GET'' (''/api2/json/nodes/'' @ node @ ''/qemu/'' @ int_str vmid @ ''/config'')
         ticket (JStr []) None)
       (\<lambda>(status, payload). if status \<noteq> 200 then ret [] else ret (mac_of_config payload nic_index))"

text \<open>\<open>c.get("volid", "")\<close> where its string methods are used.\<close>

definition volid_of :: "json \<Rightarrow> string res" where
  "volid_of entry =
     res_bind (jget entry ''volid'' (JStr [])) (\<lambda>v.
     case v of JStr s \<Rightarrow> Inr s | _ \<Rightarrow> throw AttributeError ''startswith'')"

definition content_of :: "string \<Rightarrow> json \<Rightarrow> json list res" where
  "content_of datastore payload =
     res_bind (jiter (payload_entries payload payload)) (\<lambda>entries.
     res_filter (\<lambda>c. res_bind (volid_of c) (\<lambda>v. Inr (prefix (datastore @ '':'') v))) entries)"

definition node_content :: "'w platform \<Rightarrow> pve_client \<Rightarrow> json \<Rightarrow> string \<Rightarrow> string \<Rightarrow> ('w, json list) io" where
  "node_content P c ticket datastore node =
     io_bind
       (pve_request P c ''GET'' (''/api2/json/nodes/'' @ node @ ''/storage/'' @ datastore @ ''/content'')
         ticket (JStr []) None)
       (\<lambda>(status, payload).
     if status \<noteq> 200
     then raise (Exn RuntimeError
            (''Failed to list storage '' @ [squote] @ datastore @ [squote] @ '' content: HTTP '' @
             int_str status @ '': '' @ py_str payload))
     else lift (content_of datastore payload))"

text \<open>One poll of a task: \<open>None\<close> while it runs, else the outcome, empty for success.\<close>

definition task_outcome :: "int \<Rightarrow> json \<Rightarrow> string option res" where
  "task_outcome status payload =
     (if status \<noteq> 200 then Inr (Some (''task poll HTTP '' @ int_str status @ '': '' @ py_str payload))
      else
        (let data = (if is_obj payload then dget_or (members payload) ''data'' payload else JObj []) in
         res_bind (jget data ''status'' JNull) (\<lambda>st.
         if jeq st (JStr ''stopped'') then
           res_bind (jget data ''exitstatus'' JNull) (\<lambda>ex.
           Inr (Some (if jeq ex (JStr ''OK'') \<or> jeq ex (JInt 0) \<or> jeq ex (JStr ''0'') then []
                      else py_str ex)))
         else Inr None)))"

fun poll_task :: "nat \<Rightarrow> 'w platform \<Rightarrow> pve_client \<Rightarrow> json \<Rightarrow> string \<Rightarrow> string \<Rightarrow> ('w, string) io" where
  "poll_task 0 P c ticket upid node = ret ''task still running after poll window''"
| "poll_task (Suc n) P c ticket upid node =
     io_bind
       (pve_request P c ''GET'' (''/api2/json/nodes/'' @ node @ ''/tasks/'' @ upid @ ''/status'')
         ticket (JStr []) None)
       (\<lambda>(status, payload).
     io_bind (lift (task_outcome status payload)) (\<lambda>r.
     case r of Some s \<Rightarrow> ret s | None \<Rightarrow> poll_task n P c ticket upid node))"

definition wait_task :: "'w platform \<Rightarrow> pve_client \<Rightarrow> json \<Rightarrow> string \<Rightarrow> string \<Rightarrow> ('w, string) io" where
  "wait_task P c ticket upid node = poll_task 60 P c ticket upid node"

definition volume_path :: "string \<Rightarrow> string \<Rightarrow> string \<Rightarrow> string" where
  "volume_path node datastore volume =
     ''/api2/json/nodes/'' @ node @ ''/storage/'' @ datastore @ ''/content/'' @ volume"

definition delete_content ::
  "'w platform \<Rightarrow> pve_client \<Rightarrow> json \<Rightarrow> json \<Rightarrow> string \<Rightarrow> string \<Rightarrow> string \<Rightarrow> ('w, string) io" where
  "delete_content P c ticket csrf datastore volume node =
     io_bind
       (pve_request P c ''DELETE'' (volume_path node datastore volume) ticket csrf
         (Some [(''stopvm'', JInt 0)]))
       (\<lambda>(status, payload).
     if status \<noteq> 200 then ret (''HTTP '' @ int_str status @ '': '' @ py_str payload)
     else
       io_bind (lift (jget payload ''data'' (JStr []))) (\<lambda>d.
       let upid = py_str d in
       if upid = [] then ret ''no task UPID returned''
       else wait_task P c ticket upid node))"

section \<open>Finding orphans\<close>

type_synonym orphan = "string \<times> string \<times> string"

definition volume_of :: "string \<Rightarrow> string" where
  "volume_of volid = last (split_max (CHR '':'') 1 volid)"

text \<open>The VMID in a volume's name, \<open>vm-<id>-...\<close>.\<close>

definition name_vmid :: "string \<Rightarrow> int option" where
  "name_vmid volume =
     (if \<not> prefix ''vm-'' volume \<or> volume = ''vm-'' then None
      else
        (case split_max (CHR ''-'') 2 volume of
           _ # i # _ \<Rightarrow> (case py_int i of Inr n \<Rightarrow> Some n | Inl _ \<Rightarrow> None)
         | _ \<Rightarrow> None))"

text \<open>The VMID of a listed volume: its field, or else its name's; \<open>None\<close> when neither tells.\<close>

definition entry_vmid :: "json \<Rightarrow> json option res" where
  "entry_vmid entry =
     res_bind (jget entry ''vmid'' JNull) (\<lambda>v.
     if v \<noteq> JNull then Inr (Some v)
     else res_bind (volid_of entry) (\<lambda>volid. Inr (map_option JInt (name_vmid (volume_of volid)))))"

definition add_orphan ::
  "json list \<Rightarrow> string \<Rightarrow> string \<Rightarrow> json \<Rightarrow> orphan list \<Rightarrow> orphan list res" where
  "add_orphan existing node datastore entry orphans =
     res_bind (entry_vmid entry) (\<lambda>vmid.
     case vmid of
       None \<Rightarrow> Inr orphans
     | Some v \<Rightarrow>
         res_bind (require_hashable v) (\<lambda>v.
         if jmember v existing then Inr orphans
         else
           res_bind (volid_of entry) (\<lambda>volid.
           let key = (node, datastore, volume_of volid)
           in Inr (if key \<notin> set orphans then orphans @ [key] else orphans))))"

definition find_orphans :: "'w platform \<Rightarrow> pve_client \<Rightarrow> json \<Rightarrow> string \<Rightarrow> ('w, orphan list) io" where
  "find_orphans P c ticket node =
     io_bind (node_vmids P c ticket node) (\<lambda>existing.
     io_fold
       (\<lambda>datastore orphans.
          io_bind
            (io_except [RuntimeError]
              (io_bind (node_content P c ticket datastore node) (\<lambda>content. ret (Some content)))
              (\<lambda>_. ret None))
            (\<lambda>content.
            case content of
              None \<Rightarrow> ret orphans
            | Some entries \<Rightarrow> lift (res_fold (add_orphan existing node datastore) entries orphans)))
       (cs_datastore_ids (pc_settings c)) [])"

section \<open>Removing them\<close>

definition ssh_exit_marker :: string where
  "ssh_exit_marker = ''PVE_CLEANUP_SSH_EXIT=''"

definition ssh_timeout :: int where
  "ssh_timeout = 30"

definition free_command :: "string \<Rightarrow> string" where
  "free_command label =
     ''pvesm free '' @ shlex_quote label @ '' 2>&1; echo '' @ ssh_exit_marker @ ''$?''"

text \<open>The verdict on what the session printed, already redacted.\<close>

definition ssh_verdict :: "string \<Rightarrow> string \<Rightarrow> string \<Rightarrow> bool \<Rightarrow> int option \<Rightarrow> string res" where
  "ssh_verdict host label out timed_out ssh_exit =
     (if timed_out then
        (let tail = last_n 400 (squeeze out)
         in Inr (''ssh to '' @ host @ '' timed out after '' @ int_str ssh_timeout @ ''s'' @
              (if tail \<noteq> [] then '': '' @ tail else [])))
      else
        (let markers = find_numbers ssh_exit_marker out; body = squeeze out in
         if markers \<noteq> [] then
           res_bind (py_int (last markers)) (\<lambda>code.
           if code = 0 then Inr []
           else Inr (''pvesm free '' @ label @ '' exited '' @ int_str code @ '': '' @ last_n 400 body))
         else
           (case ssh_exit of
              Some e \<Rightarrow>
                if e \<noteq> 0 then Inr (''ssh to '' @ host @ '' failed (exit '' @ int_str e @ ''): '' @ last_n 400 body)
                else Inr (''ssh to '' @ host @ '' returned no remote exit status: '' @ last_n 400 body)
            | None \<Rightarrow> Inr (''ssh to '' @ host @ '' returned no remote exit status: '' @ last_n 400 body))))"

definition remove_volume_via_ssh ::
  "'w platform \<Rightarrow> cleanup_settings \<Rightarrow> string \<Rightarrow> string \<Rightarrow> ('w, string) io" where
  "remove_volume_via_ssh P s label node =
     io_then (import_pexpect P)
     (io_bind (read_fallback_password s) (\<lambda>password.
      let host = ssh_host_for s node in
      io_bind (ssh_session P (ssh_argv host (bash_line (free_command label))) ssh_timeout password)
        (\<lambda>(parts, timed_out).
      io_bind (exitstatus P) (\<lambda>ssh_exit.
      lift (ssh_verdict host label (redact password parts) timed_out ssh_exit)))))"

type_synonym api_errors = "(orphan, string) dict"

definition volume_label :: "orphan \<Rightarrow> string" where
  "volume_label k = (case k of (node, datastore, volume) \<Rightarrow> datastore @ '':'' @ volume)"

definition delete_all ::
  "'w platform \<Rightarrow> pve_client \<Rightarrow> json \<Rightarrow> json \<Rightarrow> orphan list \<Rightarrow> ('w, api_errors) io" where
  "delete_all P c ticket csrf orphans =
     io_fold
       (\<lambda>k errors.
          case k of (node, datastore, volume) \<Rightarrow>
            io_bind (delete_content P c ticket csrf datastore volume node) (\<lambda>error.
            ret (dset k error errors)))
       orphans []"

text \<open>The fallback loop stops at the first volume when \<open>pexpect\<close> is not installed.\<close>

fun host_fallback ::
  "'w platform \<Rightarrow> cleanup_settings \<Rightarrow> orphan list \<Rightarrow> api_errors \<Rightarrow> ('w, api_errors) io" where
  "host_fallback P s [] errors = ret errors"
| "host_fallback P s (k # ks) errors =
     io_bind
       (io_except [ImportError]
         (io_bind (remove_volume_via_ssh P s (volume_label k) (fst k)) (\<lambda>error. ret (Some error)))
         (\<lambda>_. io_then
            (print_line (''[pve_cleanup] host fallback unavailable: '' @ ''pexpect is not installed''))
            (ret None)))
       (\<lambda>r.
       case r of
         None \<Rightarrow> ret errors
       | Some error \<Rightarrow>
           host_fallback P s ks
             (dset k (if error \<noteq> []
                      then ''API: '' @ dget_or errors k [] @ ''; host fallback: '' @ error
                      else []) errors))"

definition failed_keys :: "api_errors \<Rightarrow> orphan list" where
  "failed_keys errors = filter (\<lambda>k. dget_or errors k [] \<noteq> []) (dkeys errors)"

definition apply_node ::
  "'w platform \<Rightarrow> pve_client \<Rightarrow> json \<Rightarrow> json \<Rightarrow> orphan list \<Rightarrow> ('w, api_errors) io" where
  "apply_node P c ticket csrf orphans =
     io_bind (delete_all P c ticket csrf orphans) (\<lambda>errors.
     let failed = failed_keys errors; s = pc_settings c in
     if failed \<noteq> [] \<and> has_fallback s then
       io_then
         (print_line (''[pve_cleanup] host fallback: ssh to '' @
            py_join '', '' (map (ssh_host_for s) (sort (remdups (map fst failed)))) @ '' for '' @
            nat_str (length failed) @ '' volume(s)''))
         (host_fallback P s failed errors)
     else ret errors)"

definition result_line :: "bool \<Rightarrow> api_errors \<Rightarrow> orphan \<Rightarrow> string" where
  "result_line apply_it errors k =
     (let label = fst k @ '':'' @ volume_label k; error = dget_or errors k [] in
      if \<not> apply_it then ''  would remove '' @ label
      else if error \<noteq> [] then ''  could not remove '' @ label @ '': '' @ error
      else ''  removed '' @ label)"

definition node_header :: "string \<Rightarrow> orphan list \<Rightarrow> string" where
  "node_header node orphans =
     ''Proxmox preflight: '' @ nat_str (length orphans) @ '' orphan storage volume(s) found on node '' @
     [squote] @ node @ [squote] @ ''.''"

definition clean_node ::
  "'w platform \<Rightarrow> pve_client \<Rightarrow> json \<Rightarrow> json \<Rightarrow> bool \<Rightarrow> string \<Rightarrow> ('w, string list) io" where
  "clean_node P c ticket csrf apply_it node =
     io_bind (find_orphans P c ticket node) (\<lambda>orphans.
     if orphans = [] then ret [node_header node orphans]
     else
       io_bind (if apply_it then apply_node P c ticket csrf orphans else ret []) (\<lambda>errors.
       ret (node_header node orphans # map (result_line apply_it errors) orphans)))"

definition clean_orphans :: "'w platform \<Rightarrow> cleanup_settings \<Rightarrow> bool \<Rightarrow> ('w, string list) io" where
  "clean_orphans P s apply_it =
     io_bind (lift (pve_client_init s)) (\<lambda>c.
     io_bind (pve_auth P c) (\<lambda>(ticket, csrf).
     io_fold
       (\<lambda>node ls. io_bind (clean_node P c ticket csrf apply_it node) (\<lambda>new. ret (ls @ new)))
       (cs_node_names s) []))"

section \<open>The command line entry\<close>

definition getenv :: "'w platform \<Rightarrow> string \<Rightarrow> string \<Rightarrow> string" where
  "getenv P k d = (case p_environ P k of Some v \<Rightarrow> v | None \<Rightarrow> d)"

text \<open>\<open>tuple(n.strip() for n in s.split(",") if n.strip())\<close>.\<close>

definition comma_list :: "string \<Rightarrow> string list" where
  "comma_list s = filter (\<lambda>n. n \<noteq> []) (map py_strip (py_split (CHR '','') s))"

definition default_ssh_hosts :: "(string, string) dict" where
  "default_ssh_hosts =
     [(''pve01'', ''192.168.1.21''), (''pve02'', ''192.168.1.22''), (''pve03'', ''192.168.1.23'')]"

definition fallback_path :: "'w platform \<Rightarrow> string" where
  "fallback_path P =
     (let f = getenv P ''PROXMOX_HOST_PASSWORD_FILE'' []
      in if f \<noteq> [] then f else p_expanduser P ''~/.proxmoxpass'')"

definition standalone_settings :: "'w platform \<Rightarrow> cleanup_settings" where
  "standalone_settings P =
     \<lparr>cs_endpoint = getenv P ''PROXMOX_VE_ENDPOINT'' [],
      cs_username = getenv P ''PROXMOX_VE_USERNAME'' ''root@pam'',
      cs_password = getenv P ''PROXMOX_VE_PASSWORD'' [],
      cs_node_names = comma_list (getenv P ''PROXMOX_VE_NODES'' ''pve01,pve02,pve03''),
      cs_datastore_ids = [getenv P ''PROXMOX_VE_DATASTORE'' ''local-lvm''],
      cs_insecure = True,
      cs_fallback_file = Some (fallback_path P),
      cs_node_ssh_hosts = Some default_ssh_hosts\<rparr>"

definition cleanup_standalone :: "'w platform \<Rightarrow> string list \<Rightarrow> ('w, int) io" where
  "cleanup_standalone P argv =
     (let s = standalone_settings P in
      if cs_endpoint s = [] \<or> cs_password s = [] then
        io_then (print_line ''PROXMOX_VE_ENDPOINT and PROXMOX_VE_PASSWORD must be set'') (ret 2)
      else
        io_except [RuntimeError]
          (io_bind (clean_orphans P s (''--apply'' \<in> set argv)) (\<lambda>ls.
           io_then (io_map print_line ls) (ret 0)))
          (\<lambda>exc. io_then (print_line (''preflight cleanup failed: '' @ exn_msg exc)) (ret 1)))"

section \<open>What the search finds\<close>

text \<open>The queries of a search, and what their outcomes mean.\<close>

definition vm_query :: "pve_client \<Rightarrow> json \<Rightarrow> string \<Rightarrow> http_request" where
  "vm_query c ticket node =
     pve_http_request (cs_insecure (pc_settings c)) (pve_url c (''/api2/json/nodes/'' @ node @ ''/qemu''))
       ''GET'' ticket (JStr []) None"

definition content_query :: "pve_client \<Rightarrow> json \<Rightarrow> string \<Rightarrow> string \<Rightarrow> http_request" where
  "content_query c ticket node datastore =
     pve_http_request (cs_insecure (pc_settings c))
       (pve_url c (''/api2/json/nodes/'' @ node @ ''/storage/'' @ datastore @ ''/content''))
       ''GET'' ticket (JStr []) None"

definition vmids_in :: "http_outcome \<Rightarrow> json list res" where
  "vmids_in out =
     res_bind (decode_outcome out) (\<lambda>(status, payload).
     if status \<noteq> 200
     then throw RuntimeError (''Failed to list VMs on node: HTTP '' @ int_str status @ '': '' @ py_str payload)
     else vmids_of payload)"

definition content_in :: "string \<Rightarrow> http_outcome \<Rightarrow> json list res" where
  "content_in datastore out =
     res_bind (decode_outcome out) (\<lambda>(status, payload).
     if status \<noteq> 200
     then throw RuntimeError (''Failed to list storage '' @ [squote] @ datastore @ [squote] @ '' content: HTTP '' @
            int_str status @ '': '' @ py_str payload)
     else content_of datastore payload)"

text \<open>A volume is an orphan when its VMID is known and no VM of the node has it.\<close>

definition orphan_of :: "json list \<Rightarrow> string \<Rightarrow> string \<Rightarrow> json \<Rightarrow> orphan option" where
  "orphan_of existing node datastore entry =
     (case (entry_vmid entry, volid_of entry) of
        (Inr (Some v), Inr volid) \<Rightarrow>
          if jmember v existing then None else Some (node, datastore, volume_of volid)
      | _ \<Rightarrow> None)"

definition listed_orphan ::
  "string \<Rightarrow> json list \<Rightarrow> (string \<times> http_outcome) list \<Rightarrow> orphan \<Rightarrow> bool" where
  "listed_orphan node existing listings x \<longleftrightarrow>
     (\<exists>(d, out) \<in> set listings. \<exists>entries. content_in d out = Inr entries \<and>
        (\<exists>entry \<in> set entries. orphan_of existing node d entry = Some x))"

lemma spec_node_vmids:
  "spec (node_vmids P c ticket node) (\<lambda>es r. \<exists>out. es = [EHttp (vm_query c ticket node) out] \<and> r = vmids_in out)"
  unfolding node_vmids_def pve_request_def vm_query_def vmids_in_def
  by (rule spec_send_bind) (auto intro!: spec_intros)

lemma spec_node_content:
  "spec (node_content P c ticket d node)
     (\<lambda>es r. \<exists>out. es = [EHttp (content_query c ticket node d) out] \<and> r = content_in d out)"
  unfolding node_content_def pve_request_def content_query_def content_in_def
  by (rule spec_send_bind) (auto intro!: spec_intros)

lemma add_orphan_Inr:
  "add_orphan existing node d entry os = Inr os' \<Longrightarrow>
     set os' = set os \<union> {x. orphan_of existing node d entry = Some x} \<and> (distinct os \<longrightarrow> distinct os')"
proof -
  assume step: "add_orphan existing node d entry os = Inr os'"
  then obtain vmid where vmid: "entry_vmid entry = Inr vmid" by (auto simp: add_orphan_def)
  show ?thesis
  proof (cases vmid)
    case None
    with step vmid show ?thesis by (simp add: add_orphan_def orphan_of_def)
  next
    case (Some v)
    show ?thesis
    proof (cases "jmember v existing")
      case True
      with step vmid Some have "os' = os" by (auto simp: add_orphan_def require_hashable_def split: if_splits)
      with True vmid Some show ?thesis by (simp add: orphan_of_def split: sum.splits)
    next
      case False
      with step vmid Some obtain volid where "volid_of entry = Inr volid"
        "os' = (if (node, d, volume_of volid) \<notin> set os then os @ [(node, d, volume_of volid)] else os)"
        by (auto simp: add_orphan_def require_hashable_def Let_def split: if_splits)
      with False vmid Some show ?thesis by (auto simp: orphan_of_def)
    qed
  qed
qed

lemma add_orphans_Inr:
  "res_fold (add_orphan existing node d) entries os = Inr os' \<Longrightarrow>
     set os' = set os \<union> {x. \<exists>entry \<in> set entries. orphan_of existing node d entry = Some x}
     \<and> (distinct os \<longrightarrow> distinct os')"
proof (induction entries arbitrary: os)
  case (Cons e entries)
  then obtain os1 where "add_orphan existing node d e os = Inr os1"
    "res_fold (add_orphan existing node d) entries os1 = Inr os'" by auto
  with add_orphan_Inr [of existing node d e os os1] Cons.IH [of os1] show ?case by auto
qed simp

definition search_store ::
  "'w platform \<Rightarrow> pve_client \<Rightarrow> json \<Rightarrow> string \<Rightarrow> json list \<Rightarrow> string \<Rightarrow> orphan list \<Rightarrow> ('w, orphan list) io" where
  "search_store P c ticket node existing datastore orphans =
     io_bind
       (io_except [RuntimeError]
         (io_bind (node_content P c ticket datastore node) (\<lambda>content. ret (Some content)))
         (\<lambda>_. ret None))
       (\<lambda>content.
       case content of
         None \<Rightarrow> ret orphans
       | Some entries \<Rightarrow> lift (res_fold (add_orphan existing node datastore) entries orphans))"

lemma find_orphans_search:
  "find_orphans P c ticket node =
     io_bind (node_vmids P c ticket node) (\<lambda>existing.
     io_fold (search_store P c ticket node existing) (cs_datastore_ids (pc_settings c)) [])"
  by (simp add: find_orphans_def search_store_def [abs_def])

lemma spec_try_content:
  "spec (io_except [RuntimeError]
      (io_bind (node_content P c ticket d node) (\<lambda>content. ret (Some content))) (\<lambda>_. ret None))
     (\<lambda>es r. \<exists>out. es = [EHttp (content_query c ticket node d) out] \<and>
        (case content_in d out of
           Inr entries \<Rightarrow> r = Inr (Some entries)
         | Inl e \<Rightarrow> r = (if catches [RuntimeError] e then Inr None else Inl e)))"
proof (rule spec_except [where R = "\<lambda>es r. \<exists>out. es = [EHttp (content_query c ticket node d) out] \<and>
      (case content_in d out of Inr entries \<Rightarrow> r = Inr (Some entries) | Inl e \<Rightarrow> r = Inl e)"], goal_cases)
  case 1
  show ?case
    by (rule spec_bind [OF spec_node_content]) (auto intro!: spec_intros split: sum.splits)
next
  case (4 es e)
  then show ?case by (auto intro!: spec_intros split: sum.splits)
qed (auto split: sum.splits)

lemma listed_single:
  "{x. listed_orphan node existing [(d, out)] x} =
     (case content_in d out of
        Inl _ \<Rightarrow> {}
      | Inr entries \<Rightarrow> {x. \<exists>entry \<in> set entries. orphan_of existing node d entry = Some x})"
  by (simp add: listed_orphan_def split: sum.splits)

lemma spec_search_store:
  "spec (search_store P c ticket node existing d os)
     (\<lambda>es r. \<forall>os'. r = Inr os' \<longrightarrow>
        (\<exists>out. es = [EHttp (content_query c ticket node d) out] \<and>
           set os' = set os \<union> {x. listed_orphan node existing [(d, out)] x} \<and>
           (distinct os \<longrightarrow> distinct os')))"
  unfolding search_store_def
proof (rule spec_bind [OF spec_try_content], goal_cases)
  case (2 es content)
  then obtain out where es: "es = [EHttp (content_query c ticket node d) out]"
    and r: "case content_in d out of Inr entries \<Rightarrow> (Inr content :: json list option res) = Inr (Some entries)
     | Inl e \<Rightarrow> Inr content = (if catches [RuntimeError] e then Inr None else Inl e)"
    by (elim exE conjE) (rule that)
  have out: "es = [EHttp (content_query c ticket node d) out]"
    "case content_in d out of Inr entries \<Rightarrow> content = Some entries | Inl e \<Rightarrow> content = None"
  proof -
    show "es = [EHttp (content_query c ticket node d) out]" by (rule es)
    show "case content_in d out of Inr entries \<Rightarrow> content = Some entries | Inl e \<Rightarrow> content = None"
    proof (cases "content_in d out")
      case (Inl e)
      with r show ?thesis by (cases "catches [RuntimeError] e") simp_all
    next
      case (Inr entries)
      with r show ?thesis by simp
    qed
  qed
  show ?case
  proof (cases content)
    case None
    with out(2) have none: "{x. listed_orphan node existing [(d, out)] x} = {}"
      unfolding listed_single by (simp split: sum.splits)
    show ?thesis
      unfolding None option.case by (rule spec_ret) (use none out(1) in auto)
  next
    case (Some entries)
    with out(2) have "content_in d out = Inr entries" by (simp split: sum.splits)
    then have found: "{x. listed_orphan node existing [(d, out)] x} =
        {x. \<exists>entry \<in> set entries. orphan_of existing node d entry = Some x}"
      unfolding listed_single by simp
    show ?thesis
      unfolding Some option.case
    proof (rule spec_lift, intro allI impI)
      fix os'
      assume "res_fold (add_orphan existing node d) entries os = Inr os'"
      from add_orphans_Inr [OF this] show "\<exists>out. es @ [] = [EHttp (content_query c ticket node d) out] \<and>
           set os' = set os \<union> {x. listed_orphan node existing [(d, out)] x} \<and> (distinct os \<longrightarrow> distinct os')"
        using out(1) found by (intro exI [of _ out]) simp
    qed
  qed
qed simp

lemma listed_orphan_Cons:
  "listed_orphan node existing (p # ps) x \<longleftrightarrow>
     listed_orphan node existing [p] x \<or> listed_orphan node existing ps x"
  by (auto simp: listed_orphan_def)

lemma spec_search_stores:
  "spec (io_fold (search_store P c ticket node existing) ds os)
     (\<lambda>es r. \<forall>os'. r = Inr os' \<longrightarrow>
        (\<exists>outs. length outs = length ds \<and>
           es = map2 (\<lambda>d out. EHttp (content_query c ticket node d) out) ds outs \<and>
           set os' = set os \<union> {x. listed_orphan node existing (zip ds outs) x} \<and>
           (distinct os \<longrightarrow> distinct os')))"
proof (induction ds arbitrary: os)
  case Nil
  show ?case by (auto intro!: spec_intros simp: listed_orphan_def)
next
  case (Cons d ds)
  show ?case
    unfolding io_fold.simps
  proof (rule spec_bind [OF spec_search_store], goal_cases)
    case (2 es os1)
    then obtain out where out: "es = [EHttp (content_query c ticket node d) out]"
      "set os1 = set os \<union> {x. listed_orphan node existing [(d, out)] x}" "distinct os \<longrightarrow> distinct os1"
      by blast
    show ?case
    proof (rule spec_weaken [OF Cons.IH], intro allI impI)
      fix es' r os'
      assume "\<forall>os'. r = Inr os' \<longrightarrow> (\<exists>outs. length outs = length ds \<and>
           es' = map2 (\<lambda>d out. EHttp (content_query c ticket node d) out) ds outs \<and>
           set os' = set os1 \<union> {x. listed_orphan node existing (zip ds outs) x} \<and>
           (distinct os1 \<longrightarrow> distinct os'))" and "r = Inr os'"
      then obtain outs where outs: "length outs = length ds"
        "es' = map2 (\<lambda>d out. EHttp (content_query c ticket node d) out) ds outs"
        "set os' = set os1 \<union> {x. listed_orphan node existing (zip ds outs) x}"
        "distinct os1 \<longrightarrow> distinct os'" by blast
      show "\<exists>outs. length outs = length (d # ds) \<and>
           es @ es' = map2 (\<lambda>d out. EHttp (content_query c ticket node d) out) (d # ds) outs \<and>
           set os' = set os \<union> {x. listed_orphan node existing (zip (d # ds) outs) x} \<and>
           (distinct os \<longrightarrow> distinct os')"
        using out outs listed_orphan_Cons [of node existing "(d, out)" "zip ds outs"]
        by (intro exI [of _ "out # outs"]) auto
    qed
  qed simp
qed

lemma spec_find_orphans:
  "spec (find_orphans P c ticket node)
     (\<lambda>es r. \<forall>os. r = Inr os \<longrightarrow> distinct os \<and>
        (\<exists>out outs existing. length outs = length (cs_datastore_ids (pc_settings c)) \<and>
           es = EHttp (vm_query c ticket node) out #
             map2 (\<lambda>d o'. EHttp (content_query c ticket node d) o') (cs_datastore_ids (pc_settings c)) outs \<and>
           vmids_in out = Inr existing \<and>
           (\<forall>x. x \<in> set os \<longleftrightarrow>
              listed_orphan node existing (zip (cs_datastore_ids (pc_settings c)) outs) x)))"
  unfolding find_orphans_search
proof (rule spec_bind [OF spec_node_vmids], goal_cases)
  case (2 es existing)
  then obtain out where out: "es = [EHttp (vm_query c ticket node) out]" "vmids_in out = Inr existing" by auto
  show ?case
  proof (rule spec_weaken [OF spec_search_stores], intro allI impI, goal_cases)
    case (1 es' r os)
    then obtain outs where "length outs = length (cs_datastore_ids (pc_settings c))"
      "es' = map2 (\<lambda>d o'. EHttp (content_query c ticket node d) o') (cs_datastore_ids (pc_settings c)) outs"
      "set os = {x. listed_orphan node existing (zip (cs_datastore_ids (pc_settings c)) outs) x}" "distinct os"
      by auto
    with out show ?case by auto
  qed
qed simp

section \<open>What removal does\<close>

definition task_query :: "pve_client \<Rightarrow> json \<Rightarrow> string \<Rightarrow> string \<Rightarrow> http_request" where
  "task_query c ticket upid node =
     pve_http_request (cs_insecure (pc_settings c))
       (pve_url c (''/api2/json/nodes/'' @ node @ ''/tasks/'' @ upid @ ''/status'')) ''GET'' ticket (JStr []) None"

definition delete_query :: "pve_client \<Rightarrow> json \<Rightarrow> json \<Rightarrow> orphan \<Rightarrow> http_request" where
  "delete_query c ticket csrf k =
     (case k of (node, datastore, volume) \<Rightarrow>
        pve_http_request (cs_insecure (pc_settings c)) (pve_url c (volume_path node datastore volume))
          ''DELETE'' ticket csrf (Some [(''stopvm'', JInt 0)]))"

text \<open>A response that says the task has stopped with status OK.\<close>

definition task_ok :: "http_outcome \<Rightarrow> bool" where
  "task_ok out \<longleftrightarrow>
     (case decode_outcome out of Inl _ \<Rightarrow> False | Inr (st, payload) \<Rightarrow> task_outcome st payload = Inr (Some []))"

definition polled :: "pve_client \<Rightarrow> json \<Rightarrow> string \<Rightarrow> string \<Rightarrow> nat \<Rightarrow> event list \<Rightarrow> string res \<Rightarrow> bool" where
  "polled c ticket upid node n es r \<longleftrightarrow>
     (\<exists>outs. es = map (EHttp (task_query c ticket upid node)) outs \<and> length outs \<le> n \<and>
        (r = Inr [] \<longrightarrow> outs \<noteq> [] \<and> task_ok (last outs)))"

lemma polled_Cons:
  "polled c ticket upid node n es r \<Longrightarrow>
     polled c ticket upid node (Suc n) (EHttp (task_query c ticket upid node) out # es) r"
proof -
  assume "polled c ticket upid node n es r"
  then obtain outs where "es = map (EHttp (task_query c ticket upid node)) outs" "length outs \<le> n"
    "r = Inr [] \<longrightarrow> outs \<noteq> [] \<and> task_ok (last outs)" by (auto simp: polled_def)
  then show ?thesis unfolding polled_def by (intro exI [of _ "out # outs"]) auto
qed

lemma polled_last:
  "(r = Inr [] \<longrightarrow> task_ok out) \<Longrightarrow> polled c ticket upid node (Suc n) [EHttp (task_query c ticket upid node) out] r"
  unfolding polled_def by (intro exI [of _ "[out]"]) auto

lemma spec_poll_task: "spec (poll_task n P c ticket upid node) (polled c ticket upid node n)"
proof (induction n)
  case 0
  show ?case by (auto intro!: spec_intros simp: polled_def)
next
  case (Suc n)
  show ?case
    unfolding poll_task.simps pve_request_def task_query_def [symmetric]
  proof (rule spec_send_bind, goal_cases)
    case (1 out e)
    show ?case by (rule polled_last) simp
  next
    case (2 out x)
    obtain st payload where x: "x = (st, payload)" by (cases x)
    show ?case
    proof (cases "task_outcome st payload")
      case (Inl e)
      then show ?thesis by (auto simp: x intro!: spec_intros polled_last)
    next
      case (Inr v)
      show ?thesis
      proof (cases v)
        case None
        then show ?thesis
          using Inr x by (auto intro!: spec_weaken [OF Suc] polled_Cons)
      next
        case (Some s)
        then show ?thesis
          using Inr x 2 by (auto simp: task_ok_def intro!: spec_intros polled_last)
      qed
    qed
  qed
qed

text \<open>One API deletion: the \<open>DELETE\<close>, then at most 60 polls of its task.\<close>

definition deletion :: "pve_client \<Rightarrow> json \<Rightarrow> json \<Rightarrow> orphan \<Rightarrow> event list \<Rightarrow> string res \<Rightarrow> bool" where
  "deletion c ticket csrf k es r \<longleftrightarrow>
     (\<exists>out upid polls. es = EHttp (delete_query c ticket csrf k) out # polls \<and>
        polled c ticket upid (fst k) 60 polls r \<and>
        (r = Inr [] \<longrightarrow> (\<exists>payload. decode_outcome out = Inr (200, payload))))"

lemma polled_none: "r \<noteq> Inr [] \<Longrightarrow> polled c ticket upid node n [] r"
  by (simp add: polled_def)

lemma spec_delete_content:
  "spec (delete_content P c ticket csrf datastore volume node) (deletion c ticket csrf (node, datastore, volume))"
proof -
  let ?k = "(node, datastore, volume)"
  have q: "pve_http_request (cs_insecure (pc_settings c)) (pve_url c (volume_path node datastore volume))
      ''DELETE'' ticket csrf (Some [(''stopvm'', JInt 0)]) = delete_query c ticket csrf ?k"
    by (simp add: delete_query_def)
  have none: "deletion c ticket csrf ?k [EHttp (delete_query c ticket csrf ?k) out] r" if "r \<noteq> Inr []" for out r
    using that polled_none [OF that, of c ticket "[]" node 60] by (fastforce simp: deletion_def)
  show ?thesis
    unfolding delete_content_def pve_request_def q
  proof (rule spec_send_bind, goal_cases)
    case (1 out e)
    show ?case by (rule none) simp
  next
    case (2 out x)
    obtain st payload where x: "x = (st, payload)" by (cases x)
    show ?case
    proof (cases "st = 200")
      case False
      then show ?thesis by (auto simp: x intro!: spec_intros none)
    next
      case True
      show ?thesis
      proof (cases "jget payload ''data'' (JStr [])")
        case (Inl e)
        then show ?thesis by (auto simp: x True intro!: spec_intros none)
      next
        case (Inr d)
        have run: "spec (wait_task P c ticket (py_str d) node)
            (\<lambda>es r. deletion c ticket csrf ?k (EHttp (delete_query c ticket csrf ?k) out # es) r)"
          unfolding wait_task_def
          by (rule spec_weaken [OF spec_poll_task]) (use 2 x True in \<open>auto simp: deletion_def\<close>)
        show ?thesis
          using run by (auto simp: x True Inr Let_def intro!: spec_intros none)
      qed
    qed
  qed
qed

text \<open>The volumes whose deletion a run of events requests, and the host commands it starts.\<close>

definition deleted_urls :: "event list \<Rightarrow> string list" where
  "deleted_urls es =
     concat (map (\<lambda>e. case e of EHttp r _ \<Rightarrow> if req_method r = ''DELETE'' then [req_url r] else [] | _ \<Rightarrow> []) es)"

definition commands_run :: "event list \<Rightarrow> string list list" where
  "commands_run es = concat (map (\<lambda>e. case e of ESpawn argv \<Rightarrow> [argv] | _ \<Rightarrow> []) es)"

lemma effects_append [simp]:
  "deleted_urls (xs @ ys) = deleted_urls xs @ deleted_urls ys"
  "commands_run (xs @ ys) = commands_run xs @ commands_run ys"
  by (simp_all add: deleted_urls_def commands_run_def)

lemma effects_simps [simp]:
  "deleted_urls [] = []" "commands_run [] = []"
  "deleted_urls (EHttp r out # es) = (if req_method r = ''DELETE'' then [req_url r] else []) @ deleted_urls es"
  "commands_run (EHttp r out # es) = commands_run es"
  "deleted_urls (EPrint b s # es) = deleted_urls es" "commands_run (EPrint b s # es) = commands_run es"
  by (simp_all add: deleted_urls_def commands_run_def)

definition orphan_url :: "pve_client \<Rightarrow> orphan \<Rightarrow> string" where
  "orphan_url c k = (case k of (node, datastore, volume) \<Rightarrow> pve_url c (volume_path node datastore volume))"

definition free_argv :: "cleanup_settings \<Rightarrow> orphan \<Rightarrow> string list" where
  "free_argv s k = ssh_argv (ssh_host_for s (fst k)) (bash_line (free_command (volume_label k)))"

lemma polled_effects:
  "polled c ticket upid node n es r \<Longrightarrow> deleted_urls es = [] \<and> commands_run es = []"
proof -
  have "deleted_urls (map (EHttp (task_query c ticket upid node)) outs) = []
      \<and> commands_run (map (EHttp (task_query c ticket upid node)) outs) = []" for outs
    by (induction outs) (simp_all add: task_query_def)
  then show "polled c ticket upid node n es r \<Longrightarrow> ?thesis" by (auto simp: polled_def)
qed

lemma deletion_effects:
  "deletion c ticket csrf k es r \<Longrightarrow> deleted_urls es = [orphan_url c k] \<and> commands_run es = []"
  using polled_effects by (fastforce simp: deletion_def delete_query_def orphan_url_def split: prod.splits)

lemma spec_delete_all:
  "spec (io_fold (\<lambda>k errors. case k of (node, datastore, volume) \<Rightarrow>
      io_bind (delete_content P c ticket csrf datastore volume node) (\<lambda>error. ret (dset k error errors))) os errs0)
     (\<lambda>es r. \<forall>errs. r = Inr errs \<longrightarrow> deleted_urls es = map (orphan_url c) os \<and> commands_run es = [] \<and>
        set (dkeys errs) = set (dkeys errs0) \<union> set os)"
proof (induction os arbitrary: errs0)
  case Nil
  show ?case by (auto intro!: spec_intros)
next
  case (Cons k os)
  obtain node d v where k: "k = (node, d, v)" by (cases k)
  show ?case
    unfolding io_fold.simps k prod.case io_bind_assoc io_bind_simps
  proof (rule spec_bind [OF spec_delete_content], goal_cases)
    case (2 es error)
    from deletion_effects [OF 2] show ?case
      by (intro spec_weaken [OF Cons.IH]) (auto simp: k)
  qed simp
qed

text \<open>What the host fallback does for a list of volumes.\<close>

definition fallback_event :: "cleanup_settings \<Rightarrow> orphan list \<Rightarrow> event \<Rightarrow> bool" where
  "fallback_event s ks e \<longleftrightarrow>
     (\<exists>k \<in> set ks. \<exists>password. session_event (free_argv s k) password e) \<or> (\<exists>b t. e = EPrint b t)"

lemma fallback_print: "fallback_event s ks (EPrint b t)"
  unfolding fallback_event_def by blast

lemma fallback_event_mono: "fallback_event s ks e \<Longrightarrow> set ks \<subseteq> set ks' \<Longrightarrow> fallback_event s ks' e"
  by (auto simp: fallback_event_def)

lemma fallback_effects:
  "\<forall>e \<in> set es. fallback_event s ks e \<Longrightarrow> deleted_urls es = [] \<and> set (commands_run es) \<subseteq> free_argv s ` set ks"
proof (induction es)
  case (Cons e es)
  then have "fallback_event s ks e" by simp
  then have "deleted_urls [e] = [] \<and> set (commands_run [e]) \<subseteq> free_argv s ` set ks"
    by (auto simp: fallback_event_def session_event_def deleted_urls_def commands_run_def)
  with Cons effects_append [of "[e]" es] show ?case by auto
qed simp

lemma only_read_fallback_password [only_intros]: "only Q (read_fallback_password s)"
  unfolding read_fallback_password_def by (intro only_intros)

lemma only_remove_volume:
  "only (fallback_event s [k]) (remove_volume_via_ssh P s (volume_label k) (fst k))"
proof -
  have session: "only (fallback_event s [k]) (ssh_session P (free_argv s k) t password)" for t password
    by (rule only_weaken [OF only_ssh_session]) (auto simp: fallback_event_def)
  show ?thesis
    unfolding remove_volume_via_ssh_def Let_def free_argv_def [symmetric]
    by (intro only_intros session)
qed

lemma only_host_fallback: "only (fallback_event s ks) (host_fallback P s ks errs)"
proof (induction ks arbitrary: errs)
  case Nil
  show ?case by (simp add: only_intros)
next
  case (Cons k ks)
  have rest: "only (fallback_event s (k # ks)) (host_fallback P s ks errs')" for errs'
    by (rule only_weaken [OF Cons.IH]) (erule fallback_event_mono, auto)
  have first: "only (fallback_event s (k # ks)) (remove_volume_via_ssh P s (volume_label k) (fst k))"
    by (rule only_weaken [OF only_remove_volume]) (erule fallback_event_mono, simp)
  show ?case
    unfolding host_fallback.simps
    by (intro only_intros first rest fallback_print)
qed

lemma set_failed_keys: "set (failed_keys errs) \<subseteq> set (dkeys errs)"
  by (auto simp: failed_keys_def)

lemma spec_apply_node:
  "spec (apply_node P c ticket csrf os)
     (\<lambda>es r. \<forall>errs. r = Inr errs \<longrightarrow> deleted_urls es = map (orphan_url c) os \<and>
        set (commands_run es) \<subseteq> free_argv (pc_settings c) ` set os)"
  unfolding apply_node_def delete_all_def
proof (rule spec_bind [OF spec_delete_all], goal_cases)
  case (2 es errs)
  let ?failed = "failed_keys errs"
  have sub: "set ?failed \<subseteq> set os" using 2 set_failed_keys [of errs] by auto
  have more: "only (fallback_event (pc_settings c) os)
      (io_then (print_line msg) (host_fallback P (pc_settings c) ?failed errs))" for msg
    by (intro only_intros only_weaken [OF only_host_fallback] fallback_print) (rule fallback_event_mono [OF _ sub])
  show ?case
    unfolding Let_def
  proof (rule spec_if, goal_cases)
    case 1
    show ?case
      by (rule spec_weaken [OF more [unfolded only_def]]) (use 2 fallback_effects in fastforce)
  next
    case False: 2
    show ?case using 2 by (intro spec_ret) auto
  qed
qed simp

text \<open>One node of an applying run: the search, then exactly its orphans deleted, then a line for each.\<close>

definition node_search :: "pve_client \<Rightarrow> json \<Rightarrow> string \<Rightarrow> event list \<Rightarrow> orphan list \<Rightarrow> bool" where
  "node_search c ticket node es os \<longleftrightarrow> distinct os \<and>
     (\<exists>out outs existing. length outs = length (cs_datastore_ids (pc_settings c)) \<and>
        es = EHttp (vm_query c ticket node) out #
          map2 (\<lambda>d o'. EHttp (content_query c ticket node d) o') (cs_datastore_ids (pc_settings c)) outs \<and>
        vmids_in out = Inr existing \<and>
        (\<forall>x. x \<in> set os \<longleftrightarrow> listed_orphan node existing (zip (cs_datastore_ids (pc_settings c)) outs) x))"

definition node_removal :: "pve_client \<Rightarrow> json \<Rightarrow> string \<Rightarrow> event list \<Rightarrow> string list \<Rightarrow> bool" where
  "node_removal c ticket node es ls \<longleftrightarrow>
     (\<exists>os errors es1 es2. es = es1 @ es2 \<and> node_search c ticket node es1 os \<and>
        deleted_urls es2 = map (orphan_url c) os \<and>
        set (commands_run es2) \<subseteq> free_argv (pc_settings c) ` set os \<and>
        ls = node_header node os # map (result_line True errors) os)"

lemma spec_clean_node:
  "spec (clean_node P c ticket csrf True node) (\<lambda>es r. \<forall>ls. r = Inr ls \<longrightarrow> node_removal c ticket node es ls)"
  unfolding clean_node_def if_True
proof (rule spec_bind [OF spec_find_orphans], goal_cases)
  case (2 es os)
  then have search: "node_search c ticket node es os" by (simp add: node_search_def)
  show ?case
  proof (rule spec_if, goal_cases)
    case 1
    show ?case
    proof (rule spec_ret, intro allI impI)
      fix ls
      assume "Inr [node_header node os] = Inr ls"
      with 1 search show "node_removal c ticket node (es @ []) ls"
        unfolding node_removal_def by (intro exI [of _ os] exI [of _ "[]"] exI [of _ es]) simp
    qed
  next
    case 2
    show ?case
    proof (rule spec_bind [OF spec_apply_node], goal_cases)
      case (2 es' errors)
      show ?case
      proof (rule spec_ret, intro allI impI)
        fix ls
        assume "Inr (node_header node os # map (result_line True errors) os) = Inr ls"
        with 2 search show "node_removal c ticket node (es @ es' @ []) ls"
          unfolding node_removal_def
          by (intro exI [of _ os] exI [of _ errors] exI [of _ es] exI [of _ es']) simp
      qed
    qed simp
  qed
qed simp

lemma spec_clean_nodes:
  "spec (io_fold (\<lambda>node ls. io_bind (clean_node P c ticket csrf True node) (\<lambda>new. ret (ls @ new))) nodes ls0)
     (\<lambda>es r. \<forall>ls. r = Inr ls \<longrightarrow>
        (\<exists>ess lss. es = concat ess \<and> ls = ls0 @ concat lss \<and> length ess = length nodes \<and>
           length lss = length nodes \<and>
           (\<forall>i < length nodes. node_removal c ticket (nodes ! i) (ess ! i) (lss ! i))))"
proof (induction nodes arbitrary: ls0)
  case Nil
  show ?case by (auto intro!: spec_intros)
next
  case (Cons node nodes)
  show ?case
    unfolding io_fold.simps io_bind_assoc io_bind_simps
  proof (rule spec_bind [OF spec_clean_node], goal_cases)
    case (2 es new)
    show ?case
    proof (rule spec_weaken [OF Cons.IH], intro allI impI)
      fix es' r ls
      assume "\<forall>ls. r = Inr ls \<longrightarrow> (\<exists>ess lss. es' = concat ess \<and> ls = (ls0 @ new) @ concat lss \<and>
           length ess = length nodes \<and> length lss = length nodes \<and>
           (\<forall>i < length nodes. node_removal c ticket (nodes ! i) (ess ! i) (lss ! i)))" and "r = Inr ls"
      then obtain ess lss where l: "es' = concat ess" "ls = (ls0 @ new) @ concat lss" "length ess = length nodes"
        "length lss = length nodes" "\<forall>i < length nodes. node_removal c ticket (nodes ! i) (ess ! i) (lss ! i)"
        by blast
      have "\<forall>i < length (node # nodes). node_removal c ticket ((node # nodes) ! i) ((es # ess) ! i) ((new # lss) ! i)"
        using 2 l(5) by (auto simp: nth_Cons split: nat.split)
      with l show "\<exists>ess lss. es @ es' = concat ess \<and> ls = ls0 @ concat lss \<and>
           length ess = length (node # nodes) \<and> length lss = length (node # nodes) \<and>
           (\<forall>i < length (node # nodes). node_removal c ticket ((node # nodes) ! i) (ess ! i) (lss ! i))"
        by (intro exI [of _ "es # ess"] exI [of _ "new # lss"]) simp
    qed
  qed simp
qed

lemma is_read_pve_ticket [simp]:
  "is_read (EHttp (pve_http_request i (pve_url c ''/api2/json/access/ticket'') ''POST'' t cs f) out)"
proof -
  have "pve_url c ''/api2/json/access/ticket'' = (''https://'' @ pc_host c @ ''/api2/json'') @ ''/access/ticket''"
    by (simp add: pve_url_def)
  then show ?thesis using is_read_ticket by metis
qed

lemma only_pve_auth [only_intros]: "only is_read (pve_auth P c)"
  unfolding pve_auth_def try_ticket_def pve_request_def Let_def by (intro only_intros) simp_all

lemma is_read_effects: "\<forall>e \<in> set es. is_read e \<Longrightarrow> deleted_urls es = [] \<and> commands_run es = []"
  by (induction es) (auto simp: is_read_def deleted_urls_def commands_run_def split: event.splits)

section \<open>The credentials and the messages\<close>

definition ticket_query :: "pve_client \<Rightarrow> string \<Rightarrow> http_request" where
  "ticket_query c password =
     pve_http_request (cs_insecure (pc_settings c)) (pve_url c ''/api2/json/access/ticket'') ''POST''
       (JStr []) (JStr [])
       (Some [(''new-format'', JInt 1), (''username'', JStr (cs_username (pc_settings c))),
              (''password'', JStr password)])"

text \<open>A response that grants this ticket.\<close>

definition grants :: "http_outcome \<Rightarrow> json \<Rightarrow> bool" where
  "grants out ticket \<longleftrightarrow> truthy ticket \<and>
     (\<exists>payload data. decode_outcome out = Inr (200, payload) \<and> payload_data_or_empty payload = Inr data \<and>
        jget data ''ticket'' (JStr []) = Inr ticket)"

lemma spec_try_ticket:
  "spec (try_ticket P c (cs_username (pc_settings c)) password)
     (\<lambda>es r. \<exists>out. es = [EHttp (ticket_query c password) out] \<and>
        (\<forall>ticket csrf. r = Inr (ticket, csrf) \<longrightarrow> grants out ticket))"
  unfolding try_ticket_def pve_request_def ticket_query_def [symmetric]
proof (rule spec_send_bind, goal_cases)
  case (2 out x)
  obtain st payload where x: "x = (st, payload)" by (cases x)
  show ?case
    unfolding x prod.case
  proof (rule spec_bind [where R = "\<lambda>es r. es = [] \<and> r = payload_data_or_empty payload"], goal_cases)
    case data: (3 es data)
    show ?case
    proof (rule spec_bind [where R = "\<lambda>es r. es = [] \<and> r = jget data ''ticket'' (JStr [])"], goal_cases)
      case ticket: (3 es' ticket)
      have "grants out ticket" if "st = 200" "truthy ticket"
        unfolding grants_def using 2 x data ticket that by metis
      then show ?case
        using data ticket
        by (intro spec_intros spec_bind [where R = "\<lambda>es r. es = []"]) auto
    qed (use data in \<open>auto intro: spec_intros\<close>)
  qed (auto intro: spec_intros)
qed simp

lemma spec_read_fallback: "spec (read_fallback_password s) (\<lambda>es r. es = [])"
  using only_read_fallback_password [of "\<lambda>_. False" s] by (simp add: only_def)

lemma ticket_form_decodes:
  "decode_fields (the (req_data (ticket_query c password))) =
     Some [(''new-format'', ''1''), (''username'', cs_username (pc_settings c)), (''password'', password)]"
proof -
  have one: "int_str 1 = ''1''" by code_simp
  show ?thesis by (simp add: ticket_query_def urlencode_def decode_encode_fields one)
qed

definition logged_in :: "pve_client \<Rightarrow> event list \<Rightarrow> string \<Rightarrow> http_outcome \<Rightarrow> json \<Rightarrow> bool" where
  "logged_in c es0 password out ticket \<longleftrightarrow> grants out ticket \<and>
     (es0 = [] \<and> password = cs_password (pc_settings c) \<or>
      has_fallback (pc_settings c) \<and>
        (\<exists>out0 msg. es0 = [EHttp (ticket_query c (cs_password (pc_settings c))) out0, EPrint False msg]))"

lemma spec_pve_auth:
  "spec (pve_auth P c) (\<lambda>es r. \<forall>ticket csrf. r = Inr (ticket, csrf) \<longrightarrow>
     (\<exists>es0 password out. es = es0 @ [EHttp (ticket_query c password) out] \<and> logged_in c es0 password out ticket))"
  unfolding pve_auth_def Let_def
proof (rule spec_except [OF spec_try_ticket], goal_cases)
  case (1 es x)
  then obtain out where "es = [EHttp (ticket_query c (cs_password (pc_settings c))) out]"
    "\<forall>ticket csrf. (Inr x :: (json \<times> json) res) = Inr (ticket, csrf) \<longrightarrow> grants out ticket"
    by (elim exE conjE) (rule that)
  then show ?case
    unfolding logged_in_def
    by (intro allI impI exI [of _ "[]"] exI [of _ "cs_password (pc_settings c)"] exI [of _ out]) auto
next
  case (3 es e)
  then obtain out0 where es: "es = [EHttp (ticket_query c (cs_password (pc_settings c))) out0]" by blast
  show ?case
  proof (rule spec_if, goal_cases)
    case 1
    show ?case by (rule spec_raise) simp
  next
    case 2
    show ?case
      unfolding io_then_def
    proof (rule spec_bind [OF spec_print], simp, rule spec_bind [OF spec_read_fallback], simp, goal_cases)
      case (1 es1 u es2 password)
      then have parts: "es1 = [EPrint False (''[pve_cleanup] provider credentials rejected by PAM; '' @
          ''falling back to host password file'')]" "es2 = []"
        by simp_all
      show ?case
      proof (rule spec_weaken [OF spec_try_ticket], intro allI impI)
        fix es' r ticket csrf
        assume "\<exists>out. es' = [EHttp (ticket_query c password) out] \<and>
          (\<forall>ticket csrf. r = Inr (ticket, csrf) \<longrightarrow> grants out ticket)" and "r = Inr (ticket, csrf)"
        then obtain out where "es' = [EHttp (ticket_query c password) out]" "grants out ticket" by blast
        with 2 es parts show "\<exists>es0 password out. es @ es1 @ es2 @ es' = es0 @ [EHttp (ticket_query c password) out]
            \<and> logged_in c es0 password out ticket"
          unfolding logged_in_def
          by (intro exI [of _ "es @ es1"] exI [of _ password] exI [of _ out]) simp
      qed
    qed
  qed
qed simp


text \<open>The parts of a failure message that do not come from the remote output.\<close>

definition message_heads :: "string \<Rightarrow> string \<Rightarrow> string set" where
  "message_heads host label =
     {''ssh to '' @ host @ '' timed out after '' @ int_str ssh_timeout @ ''s:'',
      ''ssh to '' @ host @ '' returned no remote exit status:''}
     \<union> {''pvesm free '' @ label @ '' exited '' @ int_str code @ '':'' |code. True}
     \<union> {''ssh to '' @ host @ '' failed (exit '' @ int_str code @ ''):'' |code. True}"

lemma ssh_verdict_shape:
  assumes "ssh_verdict host label out timed_out ex = Inr msg"
  shows "msg = [] \<or> (\<exists>h \<in> message_heads host label. prefix msg h \<or> msg = h @ CHR '' '' # last_n 400 (squeeze out))"
proof -
  let ?tail = "last_n 400 (squeeze out)"
  let ?late = "''ssh to '' @ host @ '' timed out after '' @ int_str ssh_timeout @ ''s:''"
  let ?silent = "''ssh to '' @ host @ '' returned no remote exit status:''"
  let ?code = "\<lambda>i. ''pvesm free '' @ label @ '' exited '' @ int_str i @ '':''"
  let ?ext = "\<lambda>i. ''ssh to '' @ host @ '' failed (exit '' @ int_str i @ ''):''"
  have heads: "?late \<in> message_heads host label" "?silent \<in> message_heads host label"
    "?code i \<in> message_heads host label" "?ext i \<in> message_heads host label" for i
    unfolding message_heads_def by blast+
  have eq: "''pvesm free '' @ label @ '' exited '' @ int_str i @ '': '' @ t = ?code i @ CHR '' '' # t" for i t
    by simp
  consider "timed_out" "?tail = []" | "timed_out" "?tail \<noteq> []"
    | "\<not> timed_out" "find_numbers ssh_exit_marker out \<noteq> []"
    | "\<not> timed_out" "find_numbers ssh_exit_marker out = []" by blast
  then show ?thesis
  proof cases
    case 1
    with assms have "?late = msg @ '':''" by (simp add: ssh_verdict_def)
    then have "prefix msg ?late" by (metis prefixI)
    with heads(1) show ?thesis by blast
  next
    case 2
    with assms have "msg = ?late @ CHR '' '' # ?tail" by (simp add: ssh_verdict_def)
    with heads(1) show ?thesis by blast
  next
    case 3
    with assms have "res_bind (py_int (last (find_numbers ssh_exit_marker out)))
        (\<lambda>i. if i = 0 then Inr [] else Inr (?code i @ CHR '' '' # ?tail)) = Inr msg"
      unfolding eq [symmetric] by (simp add: ssh_verdict_def Let_def del: res_bind_eq_Inr)
    then obtain i where "(if i = 0 then Inr [] else Inr (?code i @ CHR '' '' # ?tail) :: string res) = Inr msg"
      by (auto simp only: res_bind_eq_Inr)
    then have "msg = [] \<or> msg = ?code i @ CHR '' '' # ?tail" by (cases "i = 0") simp_all
    with heads(3) show ?thesis by blast
  next
    case 4
    show ?thesis
    proof (cases "ex = None \<or> ex = Some 0")
      case True
      with 4 assms have "msg = ?silent @ CHR '' '' # ?tail" by (auto simp: ssh_verdict_def)
      with heads(2) show ?thesis by blast
    next
      case False
      then obtain i where i: "ex = Some i" "i \<noteq> 0" by (cases ex) auto
      with 4 assms have "msg = ?ext i @ CHR '' '' # ?tail" by (simp add: ssh_verdict_def)
      with heads(4) show ?thesis by blast
    qed
  qed
qed


lemma int_str_chars: "c \<in> set (int_str i) \<Longrightarrow> is_digit c \<or> c = CHR ''-''"
  using nat_str_digits by (auto simp: int_str_def split: if_splits)

lemma digits_nat_total: "ds \<noteq> [] \<Longrightarrow> \<forall>c \<in> set ds. is_digit c \<Longrightarrow> \<exists>n. digits_nat ds = Some n"
  using digits_tail_append [of "tl ds" _ "[]"] by (cases ds) auto

lemma py_int_digits:
  assumes "ds \<noteq> []" and "\<forall>c \<in> set ds. is_digit c"
  shows "\<exists>n. py_int ds = Inr n"
proof -
  have "\<not> is_ws (hd ds)" "\<not> is_ws (last ds)" using assms is_digit_not_ws by auto
  then have strip: "py_strip ds = ds" using assms(1) by (intro py_strip_id)
  obtain c cs where ds: "ds = c # cs" using assms(1) by (cases ds) auto
  have "is_digit c" using assms(2) ds by simp
  then have "c \<noteq> CHR ''-''" "c \<noteq> CHR ''+''" by (auto simp: is_digit_def)
  with strip ds digits_nat_total [OF assms] \<open>is_digit c\<close> show ?thesis by (auto simp: py_int_def)
qed

lemma ssh_verdict_total: "\<exists>msg. ssh_verdict host label out timed_out ex = Inr msg"
proof (cases "\<not> timed_out \<and> find_numbers ssh_exit_marker out \<noteq> []")
  case True
  then have "last (find_numbers ssh_exit_marker out) \<in> set (find_numbers ssh_exit_marker out)" by simp
  from py_int_digits find_numbers_digits [OF this] obtain n where
    "py_int (last (find_numbers ssh_exit_marker out)) = Inr n" by blast
  with True show ?thesis by (cases "n = 0") (simp_all add: ssh_verdict_def Let_def)
next
  case False
  then show ?thesis by (auto simp: ssh_verdict_def Let_def split: option.splits)
qed

section \<open>What cleanup guarantees\<close>



lemma only_find_orphans: "only is_read (find_orphans P c ticket node)"
  unfolding find_orphans_def node_vmids_def node_content_def pve_request_def by (intro only_intros) simp_all

lemma only_clean_dry: "only is_read (clean_orphans P s False)"
  unfolding clean_orphans_def clean_node_def by (intro only_intros only_find_orphans) simp_all

text \<open>
  A dry run: without \<open>apply\<close> a run reads the cluster and prints, and neither deletes anything, nor
  opens a session on a host, nor changes a file.
\<close>

theorem dry_run_harmless:
  assumes "clean_orphans P s False w = (r, w')"
  shows "files w' = files w \<and> (\<exists>es. trace w' = trace w @ es \<and> (\<forall>e \<in> set es. is_read e))"
  using only_files [OF only_weaken [OF only_clean_dry is_read_not_write] assms]
    only_trace [OF only_clean_dry assms] by blast


text \<open>
  C35: whatever characters the volume's name has, the host's login shell passes the whole
  command to \<open>bash\<close> as one argument, and that command frees exactly the volume.
\<close>

theorem remote_command:
  "sh_words (bash_line (free_command label)) = Some [''bash'', ''-lc'', free_command label] \<and>
   (\<exists>rest. free_command label = ''pvesm free '' @ shlex_quote label @ CHR '' '' # rest) \<and>
   sh_words (''pvesm free '' @ shlex_quote label) = Some [''pvesm'', ''free'', label]"
proof -
  have safe: "shlex_quote ''pvesm'' = ''pvesm''" "shlex_quote ''free'' = ''free''" by code_simp+
  have "''pvesm free '' @ shlex_quote label =
      shlex_quote ''pvesm'' @ CHR '' '' # shlex_quote ''free'' @ CHR '' '' # shlex_quote label"
    by (simp add: safe)
  then have "sh_words (''pvesm free '' @ shlex_quote label) = Some [''pvesm'', ''free'', label]"
    by (simp only: sh_words_quote_Cons sh_words_quote) simp
  moreover have "\<exists>rest. free_command label = ''pvesm free '' @ shlex_quote label @ CHR '' '' # rest"
    by (intro exI [of _ "''2>&1; echo '' @ ssh_exit_marker @ ''$?''"]) (simp add: free_command_def)
  ultimately show ?thesis using bash_line_words by simp
qed

lemma print_lines: "\<exists>us w'. io_map print_line ls w = (Inr us, w')"
  by (induction ls arbitrary: w) (auto simp: io_bind_def ret_def print_line_def split: prod.splits sum.splits, metis Pair_inject sum.distinct(1))

text \<open>
  C40: the command line entry ends with status 0, 1 or 2 unless an exception other than
  \<open>RuntimeError\<close> escapes; it is 2 exactly when the endpoint or the password is not set, in which case it
  only prints; and without \<open>--apply\<close> it only reads.
\<close>

theorem standalone_exit:
  assumes "cleanup_standalone P argv w = (r, w')"
  shows "(case r of Inl e \<Rightarrow> \<not> isa (exn_kind e) RuntimeError | Inr n \<Rightarrow> n \<in> {0, 1, 2}) \<and>
     (r = Inr 2 \<longleftrightarrow> cs_endpoint (standalone_settings P) = [] \<or> cs_password (standalone_settings P) = []) \<and>
     (r = Inr 2 \<longrightarrow> (\<exists>t. trace w' = trace w @ [EPrint False t])) \<and>
     (''--apply'' \<in> set argv \<or> (\<exists>es. trace w' = trace w @ es \<and> list_all is_read es))"
proof (cases "cs_endpoint (standalone_settings P) = [] \<or> cs_password (standalone_settings P) = []")
  case True
  with assms show ?thesis
    by (auto simp: cleanup_standalone_def io_then_def io_bind_def print_line_def ret_def emit_def)
next
  case False
  let ?c = "clean_orphans P (standalone_settings P) (''--apply'' \<in> set argv)"
  have m: "cleanup_standalone P argv = io_except [RuntimeError]
      (io_bind ?c (\<lambda>ls. io_then (io_map print_line ls) (ret 0)))
      (\<lambda>exc. io_then (print_line (''preflight cleanup failed: '' @ exn_msg exc)) (ret 1))"
    using False by (simp add: cleanup_standalone_def Let_def)
  obtain q w1 where q: "?c w = (q, w1)" by (cases "?c w")
  have r: "case r of Inl e \<Rightarrow> \<not> isa (exn_kind e) RuntimeError | Inr n \<Rightarrow> n \<in> {0, 1}"
  proof (cases q)
    case (Inl e)
    with assms q show ?thesis
      unfolding m by (cases "isa (exn_kind e) RuntimeError")
        (auto simp: io_except_def io_bind_def io_then_def catches_def print_line_def ret_def)
  next
    case (Inr ls)
    with assms q print_lines [of ls w1] show ?thesis
      unfolding m by (auto simp: io_except_def io_bind_def io_then_def ret_def)
  qed
  then have "r \<noteq> Inr 2" by auto
  moreover have "\<exists>es. trace w' = trace w @ es \<and> list_all is_read es" if "''--apply'' \<notin> set argv"
  proof -
    have "only is_read (cleanup_standalone P argv)"
      unfolding m using that by (intro only_intros) (simp_all add: only_clean_dry)
    from only_trace [OF this assms] show ?thesis by (simp add: list_all_iff)
  qed
  ultimately show ?thesis using False r by (auto split: sum.splits)
qed

section \<open>The properties at work\<close>

text \<open>A node with one VM, a volume of that VM, and a volume that a failed creation left behind.\<close>

definition cleanup_reply :: "http_request \<Rightarrow> json" where
  "cleanup_reply r =
     (if req_url r = ''https://h/api2/json/access/ticket''
      then JObj [(''data'', JObj [(''ticket'', JStr ''T'')])]
      else if req_url r = ''https://h/api2/json/nodes/pve01/qemu''
      then JObj [(''data'', JList [JObj [(''vmid'', JInt 2001)]])]
      else if req_url r = ''https://h/api2/json/nodes/pve01/storage/lvm/content''
      then JObj [(''data'', JList [JObj [(''volid'', JStr ''lvm:vm-2001-disk-0'')],
                                 JObj [(''volid'', JStr ''lvm:vm-2999-cloudinit'')]])]
      else if req_method r = ''DELETE'' then JObj [(''data'', JStr ''UPID:1'')]
      else JObj [(''data'', JObj [(''status'', JStr ''stopped''), (''exitstatus'', JStr ''OK'')])])"

definition cleanup_demo :: cleanup_settings where
  "cleanup_demo =
     \<lparr>cs_endpoint = ''h'', cs_username = ''root@pam'', cs_password = ''pw'', cs_node_names = [''pve01''],
      cs_datastore_ids = [''lvm''], cs_insecure = True, cs_fallback_file = Some ''/pw'',
      cs_node_ssh_hosts = None\<rparr>"

definition cleanup_client :: pve_client where
  "cleanup_client = \<lparr>pc_settings = cleanup_demo, pc_host = ''h''\<rparr>"

lemma cleanup_init: "pve_client_init cleanup_demo = Inr cleanup_client"
  by code_simp

lemma cleanup_auth:
  "\<exists>es. pve_auth (scripted cleanup_reply out d) cleanup_client w = (Inr (JStr ''T'', JStr []), w\<lparr>trace := es\<rparr>)"
  by (simp add: pve_auth_def try_ticket_def pve_request_def cleanup_reply_def io_eval payload_data_or_empty_def
      dget_or_def cleanup_client_def cleanup_demo_def pve_url_def Let_def del: io_run_simps, rule exI, rule refl)

definition demo_vm_list :: json where
  "demo_vm_list = JObj [(''data'', JList [JObj [(''vmid'', JInt 2001)]])]"

definition demo_content :: json where
  "demo_content = JObj [(''data'', JList [JObj [(''volid'', JStr ''lvm:vm-2001-disk-0'')],
                                         JObj [(''volid'', JStr ''lvm:vm-2999-cloudinit'')]])]"

definition demo_orphan :: orphan where
  "demo_orphan = (''pve01'', ''lvm'', ''vm-2999-cloudinit'')"

lemma demo_listing:
  "vmids_of demo_vm_list = Inr [JInt 2001]"
  "res_bind (content_of ''lvm'' demo_content) (\<lambda>es. res_fold (add_orphan [JInt 2001] ''pve01'' ''lvm'') es []) =
     Inr [demo_orphan]"
  by code_simp+

lemma demo_json_ok [simp]: "json_ok demo_vm_list" "json_ok demo_content"
  by (simp_all add: demo_vm_list_def demo_content_def)

lemma cleanup_reply_vm: "req_url r = ''https://h/api2/json/nodes/pve01/qemu'' \<Longrightarrow> cleanup_reply r = demo_vm_list"
  and cleanup_reply_content:
    "req_url r = ''https://h/api2/json/nodes/pve01/storage/lvm/content'' \<Longrightarrow> cleanup_reply r = demo_content"
  by (simp_all add: cleanup_reply_def demo_vm_list_def demo_content_def)

lemma cleanup_find:
  "\<exists>es. find_orphans (scripted cleanup_reply out d) cleanup_client (JStr ''T'') ''pve01'' w =
     (Inr [demo_orphan], w\<lparr>trace := es\<rparr>)"
proof -
  obtain es where es: "content_of ''lvm'' demo_content = Inr es"
    "res_fold (add_orphan [JInt 2001] ''pve01'' ''lvm'') es [] = Inr [demo_orphan]"
    using demo_listing(2) by auto
  show ?thesis
    by (simp add: find_orphans_def node_vmids_def node_content_def pve_request_def pve_url_def cleanup_client_def
        cleanup_demo_def cleanup_reply_vm cleanup_reply_content demo_listing(1) es io_eval del: io_run_simps,
        rule exI, rule refl)
qed

lemma demo_task:
  "task_outcome 200 (JObj [(''data'', JObj [(''status'', JStr ''stopped''), (''exitstatus'', JStr ''OK'')])]) = Inr (Some [])"
  by code_simp

lemma cleanup_delete:
  "\<exists>es. delete_content (scripted cleanup_reply out d) cleanup_client (JStr ''T'') csrf ''lvm'' ''vm-2999-cloudinit''
     ''pve01'' w = (Inr [], w\<lparr>trace := es\<rparr>)"
proof -
  have sixty: "(60::nat) = Suc 59" by simp
  show ?thesis
    unfolding delete_content_def wait_task_def sixty poll_task.simps
    by (simp add: pve_request_def pve_url_def volume_path_def
        cleanup_client_def cleanup_demo_def cleanup_reply_def dget_or_def demo_task io_eval del: io_run_simps,
        rule exI, rule refl)
qed

lemma cleanup_run:
  "\<exists>w'. clean_orphans (scripted cleanup_reply out d) cleanup_demo True blank =
     (Inr [node_header ''pve01'' [demo_orphan], ''  removed pve01:lvm:vm-2999-cloudinit''], w')"
proof -
  let ?P = "scripted cleanup_reply out d"
  obtain e1 where 1: "pve_auth ?P cleanup_client blank = (Inr (JStr ''T'', JStr []), blank\<lparr>trace := e1\<rparr>)"
    using cleanup_auth by blast
  obtain e2 where 2: "find_orphans ?P cleanup_client (JStr ''T'') ''pve01'' (blank\<lparr>trace := e1\<rparr>) =
      (Inr [demo_orphan], blank\<lparr>trace := e2\<rparr>)"
    using cleanup_find [of out d "blank\<lparr>trace := e1\<rparr>"] by auto
  obtain e3 where 3: "delete_content ?P cleanup_client (JStr ''T'') (JStr []) ''lvm'' ''vm-2999-cloudinit'' ''pve01''
      (blank\<lparr>trace := e2\<rparr>) = (Inr [], blank\<lparr>trace := e3\<rparr>)"
    using cleanup_delete [of out d "JStr []" "blank\<lparr>trace := e2\<rparr>"] by auto
  have line: "result_line True (dset demo_orphan [] []) demo_orphan = ''  removed pve01:lvm:vm-2999-cloudinit''"
    and fine: "failed_keys (dset demo_orphan [] []) = []"
    by code_simp+
  have nodes: "cs_node_names cleanup_demo = [''pve01'']" by (simp add: cleanup_demo_def)
  have split: "(case demo_orphan of (n, d, v) \<Rightarrow> f n d v) = f ''pve01'' ''lvm'' ''vm-2999-cloudinit''" for f
    by (simp add: demo_orphan_def)
  have "delete_all ?P cleanup_client (JStr ''T'') (JStr []) [demo_orphan] (blank\<lparr>trace := e2\<rparr>) =
      (Inr (dset demo_orphan [] []), blank\<lparr>trace := e3\<rparr>)"
    by (simp add: delete_all_def split io_bind_def 3 io_run_eqs del: io_run_simps)
  then have "apply_node ?P cleanup_client (JStr ''T'') (JStr []) [demo_orphan] (blank\<lparr>trace := e2\<rparr>) =
      (Inr (dset demo_orphan [] []), blank\<lparr>trace := e3\<rparr>)"
    by (simp add: apply_node_def io_bind_def fine io_run_eqs del: io_run_simps)
  then have "clean_node ?P cleanup_client (JStr ''T'') (JStr []) True ''pve01'' (blank\<lparr>trace := e1\<rparr>) =
      (Inr [node_header ''pve01'' [demo_orphan], ''  removed pve01:lvm:vm-2999-cloudinit''], blank\<lparr>trace := e3\<rparr>)"
    by (simp add: clean_node_def io_bind_def 2 line io_run_eqs del: io_run_simps)
  with 1 show ?thesis
    by (simp add: clean_orphans_def cleanup_init nodes io_bind_def io_run_eqs del: io_run_simps)
qed



lemma dry_run_harmless_witness:
  "files (snd (clean_orphans (scripted cleanup_reply [] False) cleanup_demo False blank)) = files blank"
  using dry_run_harmless [OF surjective_pairing] by blast



lemma standalone_exit_witness:
  "fst (cleanup_standalone (scripted cleanup_reply [] False) [] blank) = Inr 2"
  using standalone_exit [of "scripted cleanup_reply [] False" "[]" blank, OF surjective_pairing]
  by (simp add: standalone_settings_def getenv_def scripted_def)

text \<open>A host that prints the password back: the message does not.\<close>

definition secret :: string where
  "secret = ''S3cret!''"

lemma secret_protected: "protected_password secret"
  by code_simp

lemma digit_not_bang: "CHR ''!'' \<notin> set (int_str i)"
  using int_str_chars [of "CHR ''!''" i] by (auto simp: is_digit_def)

lemma secret_heads: "h \<in> message_heads ''pve01'' ''lvm:v'' \<Longrightarrow> \<not> sublist secret h"
proof
  assume h: "h \<in> message_heads ''pve01'' ''lvm:v''" and "sublist secret h"
  then have "CHR ''!'' \<in> set h" using set_mono_sublist [of secret h] by (auto simp: secret_def)
  with h digit_not_bang show False by (auto simp: message_heads_def ssh_timeout_def)
qed


end
