(* ===== verification/Base64.thy ===== *)
theory Base64
  imports Pve_Api
begin

text \<open>
  Standard base64, as \<open>base64.b64encode\<close> writes it and \<open>base64 -d\<close> reads it, on lists of bytes. The encoder
  is shown to be a codec whose output the shell leaves alone.
\<close>

definition b64_char :: "nat \<Rightarrow> char" where
  "b64_char n =
     (if n < 26 then char_of (65 + n) else if n < 52 then char_of (71 + n)
      else if n < 62 then char_of (n - 4) else if n = 62 then CHR ''+'' else CHR ''/'')"

definition b64_val :: "char \<Rightarrow> nat option" where
  "b64_val c =
     (let n = (of_char c :: nat) in
      if 65 \<le> n \<and> n \<le> 90 then Some (n - 65) else if 97 \<le> n \<and> n \<le> 122 then Some (n - 71)
      else if 48 \<le> n \<and> n \<le> 57 then Some (n + 4) else if c = CHR ''+'' then Some 62
      else if c = CHR ''/'' then Some 63 else None)"

fun b64encode :: "nat list \<Rightarrow> string" where
  "b64encode [] = []"
| "b64encode [a] = [b64_char (a div 4), b64_char (a mod 4 * 16), CHR ''='', CHR ''='']"
| "b64encode [a, b] =
     [b64_char (a div 4), b64_char (a mod 4 * 16 + b div 16), b64_char (b mod 16 * 4), CHR ''='']"
| "b64encode (a # b # c # r) =
     b64_char (a div 4) # b64_char (a mod 4 * 16 + b div 16) # b64_char (b mod 16 * 4 + c div 64) #
     b64_char (c mod 64) # b64encode r"

fun b64decode :: "string \<Rightarrow> nat list option" where
  "b64decode [] = Some []"
| "b64decode (w # x # y # z # r) =
     (case (b64_val w, b64_val x) of
        (Some i, Some j) \<Rightarrow>
          if y = CHR ''='' then (if z = CHR ''='' \<and> r = [] then Some [i * 4 + j div 16] else None)
          else
            (case b64_val y of
               None \<Rightarrow> None
             | Some k \<Rightarrow>
                 if z = CHR ''='' then
                   (if r = [] then Some [i * 4 + j div 16, j mod 16 * 16 + k div 4] else None)
                 else
                   (case b64_val z of
                      None \<Rightarrow> None
                    | Some l \<Rightarrow>
                        map_option (\<lambda>bs. (i * 4 + j div 16) # (j mod 16 * 16 + k div 4) # (k mod 4 * 64 + l) # bs)
                          (b64decode r)))
      | _ \<Rightarrow> None)"
| "b64decode _ = None"

lemma of_char_small: "m < 256 \<Longrightarrow> (of_char (char_of m :: char) :: nat) = m"
  by simp

lemma b64_special: "b64_val (CHR ''+'') = Some 62" "b64_val (CHR ''/'') = Some 63" "b64_val (CHR ''='') = None"
  by code_simp+

lemma b64_val_char: "n < 64 \<Longrightarrow> b64_val (b64_char n) = Some n"
proof -
  assume n: "n < 64"
  consider "n < 26" | "26 \<le> n" "n < 52" | "52 \<le> n" "n < 62" | "n = 62" | "n = 63" using n by linarith
  then show ?thesis
  proof cases
    case 1
    then show ?thesis using of_char_small [of "65 + n"] by (simp add: b64_char_def b64_val_def Let_def)
  next
    case 2
    then show ?thesis using of_char_small [of "71 + n"] by (simp add: b64_char_def b64_val_def Let_def)
  next
    case 3
    then have "48 \<le> n - 4" "n - 4 \<le> 57" by linarith+
    with 3 show ?thesis using of_char_small [of "n - 4"] by (simp add: b64_char_def b64_val_def Let_def)
  qed (simp_all add: b64_char_def b64_special)
qed

lemma b64_char_plain: "n < 64 \<Longrightarrow> b64_char n \<noteq> CHR ''=''"
  using b64_val_char [of n] b64_special(3) by auto

lemma sextets:
  fixes a b c :: nat
  assumes "a < 256" and "b < 256" and "c < 256"
  shows "a div 4 < 64" and "a mod 4 * 16 < 64" and "a mod 4 * 16 + b div 16 < 64"
    and "b mod 16 * 4 < 64" and "b mod 16 * 4 + c div 64 < 64"
    and "(a mod 4 * 16 + b div 16) div 16 = a mod 4" and "(a mod 4 * 16 + b div 16) mod 16 = b div 16"
    and "(b mod 16 * 4 + c div 64) div 4 = b mod 16" and "(b mod 16 * 4 + c div 64) mod 4 = c div 64"
proof -
  have d: "b div 16 < 16" "c div 64 < 4" using assms by (simp_all add: less_mult_imp_div_less)
  have m: "a mod 4 < 4" "b mod 16 < 16" by simp_all
  show "a div 4 < 64" using assms by (simp add: less_mult_imp_div_less)
  show "a mod 4 * 16 < 64" "a mod 4 * 16 + b div 16 < 64" using m d by linarith+
  show "b mod 16 * 4 < 64" "b mod 16 * 4 + c div 64 < 64" using m d by linarith+
  show "(a mod 4 * 16 + b div 16) div 16 = a mod 4" "(a mod 4 * 16 + b div 16) mod 16 = b div 16"
    using d by simp_all
  show "(b mod 16 * 4 + c div 64) div 4 = b mod 16" "(b mod 16 * 4 + c div 64) mod 4 = c div 64"
    using d by simp_all
qed

lemma b64_decode_encode: "\<forall>n \<in> set bs. n < 256 \<Longrightarrow> b64decode (b64encode bs) = Some bs"
proof (induction bs rule: b64encode.induct)
  case (2 a)
  then have a: "a < 256" by simp
  note s = sextets [OF a a a]
  show ?case using s by (simp add: b64_val_char)
next
  case (3 a b)
  then have ab: "a < 256" "b < 256" by simp_all
  note s = sextets [OF ab ab(2)]
  show ?case using s by (simp add: b64_val_char b64_char_plain)
next
  case (4 a b c r)
  then have abc: "a < 256" "b < 256" "c < 256" by simp_all
  note s = sextets [OF abc]
  show ?case using s 4 by (simp add: b64_val_char b64_char_plain)
qed simp

text \<open>\<open>base64.b64encode(s.encode()).decode()\<close>.\<close>

definition b64_text :: "string \<Rightarrow> string" where
  "b64_text s = b64encode (utf8 s)"

definition unb64_text :: "string \<Rightarrow> string option" where
  "unb64_text t = (case b64decode t of None \<Rightarrow> None | Some bs \<Rightarrow> utf8_decode bs)"

lemma unb64_b64: "unb64_text (b64_text s) = Some s"
  by (simp add: unb64_text_def b64_text_def b64_decode_encode utf8_bytes utf8_decode_utf8)

interpretation b64: codec b64_text unb64_text "\<lambda>_. True"
  by unfold_locales (simp add: unb64_b64)

definition b64_safe :: "char \<Rightarrow> bool" where
  "b64_safe c \<longleftrightarrow> b64_val c \<noteq> None \<or> c = CHR ''=''"

lemma b64encode_safe: "\<forall>n \<in> set bs. n < 256 \<Longrightarrow> list_all b64_safe (b64encode bs)"
proof (induction bs rule: b64encode.induct)
  case (2 a)
  then have a: "a < 256" by simp
  show ?case using sextets [OF a a a] by (simp add: b64_safe_def b64_val_char)
next
  case (3 a b)
  then have ab: "a < 256" "b < 256" by simp_all
  show ?case using sextets [OF ab ab(2)] by (simp add: b64_safe_def b64_val_char)
next
  case (4 a b c r)
  then have abc: "a < 256" "b < 256" "c < 256" by simp_all
  show ?case using sextets [OF abc] 4 by (simp add: b64_safe_def b64_val_char)
qed simp

end
