(* ===== verification/Sdn_Fdb.thy ===== *)
theory Sdn_Fdb
  imports Pve_Cleanup Base64
begin

text \<open>
  \<open>infra/pulumi/modules/sdn_fdb.py\<close>: the static forwarding entries of the VXLAN overlay. The MACs of the
  estate's VMs are read from PVE, every node gets a data file with one line per remote MAC and peer, and
  a hook that applies the file whenever the device comes up; both are installed over SSH. The lemmas show
  what the data file contains, that it survives the transport and is read back by the hook as it was
  meant, and what counts as success.
\<close>

section \<open>Settings\<close>

definition default_host_password_file :: string where
  "default_host_password_file = ''~/.proxmoxpass''"

definition fdb_ssh_timeout :: int where
  "fdb_ssh_timeout = 120"

definition fdb_exit_marker :: string where
  "fdb_exit_marker = ''SDN_FDB_SSH_EXIT=''"

definition multicast_vrrp_mac :: string where
  "multicast_vrrp_mac = ''33:33:00:00:01''"

definition broadcast_mac :: string where
  "broadcast_mac = ''ff:ff:ff:ff:ff:ff''"

record sdn_fdb_settings =
  sf_endpoint :: string
  sf_username :: string
  sf_password :: string
  sf_insecure :: bool
  sf_node_names :: "string list"
  sf_peers :: "string list"
  sf_vxlan_device :: string
  sf_data_file :: string
  sf_data_dir :: string
  sf_hook_file :: string
  sf_password_file :: string
  sf_node_ssh_hosts :: "(string, string) dict"
  sf_sdn_nic_index :: "(int, int) dict"

text \<open>\<open>tuple.index(x)\<close>, and indexing with what it returns.\<close>

fun py_index :: "'a list \<Rightarrow> 'a \<Rightarrow> nat res" where
  "py_index [] x = throw ValueError ''tuple.index(x): x not in tuple''"
| "py_index (y # ys) x = (if y = x then Inr 0 else res_bind (py_index ys x) (\<lambda>i. Inr (Suc i)))"

definition py_nth :: "'a list \<Rightarrow> nat \<Rightarrow> 'a res" where
  "py_nth xs i = (if i < length xs then Inr (xs ! i) else throw IndexError ''tuple index out of range'')"

definition underlay_for :: "sdn_fdb_settings \<Rightarrow> string \<Rightarrow> string res" where
  "underlay_for s node = res_bind (py_index (sf_node_names s) node) (py_nth (sf_peers s))"

definition fdb_ssh_host_for :: "sdn_fdb_settings \<Rightarrow> string \<Rightarrow> string" where
  "fdb_ssh_host_for s node =
     (if sf_node_ssh_hosts s \<noteq> [] then dget_or (sf_node_ssh_hosts s) node node else node)"

section \<open>Running a command on a node\<close>

definition fdb_read_password :: "'w platform \<Rightarrow> sdn_fdb_settings \<Rightarrow> ('w, string) io" where
  "fdb_read_password P s =
     (let path = sf_password_file s in
      if path = [] then raise (Exn RuntimeError ''no host password file configured'')
      else
        io_bind
          (io_except [OSError] (io_bind (read_file (p_expanduser P path)) (\<lambda>t. ret (py_strip t)))
            (\<lambda>exc. raise (Exn RuntimeError (''host password file unreadable: '' @ path))))
          (\<lambda>password.
          if password = [] then raise (Exn RuntimeError (''host password file is empty: '' @ path))
          else ret password))"

definition marked_command :: "string \<Rightarrow> string" where
  "marked_command remote = remote @ '' 2>&1; echo '' @ fdb_exit_marker @ ''$?''"

definition fdb_verdict :: "string \<Rightarrow> string \<Rightarrow> bool \<Rightarrow> int option \<Rightarrow> (bool \<times> string) res" where
  "fdb_verdict host out timed_out code =
     (let markers = find_numbers fdb_exit_marker out in
      if markers \<noteq> [] then
        res_bind (py_int (last markers)) (\<lambda>n.
        if n = 0 then Inr (True, out)
        else Inr (False, ''remote shell exit '' @ last markers @ '': '' @ last_n 400 out))
      else if timed_out then
        Inr (False, ''ssh to '' @ host @ '' timed out after '' @ int_str fdb_ssh_timeout @ ''s'')
      else Inr (code = Some 0 \<or> code = None, out))"

definition host_ssh :: "'w platform \<Rightarrow> sdn_fdb_settings \<Rightarrow> string \<Rightarrow> string \<Rightarrow> ('w, bool \<times> string) io" where
  "host_ssh P s node remote =
     io_then (import_pexpect P)
     (io_bind (fdb_read_password P s) (\<lambda>password.
      let host = fdb_ssh_host_for s node in
      io_bind (ssh_session P (ssh_argv host (bash_line (marked_command remote))) fdb_ssh_timeout password)
        (\<lambda>(parts, timed_out).
      io_bind (exitstatus P) (\<lambda>code.
      lift (fdb_verdict host (redact password parts) timed_out code)))))"

section \<open>The MACs of the estate\<close>

definition estate_vmids :: "sdn_fdb_settings \<Rightarrow> json list \<Rightarrow> int list" where
  "estate_vmids s vmids = sort (filter (\<lambda>k. jmember (JInt k) vmids) (dkeys (sf_sdn_nic_index s)))"

definition node_macs :: "'w platform \<Rightarrow> pve_client \<Rightarrow> json \<Rightarrow> sdn_fdb_settings \<Rightarrow> string \<Rightarrow> json list \<Rightarrow> ('w, string list) io" where
  "node_macs P c ticket s node vmids =
     io_bind
       (io_map (\<lambda>vmid. node_vm_mac P c ticket node vmid (dget_or (sf_sdn_nic_index s) vmid 0)) (estate_vmids s vmids))
       (\<lambda>macs. ret (filter (\<lambda>m. m \<noteq> []) macs))"

definition discover_sdn_macs ::
  "'w platform \<Rightarrow> pve_client \<Rightarrow> json \<Rightarrow> sdn_fdb_settings \<Rightarrow> ('w, (string, string list) dict) io" where
  "discover_sdn_macs P c ticket s =
     io_fold
       (\<lambda>node macs.
          io_bind
            (io_except [RuntimeError]
              (io_bind (node_vmids P c ticket node) (\<lambda>v. ret (Some v)))
              (\<lambda>exc. io_then
                 (print_err (''[sdn_fdb] '' @ node @ '': VM list unavailable ('' @ exn_msg exc @ ''); skipping''))
                 (ret None)))
            (\<lambda>r.
            case r of
              None \<Rightarrow> ret (dset node [] macs)
            | Some vmids \<Rightarrow> io_bind (node_macs P c ticket s node vmids) (\<lambda>ms. ret (dset node ms macs))))
       (sf_node_names s) []"

section \<open>The data file and the hook\<close>

definition peer_lines :: "string \<Rightarrow> string list \<Rightarrow> string list" where
  "peer_lines peer macs = map (\<lambda>m. m @ '' '' @ peer) (macs @ [multicast_vrrp_mac, broadcast_mac])"

definition fdb_lines_for ::
  "string \<Rightarrow> sdn_fdb_settings \<Rightarrow> (string, string list) dict \<Rightarrow> string list res" where
  "fdb_lines_for node s macs =
     res_fold
       (\<lambda>remote ls.
          if remote = node then Inr ls
          else res_bind (underlay_for s remote) (\<lambda>peer. Inr (ls @ peer_lines peer (dget_or macs remote []))))
       (sf_node_names s) []"

definition data_body :: "string list \<Rightarrow> string" where
  "data_body fdb_lines = py_join [newline] fdb_lines @ [newline]"

definition in_quotes :: "string \<Rightarrow> string" where
  "in_quotes s = dquote # s @ [dquote]"

definition hook_script :: "sdn_fdb_settings \<Rightarrow> string" where
  "hook_script s =
     (let dev = sf_vxlan_device s; data = sf_data_file s in
      py_join [newline]
        [''#!/bin/sh'',
         ''# hook'',
         ''# Durable SDN vxlan remote-FDB dst bindings (see modules/sdn_fdb.py).'',
         ''# PVE 9.2 has no daemon to program the kernel FDB from vxlan_remoteip, so'',
         ''# without this the cross-node overlay is dead until someone runs it by'',
         ''# hand. Runs on every if-up of the vxlan device: boot and pve-sdn-commit.'',
         ''if [ '' @ in_quotes ''${IFACE:-$1}'' @ '' != '' @ in_quotes dev @ '' ] && [ '' @
           in_quotes ''${IFACE:-$1}'' @ '' != '' @ in_quotes ''vlab'' @ '' ]; then'',
         ''    exit 0'',
         ''fi'',
         ''[ -r '' @ in_quotes data @ '' ] || exit 0'',
         ''# '' @ [CHR 0x60, CHR 0x60] @ ''|| [ -n '' @ in_quotes ''$mac'' @ '' ]'' @ [CHR 0x60, CHR 0x60] @
           '' guards a final line that lacks a trailing newline'',
         ''# (a bare '' @ [CHR 0x60, CHR 0x60] @ ''while read'' @ [CHR 0x60, CHR 0x60] @
           '' would silently drop it, losing that peer'' @ [squote] @ ''s dst).'',
         ''while read -r mac peer _ || [ -n '' @ in_quotes ''$mac'' @ '' ]; do'',
         ''    [ -n '' @ in_quotes ''$mac'' @ '' ] || continue'',
         ''    case '' @ in_quotes ''$mac'' @ '' in '' @ [backslash] @ ''#*) continue ;; esac'',
         ''    [ -n '' @ in_quotes ''$peer'' @ '' ] || continue'',
         ''    # static dst entry; append is idempotent (a duplicate is a no-op warning).'',
         ''    bridge fdb append '' @ in_quotes ''$mac'' @ '' dev '' @ dev @ '' dst '' @ in_quotes ''$peer'' @
           '' 2>/dev/null || true'',
         ''done < '' @ in_quotes data,
         ''exit 0'',
         []])"

section \<open>Installing on a node\<close>

definition install_script :: "sdn_fdb_settings \<Rightarrow> string \<Rightarrow> string \<Rightarrow> string" where
  "install_script s data_b64 hook_b64 =
     ''set -e; '' @
     ''mkdir -p '' @ sf_data_dir s @ ''; '' @
     ''echo '' @ data_b64 @ '' | base64 -d > '' @ sf_data_file s @ ''.new; '' @
     ''mv '' @ sf_data_file s @ ''.new '' @ sf_data_file s @ ''; '' @
     ''echo '' @ hook_b64 @ '' | base64 -d > '' @ sf_hook_file s @ ''.new; '' @
     ''chmod 755 '' @ sf_hook_file s @ ''.new; '' @
     ''mv '' @ sf_hook_file s @ ''.new '' @ sf_hook_file s @ ''; '' @
     ''IFACE='' @ sf_vxlan_device s @ '' '' @ sf_hook_file s @ '' || true; '' @
     ''sleep 1; '' @
     ''echo FDB_COUNT=$(bridge fdb show dev '' @ sf_vxlan_device s @ '' 2>/dev/null | wc -l)''"

text \<open>\<open>ln.split()[0]\<close>.\<close>

definition first_word :: "string \<Rightarrow> string res" where
  "first_word ln = (case py_words ln of [] \<Rightarrow> throw IndexError ''list index out of range'' | v # _ \<Rightarrow> Inr v)"

definition expected_macs :: "string list \<Rightarrow> string list res" where
  "expected_macs fdb_lines =
     res_bind (res_map first_word fdb_lines) (\<lambda>ms.
     Inr (filter (\<lambda>m. m \<noteq> multicast_vrrp_mac \<and> m \<noteq> broadcast_mac) ms))"

definition probe_one :: "string \<Rightarrow> string" where
  "probe_one m =
     ''grep -qi '' @ in_quotes (''^'' @ m @ '' '') @ '' /tmp/.fdb_show && echo '' @ in_quotes (m @ '' present'') @
     '' || echo '' @ in_quotes (m @ '' missing'')"

definition probe_script :: "sdn_fdb_settings \<Rightarrow> string list \<Rightarrow> string" where
  "probe_script s expected =
     ''bridge fdb show dev '' @ sf_vxlan_device s @ '' 2>/dev/null > /tmp/.fdb_show; '' @
     py_join '' '' (map probe_one expected)"

text \<open>\<open>str.splitlines()\<close>.\<close>

definition is_break :: "char \<Rightarrow> bool" where
  "is_break c \<longleftrightarrow> (let n = (of_char c :: nat) in (10 \<le> n \<and> n \<le> 13) \<or> (28 \<le> n \<and> n \<le> 30) \<or> n = 133)"

function py_splitlines :: "string \<Rightarrow> string list" where
  "py_splitlines s =
     (if s = [] then []
      else
        (case dropWhile (\<lambda>c. \<not> is_break c) s of
           [] \<Rightarrow> [s]
         | b # r \<Rightarrow>
             takeWhile (\<lambda>c. \<not> is_break c) s #
             py_splitlines (if b = CHR 0x0D \<and> r \<noteq> [] \<and> hd r = newline then tl r else r)))"
  by pat_completeness auto

lemma splitlines_decreases:
  assumes "dropWhile (\<lambda>c. \<not> is_break c) s = b # r"
  shows "length (if b = CHR 0x0D \<and> r \<noteq> [] \<and> hd r = newline then tl r else r) < length s"
  using length_dropWhile_le [of "\<lambda>c. \<not> is_break c" s] assms by auto

termination py_splitlines
  by (relation "measure length") (simp_all add: splitlines_decreases)

declare py_splitlines.simps [simp del]

definition missing_macs :: "string \<Rightarrow> string list res" where
  "missing_macs out = res_map first_word (filter (py_in ''missing'') (py_splitlines out))"

definition install_line :: "string \<Rightarrow> string list \<Rightarrow> string \<Rightarrow> string" where
  "install_line node fdb_lines out =
     node @ '': '' @ nat_str (length fdb_lines) @ '' dst line(s); '' @
     (case find_numbers ''FDB_COUNT='' out of
        n # _ \<Rightarrow> ''FDB entries now '' @ n
      | [] \<Rightarrow> ''apply FAILED: '' @ last_n 300 out)"

definition verify_node ::
  "'w platform \<Rightarrow> sdn_fdb_settings \<Rightarrow> string \<Rightarrow> string list \<Rightarrow> ('w, string list) io" where
  "verify_node P s node expected =
     (if expected = [] then ret []
      else
        io_bind (host_ssh P s node (probe_script s expected)) (\<lambda>(ok2, out2).
        io_bind (lift (missing_macs out2)) (\<lambda>missing.
        ret (if missing \<noteq> []
             then [node @ '': MISSING dst (hook will heal on next if-up): '' @ py_join '', '' missing]
             else []))))"

definition install_node ::
  "'w platform \<Rightarrow> sdn_fdb_settings \<Rightarrow> string \<Rightarrow> (string, string list) dict \<Rightarrow> ('w, string list) io" where
  "install_node P s node macs =
     io_bind (lift (fdb_lines_for node s macs)) (\<lambda>fdb_lines.
     let script = install_script s (b64_text (data_body fdb_lines)) (b64_text (hook_script s)) in
     io_bind (host_ssh P s node script) (\<lambda>(ok, out).
     let ls = install_line node fdb_lines out #
              (if ok then [] else [node @ '': host-ssh reported failure: '' @ last_n 300 out])
     in
     io_bind (lift (expected_macs fdb_lines)) (\<lambda>expected.
     io_bind (verify_node P s node expected) (\<lambda>more. ret (ls @ more)))))"

section \<open>The whole overlay\<close>

definition fdb_cleanup_settings :: "sdn_fdb_settings \<Rightarrow> cleanup_settings" where
  "fdb_cleanup_settings s =
     \<lparr>cs_endpoint = sf_endpoint s, cs_username = sf_username s, cs_password = sf_password s,
      cs_node_names = sf_node_names s, cs_datastore_ids = [], cs_insecure = sf_insecure s,
      cs_fallback_file = None, cs_node_ssh_hosts = None\<rparr>"

definition discovered_line :: "sdn_fdb_settings \<Rightarrow> (string, string list) dict \<Rightarrow> string" where
  "discovered_line s macs =
     ''sdn-fdb: discovered MACs '' @
     py_join '', '' (map (\<lambda>n. n @ ''='' @ nat_str (length (dget_or macs n []))) (sf_node_names s))"

definition ensure_sdn_fdb :: "'w platform \<Rightarrow> sdn_fdb_settings \<Rightarrow> bool \<Rightarrow> ('w, string list) io" where
  "ensure_sdn_fdb P s dry_run =
     (if dry_run then ret [''sdn-fdb: skipped (dry run / preview)'']
      else
        io_bind (lift (pve_client_init (fdb_cleanup_settings s))) (\<lambda>c.
        io_bind (pve_auth P c) (\<lambda>(ticket, csrf).
        io_bind (discover_sdn_macs P c ticket s) (\<lambda>macs.
        io_fold (\<lambda>node ls. io_bind (install_node P s node macs) (\<lambda>new. ret (ls @ new)))
          (sf_node_names s) [discovered_line s macs]))))"

definition fdb_env_settings :: "'w platform \<Rightarrow> sdn_fdb_settings" where
  "fdb_env_settings P =
     \<lparr>sf_endpoint = getenv P ''PROXMOX_VE_ENDPOINT'' [],
      sf_username = getenv P ''PROXMOX_VE_USERNAME'' ''root@pam'',
      sf_password = getenv P ''PROXMOX_VE_PASSWORD'' [],
      sf_insecure = py_lower (getenv P ''PROXMOX_VE_INSECURE'' ''true'') \<in> {''1'', ''true'', ''yes'', ''on''},
      sf_node_names = comma_list (getenv P ''PROXMOX_VE_NODES'' ''pve01,pve02,pve03''),
      sf_peers = comma_list (getenv P ''PROXMOX_VE_SDN_PEERS'' ''192.168.1.21,192.168.1.22,192.168.1.23''),
      sf_vxlan_device = ''vxlan_vlab'',
      sf_data_file = ''/etc/sdn-vlab-fdb/sdn-vlab-fdb.txt'',
      sf_data_dir = ''/etc/sdn-vlab-fdb'',
      sf_hook_file = ''/etc/network/if-up.d/sdn-vlab-fdb'',
      sf_password_file = (let f = getenv P ''PROXMOX_HOST_PASSWORD_FILE'' []
                          in if f \<noteq> [] then f else default_host_password_file),
      sf_node_ssh_hosts = default_ssh_hosts,
      sf_sdn_nic_index = [(2001, 1), (2002, 0), (2101, 0), (2102, 0), (2103, 0), (2201, 0), (2202, 0), (2203, 0)]\<rparr>"

definition fdb_standalone :: "'w platform \<Rightarrow> string list \<Rightarrow> ('w, int) io" where
  "fdb_standalone P argv =
     io_bind (ensure_sdn_fdb P (fdb_env_settings P) (''--apply'' \<notin> set argv)) (\<lambda>ls.
     io_then (io_map print_line ls) (ret 0))"

section \<open>The hook's loop\<close>

text \<open>
  What the shell does with the data file: \<open>read -r mac peer _\<close> splits a line at blanks and fails at the end
  of the file, though it then still assigns the fields of an unterminated last line, which the second
  condition of the loop lets through. The result are the \<open>bridge fdb append\<close> calls, in order.
\<close>

definition is_blank :: "char \<Rightarrow> bool" where
  "is_blank c \<longleftrightarrow> c = CHR '' '' \<or> c = CHR 0x09"

definition read_fields :: "string \<Rightarrow> string \<times> string" where
  "read_fields line =
     (let a = dropWhile is_blank line;
          b = dropWhile is_blank (dropWhile (\<lambda>c. \<not> is_blank c) a)
      in (takeWhile (\<lambda>c. \<not> is_blank c) a, takeWhile (\<lambda>c. \<not> is_blank c) b))"

definition hook_body :: "string \<Rightarrow> string \<Rightarrow> (string \<times> string) list" where
  "hook_body mac peer =
     (if mac = [] then [] else if prefix ''#'' mac then [] else if peer = [] then [] else [(mac, peer)])"

function hook_loop :: "string \<Rightarrow> (string \<times> string) list" where
  "hook_loop s =
     (let line = takeWhile (\<lambda>c. c \<noteq> newline) s; r = dropWhile (\<lambda>c. c \<noteq> newline) s;
          (mac, peer) = read_fields line
      in if r = [] \<and> mac = [] then [] else hook_body mac peer @ hook_loop (tl r))"
  by pat_completeness auto

lemma read_fields_Nil [simp]: "read_fields [] = ([], [])"
  by (simp add: read_fields_def)

lemma hook_loop_decreases:
  assumes "newline \<in> set s \<or> fst (read_fields (takeWhile (\<lambda>c. c \<noteq> newline) s)) \<noteq> []"
  shows "length (dropWhile (\<lambda>c. c \<noteq> newline) s) - Suc 0 < length s"
proof -
  have "s \<noteq> []" using assms by (cases s) simp_all
  moreover have "length (dropWhile (\<lambda>c. c \<noteq> newline) s) \<le> length s" by (rule length_dropWhile_le)
  ultimately show ?thesis by (cases s) simp_all
qed

termination hook_loop
proof (relation "measure length")
  fix s x xa xb xc y
  assume "x = takeWhile (\<lambda>c. c \<noteq> newline) s" "xa = dropWhile (\<lambda>c. c \<noteq> newline) s" "xb = read_fields x"
    and r: "(xc, y) = xb" and n: "\<not> (xa = [] \<and> xc = [])"
  moreover have "fst xb = xc" using r by (metis fst_conv)
  ultimately show "(tl xa, s) \<in> measure length" using hook_loop_decreases [of s] by auto
qed simp

declare hook_loop.simps [simp del]

section \<open>The lines\<close>

text \<open>The characters a MAC address and a peer address are made of.\<close>

definition mac_char :: "char \<Rightarrow> bool" where
  "mac_char c \<longleftrightarrow> is_hex c \<or> c = CHR '':''"

definition mac_text :: "string \<Rightarrow> bool" where
  "mac_text m \<longleftrightarrow> m \<noteq> [] \<and> list_all mac_char m"

definition peer_text :: "string \<Rightarrow> bool" where
  "peer_text p \<longleftrightarrow> p \<noteq> [] \<and> list_all (\<lambda>c. \<not> is_ws c) p"

lemma mac_char_not: "\<not> mac_char newline" "\<not> mac_char (CHR '' '')" "\<not> mac_char (CHR 0x09)" "\<not> mac_char (CHR ''#'')"
  by code_simp+

lemma ws_blank: "is_ws newline" "is_ws (CHR '' '')" "is_ws (CHR 0x09)"
  by code_simp+

lemma mac_char_not_ws: "mac_char c \<Longrightarrow> \<not> is_ws c"
  by (auto simp: mac_char_def is_hex_def is_digit_def is_ws_def Let_def)

lemma mac_shape_text: "mac_shape m \<Longrightarrow> mac_text m"
proof -
  assume m: "mac_shape m"
  then have "mac_char (m ! i)" if "i < length m" for i
    using that by (auto simp: mac_shape_def mac_char_def list_all_length nth_enumerate_eq split: if_splits)
  then show ?thesis using m by (auto simp: mac_text_def mac_shape_def list_all_length)
qed

lemma special_macs_text: "mac_text multicast_vrrp_mac" "mac_text broadcast_mac"
  by code_simp+

lemma blank_free:
  "mac_char c \<Longrightarrow> \<not> is_blank c \<and> c \<noteq> newline"
  "\<not> is_ws c \<Longrightarrow> \<not> is_blank c \<and> c \<noteq> newline"
  unfolding is_blank_def using mac_char_not ws_blank by metis+

lemma takeWhile_whole: "\<forall>c \<in> set x. P c \<Longrightarrow> \<not> P d \<Longrightarrow> takeWhile P (x @ d # r) = x \<and> dropWhile P (x @ d # r) = d # r"
  by (induction x) auto

lemma takeWhile_all: "\<forall>c \<in> set x. P c \<Longrightarrow> takeWhile P x = x \<and> dropWhile P x = []"
  by (induction x) auto

lemma read_fields_line:
  assumes "mac_text m" and "peer_text p"
  shows "read_fields (m @ CHR '' '' # p) = (m, p)"
proof -
  have m: "\<forall>c \<in> set m. \<not> is_blank c" and p: "\<forall>c \<in> set p. \<not> is_blank c" and ne: "m \<noteq> []" "p \<noteq> []"
    using assms blank_free by (auto simp: mac_text_def peer_text_def list_all_iff)
  have b: "is_blank (CHR '' '')" by (simp add: is_blank_def)
  have "dropWhile is_blank (m @ CHR '' '' # p) = m @ CHR '' '' # p"
    using m ne by (cases m) auto
  moreover have "dropWhile is_blank (CHR '' '' # p) = p"
    using p ne b by (cases p) auto
  ultimately show ?thesis
    using takeWhile_whole [of m "\<lambda>c. \<not> is_blank c" "CHR '' ''" p] takeWhile_all [of p "\<lambda>c. \<not> is_blank c"] m p b
    by (simp add: read_fields_def Let_def)
qed

lemma hook_loop_line:
  assumes "mac_text m" and "peer_text p"
  shows "hook_loop ((m @ CHR '' '' # p) @ newline # r) = (m, p) # hook_loop r"
    and "hook_loop (m @ CHR '' '' # p) = [(m, p)]"
proof -
  let ?l = "m @ CHR '' '' # p"
  have l: "\<forall>c \<in> set ?l. c \<noteq> newline"
    using assms blank_free by (auto simp: mac_text_def peer_text_def list_all_iff)
  have body: "hook_body m p = [(m, p)]"
    using assms mac_char_not(4) by (cases m) (auto simp: hook_body_def mac_text_def peer_text_def)
  have m: "m \<noteq> []" using assms by (simp add: mac_text_def)
  show "hook_loop (?l @ newline # r) = (m, p) # hook_loop r"
    using takeWhile_whole [of ?l "\<lambda>c. c \<noteq> newline" newline r] l read_fields_line [OF assms] body
    by (subst hook_loop.simps) (simp add: Let_def del: append_assoc)
  have "hook_loop [] = []" by (subst hook_loop.simps) simp
  then show "hook_loop ?l = [(m, p)]"
    using takeWhile_all [of ?l "\<lambda>c. c \<noteq> newline"] l read_fields_line [OF assms] body m
    by (subst hook_loop.simps) (simp only: Let_def prod.case, simp)
qed

definition fdb_line :: "string \<times> string \<Rightarrow> string" where
  "fdb_line e = (case e of (m, p) \<Rightarrow> m @ '' '' @ p)"

lemma hook_loop_lines:
  assumes "\<forall>(m, p) \<in> set es. mac_text m \<and> peer_text p"
  shows "hook_loop (data_body (map fdb_line es)) = es"
    and "hook_loop (py_join [newline] (map fdb_line es)) = es"
proof -
  have nil: "hook_loop [] = []" by (subst hook_loop.simps) simp
  have nl: "hook_loop [newline] = []" by (subst hook_loop.simps) (simp add: hook_body_def nil)
  have line: "hook_loop (fdb_line e @ newline # r) = e # hook_loop r" "hook_loop (fdb_line e) = [e]"
    if "e \<in> set es" for e r
    using that assms hook_loop_line [of "fst e" "snd e"] by (auto simp: fdb_line_def split_beta)
  show "hook_loop (data_body (map fdb_line es)) = es"
    using line(1) unfolding data_body_def
  proof (induction es)
    case (Cons e es)
    show ?case
    proof (cases "es = []")
      case False
      then show ?thesis using Cons by (simp add: py_join_Cons)
    qed (use Cons nil in simp)
  qed (simp add: nl)
  show "hook_loop (py_join [newline] (map fdb_line es)) = es"
    using line
  proof (induction es)
    case (Cons e es)
    show ?case
    proof (cases "es = []")
      case False
      then show ?thesis using Cons by (simp add: py_join_Cons)
    qed (use Cons in simp)
  qed (simp add: nil)
qed

section \<open>The overlay the lines describe\<close>

text \<open>
  What node \<open>node\<close> must know: for every other node, each MAC of its VMs and the two group addresses, at that
  node's underlay address.
\<close>

definition overlay_entries ::
  "(string, string list) dict \<Rightarrow> string list \<Rightarrow> string list \<Rightarrow> string \<Rightarrow> (string \<times> string) list" where
  "overlay_entries macs nodes peers node =
     concat (map (\<lambda>(remote, peer).
         map (\<lambda>m. (m, peer)) (dget_or macs remote [] @ [multicast_vrrp_mac, broadcast_mac]))
       (filter (\<lambda>(remote, peer). remote \<noteq> node) (zip nodes peers)))"

lemma peer_lines_entries: "peer_lines peer ms = map fdb_line (map (\<lambda>m. (m, peer)) (ms @ [multicast_vrrp_mac, broadcast_mac]))"
  by (simp add: peer_lines_def fdb_line_def)

lemma py_index_Inr:
  "py_index xs x = Inr i \<longleftrightarrow> i < length xs \<and> xs ! i = x \<and> (\<forall>j < i. xs ! j \<noteq> x)"
proof (induction xs arbitrary: i)
  case (Cons y ys)
  show ?case
  proof (cases i)
    case 0
    then show ?thesis by (auto simp: less_Suc_eq_0_disj)
  next
    case (Suc k)
    have "(\<forall>j < Suc k. (y # ys) ! j \<noteq> x) \<longleftrightarrow> y \<noteq> x \<and> (\<forall>j < k. ys ! j \<noteq> x)"
      by (auto simp: less_Suc_eq_0_disj)
    then show ?thesis using Cons.IH Suc by auto
  qed
qed simp

lemma py_index_distinct: "distinct xs \<Longrightarrow> i < length xs \<Longrightarrow> py_index xs (xs ! i) = Inr i"
  by (simp add: py_index_Inr nth_eq_iff_index_eq)

lemma underlay_for_Inr:
  "underlay_for s node = Inr p \<longleftrightarrow>
     (\<exists>i. py_index (sf_node_names s) node = Inr i \<and> i < length (sf_peers s) \<and> p = sf_peers s ! i)"
  by (auto simp: underlay_for_def py_nth_def)

lemma underlay_for_zip:
  assumes "distinct (sf_node_names s)" and "(node, p) \<in> set (zip (sf_node_names s) (sf_peers s))"
  shows "underlay_for s node = Inr p"
  using assms py_index_distinct by (auto simp: in_set_zip underlay_for_Inr)

lemma fold_fdb_lines:
  assumes "\<forall>(r, p) \<in> set rps. underlay_for s r = Inr p"
  shows "res_fold (\<lambda>remote ls.
      if remote = node then Inr ls
      else res_bind (underlay_for s remote) (\<lambda>peer. Inr (ls @ peer_lines peer (dget_or macs remote []))))
    (map fst rps) ls0 =
    Inr (ls0 @ map fdb_line (concat (map (\<lambda>(remote, peer).
         map (\<lambda>m. (m, peer)) (dget_or macs remote [] @ [multicast_vrrp_mac, broadcast_mac]))
       (filter (\<lambda>(remote, peer). remote \<noteq> node) rps))))"
  using assms
proof (induction rps arbitrary: ls0)
  case (Cons rp rps)
  obtain r p where rp: "rp = (r, p)" by (cases rp)
  then have "underlay_for s r = Inr p" using Cons.prems by simp
  then show ?case using Cons by (simp add: rp peer_lines_entries)
qed simp

lemma fdb_lines_entries:
  assumes "distinct (sf_node_names s)" and "length (sf_node_names s) \<le> length (sf_peers s)"
  shows "fdb_lines_for node s macs = Inr (map fdb_line (overlay_entries macs (sf_node_names s) (sf_peers s) node))"
proof -
  have "map fst (zip (sf_node_names s) (sf_peers s)) = sf_node_names s" using assms(2) by (simp add: map_fst_zip_take)
  moreover have "\<forall>(r, p) \<in> set (zip (sf_node_names s) (sf_peers s)). underlay_for s r = Inr p"
    using underlay_for_zip [OF assms(1)] by auto
  ultimately show ?thesis
    using fold_fdb_lines [of "zip (sf_node_names s) (sf_peers s)" s node macs "[]"]
    by (simp add: fdb_lines_for_def overlay_entries_def)
qed

lemma in_overlay_entries:
  "(m, p) \<in> set (overlay_entries macs nodes peers node) \<longleftrightarrow>
     (\<exists>remote. (remote, p) \<in> set (zip nodes peers) \<and> remote \<noteq> node \<and>
        (m \<in> set (dget_or macs remote []) \<or> m = multicast_vrrp_mac \<or> m = broadcast_mac))"
  by (auto simp: overlay_entries_def)

text \<open>The MACs that a discovery produces: well-shaped.\<close>

definition macs_ok :: "(string, string list) dict \<Rightarrow> bool" where
  "macs_ok macs \<longleftrightarrow> (\<forall>(node, ms) \<in> set macs. list_all mac_shape ms)"

lemma macs_ok_get: "macs_ok macs \<Longrightarrow> m \<in> set (dget_or macs node []) \<Longrightarrow> mac_shape m"
proof (cases "dget macs node")
  case (Some ms)
  moreover assume "macs_ok macs" "m \<in> set (dget_or macs node [])"
  ultimately show ?thesis using dget_in_set [OF Some] by (auto simp: macs_ok_def dget_or_def list_all_iff)
qed (simp add: dget_or_def)

lemma overlay_entries_text:
  assumes "macs_ok macs" and "\<forall>p \<in> set peers. peer_text p"
  shows "\<forall>(m, p) \<in> set (overlay_entries macs nodes peers node). mac_text m \<and> peer_text p"
proof -
  have "mac_text m \<and> peer_text p" if "(m, p) \<in> set (overlay_entries macs nodes peers node)" for m p
    using that assms macs_ok_get mac_shape_text special_macs_text set_zip_rightD
    unfolding in_overlay_entries by metis
  then show ?thesis by blast
qed

text \<open>
  C3: On every node the overlay is programmed exactly as meant. With distinct node
  names, a peer for each and peers that are non-empty words, the data file built for a node can be built,
  survives its transport in the command line, and the hook that reads it issues one \<open>bridge fdb append\<close> for
  every MAC of every other node's VMs and for the two group addresses of every other node, at that
  node's underlay address, in order and nothing else. That also holds when the file lost its final
  newline.
\<close>

theorem hook_programs_overlay:
  assumes "distinct (sf_node_names s)" and "length (sf_node_names s) \<le> length (sf_peers s)"
    and "\<forall>p \<in> set (sf_peers s). peer_text p" and "macs_ok macs"
  shows "\<exists>ls file_text. fdb_lines_for node s macs = Inr ls
     \<and> unb64_text (b64_text (data_body ls)) = Some file_text
     \<and> hook_loop file_text = overlay_entries macs (sf_node_names s) (sf_peers s) node
     \<and> hook_loop (butlast file_text) = overlay_entries macs (sf_node_names s) (sf_peers s) node"
proof -
  let ?es = "overlay_entries macs (sf_node_names s) (sf_peers s) node"
  have ok: "\<forall>(m, p) \<in> set ?es. mac_text m \<and> peer_text p"
    using overlay_entries_text [OF assms(4,3)] .
  have "butlast (data_body (map fdb_line ?es)) = py_join [newline] (map fdb_line ?es)"
    by (simp add: data_body_def)
  then show ?thesis
    using fdb_lines_entries [OF assms(1,2)] hook_loop_lines [OF ok] by (simp add: unb64_b64)
qed

lemma zip_underlay:
  assumes "distinct (sf_node_names s)" and "length (sf_node_names s) \<le> length (sf_peers s)"
  shows "(node, p) \<in> set (zip (sf_node_names s) (sf_peers s)) \<longleftrightarrow> node \<in> set (sf_node_names s) \<and> underlay_for s node = Inr p"
proof
  assume "(node, p) \<in> set (zip (sf_node_names s) (sf_peers s))"
  then show "node \<in> set (sf_node_names s) \<and> underlay_for s node = Inr p"
    using underlay_for_zip [OF assms(1)] set_zip_leftD by metis
next
  assume r: "node \<in> set (sf_node_names s) \<and> underlay_for s node = Inr p"
  then obtain i where "py_index (sf_node_names s) node = Inr i" "i < length (sf_peers s)" "p = sf_peers s ! i"
    by (auto simp: underlay_for_Inr)
  then show "(node, p) \<in> set (zip (sf_node_names s) (sf_peers s))"
    by (auto simp: in_set_zip py_index_Inr)
qed

text \<open>
  C17: The overlay connects every pair of nodes and never points a node at itself. With
  distinct node names and a peer for each, the lines of a node are exactly those that lead a MAC of
  another node's VMs, or a group address, to that other node's underlay address. When the peers are
  distinct words, too, the hook programs no entry that leads to the node's own underlay address.
\<close>

theorem overlay_complete:
  assumes "distinct (sf_node_names s)" and "length (sf_node_names s) \<le> length (sf_peers s)"
    and "distinct (sf_peers s)" and "\<forall>p \<in> set (sf_peers s). peer_text p" and "macs_ok macs"
    and "fdb_lines_for node s macs = Inr ls" and "underlay_for s node = Inr own"
  shows "set ls = {m @ '' '' @ peer | m peer remote. remote \<in> set (sf_node_names s) \<and> remote \<noteq> node
       \<and> underlay_for s remote = Inr peer \<and> m \<in> set (dget_or macs remote []) \<union> {multicast_vrrp_mac, broadcast_mac}}
     \<and> own \<notin> snd ` set (hook_loop (data_body ls))"
proof
  let ?es = "overlay_entries macs (sf_node_names s) (sf_peers s) node"
  have ls: "ls = map fdb_line ?es" using fdb_lines_entries [OF assms(1,2)] assms(6) by simp
  note mem = in_overlay_entries [where nodes = "sf_node_names s" and peers = "sf_peers s" and macs = macs and node = node,
      unfolded zip_underlay [OF assms(1,2)]]
  show "set ls = {m @ '' '' @ peer | m peer remote. remote \<in> set (sf_node_names s) \<and> remote \<noteq> node
       \<and> underlay_for s remote = Inr peer \<and> m \<in> set (dget_or macs remote []) \<union> {multicast_vrrp_mac, broadcast_mac}}"
  proof (rule set_eqI)
    fix l
    have "l \<in> set ls \<longleftrightarrow> (\<exists>m p. (m, p) \<in> set ?es \<and> l = m @ '' '' @ p)"
      unfolding ls by (force simp: fdb_line_def)
    then show "l \<in> set ls \<longleftrightarrow> l \<in> {m @ '' '' @ peer | m peer remote. remote \<in> set (sf_node_names s) \<and> remote \<noteq> node
       \<and> underlay_for s remote = Inr peer \<and> m \<in> set (dget_or macs remote []) \<union> {multicast_vrrp_mac, broadcast_mac}}"
      unfolding mem by blast
  qed
  have "hook_loop (data_body ls) = ?es"
    unfolding ls by (rule hook_loop_lines(1)) (rule overlay_entries_text [OF assms(5,4)])
  moreover have False if in_es: "(m, own) \<in> set ?es" for m
  proof -
    from in_es obtain remote where r: "underlay_for s remote = Inr own" "remote \<noteq> node" unfolding mem by blast
    then obtain i j where "py_index (sf_node_names s) remote = Inr i" "py_index (sf_node_names s) node = Inr j"
      "i < length (sf_peers s)" "j < length (sf_peers s)" "sf_peers s ! i = sf_peers s ! j"
      using assms(7) by (auto simp: underlay_for_Inr)
    with r(2) assms(3) show False by (auto simp: nth_eq_iff_index_eq py_index_Inr)
  qed
  ultimately show "own \<notin> snd ` set (hook_loop (data_body ls))" by force
qed

section \<open>What counts as success\<close>

lemma find_numbers_last: "find_numbers m s \<noteq> [] \<Longrightarrow> last (find_numbers m s) \<noteq> [] \<and> (\<forall>c \<in> set (last (find_numbers m s)). is_digit c)"
  using find_numbers_digits last_in_set by blast

text \<open>
  What counts as success: a host command's outcome is always defined, and it counts as successful exactly when the
  last exit marker of the output is zero, or when there is no marker at all, the session did not time
  out and the local \<open>ssh\<close> ended with 0 or without an exit status. A non-zero marker and a time-out without
  a marker are failures.
\<close>

theorem verdict_exact:
  "\<exists>ok text. fdb_verdict host out timed_out code = Inr (ok, text)
     \<and> (ok \<longleftrightarrow> (if find_numbers fdb_exit_marker out \<noteq> []
               then py_int (last (find_numbers fdb_exit_marker out)) = Inr 0
               else \<not> timed_out \<and> (code = Some 0 \<or> code = None)))"
proof (cases "find_numbers fdb_exit_marker out = []")
  case True
  then show ?thesis by (simp add: fdb_verdict_def Let_def)
next
  case False
  then obtain n where "py_int (last (find_numbers fdb_exit_marker out)) = Inr n"
    using py_int_digits find_numbers_last by blast
  with False show ?thesis by (simp add: fdb_verdict_def Let_def)
qed

section \<open>Effects\<close>

definition starts_none :: "event \<Rightarrow> bool" where
  "starts_none e \<longleftrightarrow> (case e of ESpawn _ \<Rightarrow> False | _ \<Rightarrow> True)"

lemma starts_none_commands: "\<forall>e \<in> set es. starts_none e \<Longrightarrow> commands_run es = []"
  by (induction es) (auto simp: starts_none_def commands_run_def split: event.splits)

definition node_command :: "sdn_fdb_settings \<Rightarrow> string \<Rightarrow> string \<Rightarrow> string list" where
  "node_command s node script = ssh_argv (fdb_ssh_host_for s node) (bash_line (marked_command script))"

text \<open>A session: the one command, the password, and the end of the child.\<close>

definition ssh_event :: "string list \<Rightarrow> event \<Rightarrow> bool" where
  "ssh_event argv e \<longleftrightarrow> (\<exists>password. session_event argv password e)"

lemma spec_ssh_session:
  "spec (ssh_session P argv timeout password)
     (\<lambda>es r. commands_run es = [argv] \<and> (\<forall>e \<in> set es. ssh_event argv e))"
proof -
  have "spec (ssh_session P argv timeout password) (\<lambda>es r. commands_run es = [argv])"
    unfolding ssh_session_def io_then_def
  proof (rule spec_bind [OF spec_spawn], goal_cases)
    case (2 es x)
    have "only starts_none (io_finally (ssh_dialogue P password) (close_child P))"
      by (intro only_intros only_weaken [OF only_ssh_dialogue]) (auto simp: starts_none_def)
    then have "spec (io_finally (ssh_dialogue P password) (close_child P)) (\<lambda>es' r. commands_run es' = [])"
      by (rule spec_weaken [OF spec_only]) (rule starts_none_commands)
    then show ?case
      by (rule spec_weaken) (use 2 in \<open>simp add: commands_run_def\<close>)
  qed (simp add: commands_run_def)
  moreover have "spec (ssh_session P argv timeout password) (\<lambda>es r. \<forall>e \<in> set es. ssh_event argv e)"
    by (rule spec_only) (rule only_weaken [OF only_ssh_session], auto simp: ssh_event_def)
  ultimately show ?thesis by (rule spec_conj)
qed

lemma only_fdb_read_password [only_intros]: "only Q (fdb_read_password P s)"
  unfolding fdb_read_password_def Let_def by (intro only_intros)

lemma spec_host_ssh:
  "spec (host_ssh P s node script)
     (\<lambda>es r. (\<forall>x. r = Inr x \<longrightarrow> commands_run es = [node_command s node script])
        \<and> (\<forall>e \<in> set es. ssh_event (node_command s node script) e))"
    (is "spec _ ?Q")
proof -
  have verdict: "spec (case x of (parts, timed_out) \<Rightarrow> io_bind (exitstatus P) (\<lambda>code.
      lift (fdb_verdict host (redact password parts) timed_out code))) (\<lambda>es r. es = [])" for x host password
    by (cases x) (auto intro!: spec_bind [OF spec_exitstatus] spec_lift)
  have session: "spec (io_bind (ssh_session P (node_command s node script) fdb_ssh_timeout password)
      (\<lambda>x. case x of (parts, timed_out) \<Rightarrow> io_bind (exitstatus P) (\<lambda>code.
       lift (fdb_verdict (fdb_ssh_host_for s node) (redact password parts) timed_out code)))) ?Q" for password
    by (rule spec_bind [OF spec_ssh_session]) (simp, rule spec_weaken [OF verdict], simp)
  show ?thesis
    unfolding host_ssh_def Let_def node_command_def [symmetric] io_then_def
    by (rule spec_bind [OF spec_import_pexpect], simp, elim conjE, hypsubst,
        rule spec_bind [OF spec_no_events [OF only_fdb_read_password]], simp, hypsubst, simp only: append_Nil, rule session)
qed

text \<open>The scripts a node is sent: the installation, and the probe when there are VM MACs to look for.\<close>

definition node_scripts :: "sdn_fdb_settings \<Rightarrow> (string, string list) dict \<Rightarrow> string \<Rightarrow> string list" where
  "node_scripts s macs node =
     (case fdb_lines_for node s macs of
        Inl _ \<Rightarrow> []
      | Inr ls \<Rightarrow>
          install_script s (b64_text (data_body ls)) (b64_text (hook_script s)) #
          (case expected_macs ls of
             Inr (m # ms) \<Rightarrow> [probe_script s (m # ms)]
           | _ \<Rightarrow> []))"

definition install_event :: "sdn_fdb_settings \<Rightarrow> (string, string list) dict \<Rightarrow> string \<Rightarrow> event \<Rightarrow> bool" where
  "install_event s macs node e \<longleftrightarrow> (\<exists>script \<in> set (node_scripts s macs node). ssh_event (node_command s node script) e)"

lemma spec_install_node:
  "spec (install_node P s node macs)
     (\<lambda>es r. (\<forall>x. r = Inr x \<longrightarrow> commands_run es = map (node_command s node) (node_scripts s macs node))
        \<and> (\<forall>e \<in> set es. install_event s macs node e))"
    (is "spec _ ?Q")
proof (cases "fdb_lines_for node s macs")
  case (Inl e)
  then show ?thesis by (simp add: install_node_def spec_raise)
next
  case (Inr ls)
  let ?script = "install_script s (b64_text (data_body ls)) (b64_text (hook_script s))"
  have script: "install_event s macs node e" if "ssh_event (node_command s node ?script) e" for e
    using that Inr by (auto simp: install_event_def node_scripts_def)
  show ?thesis
  proof (cases "expected_macs ls")
    case (Inl e)
    show ?thesis
      unfolding install_node_def Inr Let_def
      by (simp, rule spec_bind [OF spec_host_ssh]) (auto simp: Inl script intro!: spec_raise split: prod.splits)
  next
    case macs: (Inr ms)
    have verify: "spec (verify_node P s node ms)
        (\<lambda>es r. (\<forall>x. r = Inr x \<longrightarrow> commands_run es = (if ms = [] then [] else [node_command s node (probe_script s ms)]))
          \<and> (\<forall>e \<in> set es. ms \<noteq> [] \<and> ssh_event (node_command s node (probe_script s ms)) e))"
    proof -
      have report: "spec (case x of (ok2, out2) \<Rightarrow> io_bind (lift (missing_macs out2)) (\<lambda>missing. ret (f missing)))
          (\<lambda>es r. es = [])" for x :: "bool \<times> string" and f :: "string list \<Rightarrow> string list"
        by (rule spec_no_events) (intro only_intros)
      show ?thesis
        unfolding verify_node_def
        by (rule spec_if, simp add: spec_ret, rule spec_bind [OF spec_host_ssh], simp,
            rule spec_weaken [OF report], simp)
    qed
    have probe: "install_event s macs node e" if "ms \<noteq> []" "ssh_event (node_command s node (probe_script s ms)) e" for e
      using that Inr macs by (cases ms) (auto simp: install_event_def node_scripts_def)
    have scripts: "node_scripts s macs node = ?script # (if ms = [] then [] else [probe_script s ms])"
      using Inr macs by (cases ms) (simp_all add: node_scripts_def)
    have rest: "spec (io_bind (verify_node P s node ms) (\<lambda>more. ret (ls0 @ more)))
        (\<lambda>es r. (\<forall>x. r = Inr x \<longrightarrow> commands_run es = (if ms = [] then [] else [node_command s node (probe_script s ms)]))
          \<and> (\<forall>e \<in> set es. install_event s macs node e))" for ls0
      by (rule spec_bind [OF verify]) (auto intro!: spec_ret simp: probe)
    show ?thesis
      unfolding install_node_def Inr Let_def scripts io_bind_simps
    proof (rule spec_bind [OF spec_host_ssh], goal_cases)
      case (2 es x)
      then show ?case
        by (cases x) (simp only: prod.case macs io_bind_simps, rule spec_weaken [OF rest], auto simp: script)
    qed (auto simp: script)
  qed
qed

section \<open>Discovery\<close>

text \<open>The query of a VM's configuration, and the MAC its outcome gives; an unusable answer gives none.\<close>

definition config_query :: "pve_client \<Rightarrow> json \<Rightarrow> string \<Rightarrow> int \<Rightarrow> http_request" where
  "config_query c ticket node vmid =
     pve_http_request (cs_insecure (pc_settings c))
       (pve_url c (''/api2/json/nodes/'' @ node @ ''/qemu/'' @ int_str vmid @ ''/config''))
       ''GET'' ticket (JStr []) None"

definition mac_in :: "int \<Rightarrow> http_outcome \<Rightarrow> string" where
  "mac_in nic out =
     (case decode_outcome out of
        Inr (status, payload) \<Rightarrow> if status \<noteq> 200 then [] else mac_of_config payload nic
      | Inl _ \<Rightarrow> [])"

lemma spec_node_vm_mac:
  "spec (node_vm_mac P c ticket node vmid nic)
     (\<lambda>es r. \<exists>out. es = [EHttp (config_query c ticket node vmid) out] \<and> (\<forall>m. r = Inr m \<longrightarrow> m = mac_in nic out))"
  unfolding node_vm_mac_def pve_request_def config_query_def
  by (rule spec_send_bind) (auto intro!: spec_intros simp: mac_in_def)

definition config_answers ::
  "pve_client \<Rightarrow> json \<Rightarrow> sdn_fdb_settings \<Rightarrow> string \<Rightarrow> json list \<Rightarrow> event list \<Rightarrow> string list \<Rightarrow> bool" where
  "config_answers c ticket s node vmids es ms \<longleftrightarrow>
     (\<exists>outs. length outs = length (estate_vmids s vmids)
        \<and> es = map (\<lambda>(v, out). EHttp (config_query c ticket node v) out) (zip (estate_vmids s vmids) outs)
        \<and> ms = filter (\<lambda>m. m \<noteq> [])
                 (map (\<lambda>(v, out). mac_in (dget_or (sf_sdn_nic_index s) v 0) out) (zip (estate_vmids s vmids) outs)))"

lemma all2_outs:
  assumes "list_all2 (\<lambda>x (es, y). \<exists>out. es = [f x out] \<and> y = g x out) xs (zip ess ys)" and "length ess = length ys"
  shows "\<exists>outs. length outs = length xs \<and> concat ess = map (\<lambda>(x, out). f x out) (zip xs outs)
     \<and> ys = map (\<lambda>(x, out). g x out) (zip xs outs)"
  using assms
proof (induction xs arbitrary: ess ys)
  case Nil
  then show ?case by (cases ess; cases ys) auto
next
  case (Cons x xs)
  then obtain e ess' y ys' where e: "ess = e # ess'" "ys = y # ys'" by (cases ess; cases ys) auto
  with Cons obtain outs out where "e = [f x out]" "y = g x out" "length outs = length xs"
    "concat ess' = map (\<lambda>(x, out). f x out) (zip xs outs)" "ys' = map (\<lambda>(x, out). g x out) (zip xs outs)"
    by fastforce
  then show ?case by (intro exI [of _ "out # outs"]) (simp add: e)
qed

lemma spec_node_macs:
  "spec (node_macs P c ticket s node vmids) (\<lambda>es r. \<forall>ms. r = Inr ms \<longrightarrow> config_answers c ticket s node vmids es ms)"
  unfolding node_macs_def
proof (rule spec_bind, rule spec_map [where R = "\<lambda>v es r. \<exists>out. es = [EHttp (config_query c ticket node v) out]
      \<and> (\<forall>m. r = Inr m \<longrightarrow> m = mac_in (dget_or (sf_sdn_nic_index s) v 0) out)"], goal_cases)
  case (1 x)
  show ?case by (rule spec_node_vm_mac)
next
  case (3 es ys)
  then obtain ess where "es = concat ess" "length ess = length ys"
    "list_all2 (\<lambda>v (es, y). \<exists>out. es = [EHttp (config_query c ticket node v) out]
       \<and> y = mac_in (dget_or (sf_sdn_nic_index s) v 0) out) (estate_vmids s vmids) (zip ess ys)"
    by (auto elim: list_all2_mono)
  with all2_outs [OF this(3,2)] show ?case
    by (intro spec_ret) (auto simp: config_answers_def)
qed auto

text \<open>
  One node's discovery: the VM list, then, unless it is unavailable, the configuration of each VM of the
  estate that is on the node, in ascending order.
\<close>

definition node_discovery ::
  "pve_client \<Rightarrow> json \<Rightarrow> sdn_fdb_settings \<Rightarrow> string \<Rightarrow> event list \<Rightarrow> string list \<Rightarrow> bool" where
  "node_discovery c ticket s node es ms \<longleftrightarrow>
     (\<exists>out rest. es = EHttp (vm_query c ticket node) out # rest \<and>
        (case vmids_in out of
           Inl e \<Rightarrow> catches [RuntimeError] e \<and> (\<exists>msg. rest = [EPrint True msg]) \<and> ms = []
         | Inr vmids \<Rightarrow> config_answers c ticket s node vmids rest ms))"

definition discover_node :: "'w platform \<Rightarrow> pve_client \<Rightarrow> json \<Rightarrow> sdn_fdb_settings \<Rightarrow> string \<Rightarrow> ('w, string list) io" where
  "discover_node P c ticket s node =
     io_bind
       (io_except [RuntimeError]
         (io_bind (node_vmids P c ticket node) (\<lambda>v. ret (Some v)))
         (\<lambda>exc. io_then
            (print_err (''[sdn_fdb] '' @ node @ '': VM list unavailable ('' @ exn_msg exc @ ''); skipping''))
            (ret None)))
       (\<lambda>r. case r of None \<Rightarrow> ret [] | Some vmids \<Rightarrow> node_macs P c ticket s node vmids)"

lemma discover_nodes:
  "discover_sdn_macs P c ticket s =
     io_bind (io_map (discover_node P c ticket s) (sf_node_names s))
       (\<lambda>mss. ret (fold (\<lambda>(node, ms). dset node ms) (zip (sf_node_names s) mss) []))"
proof -
  have step: "(\<lambda>r. io_bind (case r of None \<Rightarrow> ret [] | Some vmids \<Rightarrow> node_macs P c ticket s node vmids)
      (\<lambda>ms. ret (dset node ms macs))) =
    (\<lambda>r. case r of None \<Rightarrow> ret (dset node [] macs)
      | Some vmids \<Rightarrow> io_bind (node_macs P c ticket s node vmids) (\<lambda>ms. ret (dset node ms macs)))" for node macs
    by (simp add: fun_eq_iff split: option.splits)
  then show ?thesis
    unfolding discover_sdn_macs_def io_fold_map [symmetric] discover_node_def by (simp only: io_bind_assoc step)
qed

text \<open>The VM list of a node, with the failure that discovery reports and skips.\<close>

abbreviation listed_vmids :: "'w platform \<Rightarrow> pve_client \<Rightarrow> json \<Rightarrow> string \<Rightarrow> ('w, json list option) io" where
  "listed_vmids P c ticket node \<equiv>
     io_except [RuntimeError]
       (io_bind (node_vmids P c ticket node) (\<lambda>v. ret (Some v)))
       (\<lambda>exc. io_then
          (print_err (''[sdn_fdb] '' @ node @ '': VM list unavailable ('' @ exn_msg exc @ ''); skipping''))
          (ret None))"

definition vm_listing :: "pve_client \<Rightarrow> json \<Rightarrow> string \<Rightarrow> event list \<Rightarrow> json list option res \<Rightarrow> bool" where
  "vm_listing c ticket node es r \<longleftrightarrow>
     (\<exists>out. case r of
        Inl e \<Rightarrow> es = [EHttp (vm_query c ticket node) out]
      | Inr None \<Rightarrow> \<exists>e msg. es = [EHttp (vm_query c ticket node) out, EPrint True msg] \<and> vmids_in out = Inl e
          \<and> catches [RuntimeError] e
      | Inr (Some v) \<Rightarrow> es = [EHttp (vm_query c ticket node) out] \<and> vmids_in out = Inr v)"

lemma spec_listed_vmids: "spec (listed_vmids P c ticket node) (vm_listing c ticket node)"
proof -
  let ?S = "\<lambda>es r. \<exists>out. es = [EHttp (vm_query c ticket node) out] \<and> r = map_sum id Some (vmids_in out)"
  have list: "spec (io_bind (node_vmids P c ticket node) (\<lambda>v. ret (Some v))) ?S"
    by (rule spec_bind [OF spec_node_vmids]) (auto intro!: spec_ret simp: eq_commute [of _ "vmids_in _"])
  have split: "\<exists>out. es = [EHttp (vm_query c ticket node) out] \<and>
      (case r of Inl e \<Rightarrow> vmids_in out = Inl e | Inr x \<Rightarrow> \<exists>v. vmids_in out = Inr v \<and> x = Some v)"
    if "?S es r" for es r
  proof -
    from that obtain out where "es = [EHttp (vm_query c ticket node) out]" "r = map_sum id Some (vmids_in out)"
      by (elim exE conjE) (rule that)
    then show ?thesis by (cases "vmids_in out") auto
  qed
  show ?thesis
  proof (rule spec_except [OF list], goal_cases)
    case (1 es x)
    from split [OF 1] show ?case by (auto simp: vm_listing_def)
  next
    case (2 es e)
    from split [OF 2(1)] show ?case by (auto simp: vm_listing_def)
  next
    case (3 es e)
    with split [OF 3(1)] show ?case
      unfolding io_then_def by (auto intro!: spec_bind [OF spec_print_err] spec_ret simp: vm_listing_def)
  qed
qed

lemma spec_discover_node:
  "spec (discover_node P c ticket s node) (\<lambda>es r. \<forall>ms. r = Inr ms \<longrightarrow> node_discovery c ticket s node es ms)"
  unfolding discover_node_def
proof (rule spec_bind [OF spec_listed_vmids], goal_cases)
  case (2 es x)
  show ?case
  proof (cases x)
    case None
    with 2 show ?thesis by (auto intro!: spec_ret simp: node_discovery_def vm_listing_def)
  next
    case (Some v)
    with 2 show ?thesis by (auto intro!: spec_weaken [OF spec_node_macs] simp: node_discovery_def vm_listing_def)
  qed
qed simp

lemma lower_mac_char: "is_hex c \<Longrightarrow> is_hex (lower_char c)" "lower_char (CHR '':'') = CHR '':''"
  by (auto simp: is_hex_def is_digit_def lower_char_def Let_def)

lemma mac_shape_nth:
  "mac_shape s \<longleftrightarrow> length s = 17 \<and> (\<forall>i < 17. if i mod 3 = 2 then s ! i = CHR '':'' else is_hex (s ! i))"
  unfolding mac_shape_def list_all_length by (simp add: nth_enumerate_eq cong: conj_cong)

lemma lower_mac_shape: "mac_shape m \<Longrightarrow> mac_shape (py_lower m)"
  unfolding mac_shape_nth py_lower_def by (simp add: lower_mac_char)

lemma mac_in_shape: "mac_in nic out \<noteq> [] \<Longrightarrow> mac_shape (mac_in nic out)"
  by (auto simp: mac_in_def mac_of_config_def lower_mac_shape dest: search_mac_shape
      split: sum.splits prod.splits json.splits option.splits if_splits)

lemma node_discovery_shape: "node_discovery c ticket s node es ms \<Longrightarrow> list_all mac_shape ms"
proof -
  assume "node_discovery c ticket s node es ms"
  then obtain out rest where "case vmids_in out of
      Inl e \<Rightarrow> catches [RuntimeError] e \<and> (\<exists>msg. rest = [EPrint True msg]) \<and> ms = []
    | Inr vmids \<Rightarrow> config_answers c ticket s node vmids rest ms" unfolding node_discovery_def by blast
  then show ?thesis
    by (cases "vmids_in out") (auto simp: config_answers_def list_all_iff mac_in_shape)
qed

lemma fold_dset_zip:
  assumes "distinct ks" and "length vs = length ks"
  shows "fold (\<lambda>(k, v). dset k v) (zip ks vs) [] = zip ks vs"
proof -
  have "dict_wf (zip ks vs)" using assms by (simp add: dict_wf_def dkeys_def map_fst_zip_take)
  then show ?thesis using fold_dset_fresh [of "[]" "zip ks vs"] by simp
qed

lemma dget_zip: "distinct ks \<Longrightarrow> length vs = length ks \<Longrightarrow> i < length ks \<Longrightarrow> dget (zip ks vs) (ks ! i) = Some (vs ! i)"
  by (rule dget_of_set) (auto simp: dict_wf_def dkeys_def map_fst_zip_take in_set_zip)

definition discovered ::
  "pve_client \<Rightarrow> json \<Rightarrow> sdn_fdb_settings \<Rightarrow> event list list \<Rightarrow> (string, string list) dict \<Rightarrow> bool" where
  "discovered c ticket s ess macs \<longleftrightarrow> dkeys macs = sf_node_names s \<and> macs_ok macs \<and>
     list_all2 (\<lambda>node es. node_discovery c ticket s node es (dget_or macs node [])) (sf_node_names s) ess"

lemma spec_discover:
  assumes "distinct (sf_node_names s)"
  shows "spec (discover_sdn_macs P c ticket s)
     (\<lambda>es r. \<forall>macs. r = Inr macs \<longrightarrow> (\<exists>ess. es = concat ess \<and> discovered c ticket s ess macs))"
  unfolding discover_nodes
proof (rule spec_bind, rule spec_map, rule spec_discover_node, simp, goal_cases)
  case (1 es mss)
  then obtain ess where es: "es = concat ess" "length ess = length mss"
    and all: "list_all2 (\<lambda>node (es, y). node_discovery c ticket s node es y) (sf_node_names s) (zip ess mss)"
    by auto
  have len: "length mss = length (sf_node_names s)" using list_all2_lengthD [OF all] es(2) by simp
  have each: "node_discovery c ticket s (sf_node_names s ! i) (ess ! i) (mss ! i)" if "i < length (sf_node_names s)" for i
    using list_all2_nthD [OF all that] that len es(2) by simp
  have "discovered c ticket s ess (zip (sf_node_names s) mss)"
    unfolding discovered_def macs_ok_def
  proof (intro conjI)
    show "dkeys (zip (sf_node_names s) mss) = sf_node_names s" using len by (simp add: dkeys_def)
    show "\<forall>(node, ms) \<in> set (zip (sf_node_names s) mss). list_all mac_shape ms"
      using each node_discovery_shape by (fastforce simp: in_set_zip)
    show "list_all2 (\<lambda>node es. node_discovery c ticket s node es (dget_or (zip (sf_node_names s) mss) node []))
        (sf_node_names s) ess"
      using each len es(2) dget_zip [OF assms, of mss] by (auto simp: list_all2_conv_all_nth dget_or_def)
  qed
  then show ?case using es(1) fold_dset_zip [OF assms len] by (auto intro!: spec_ret)
qed

lemma ensure_nodes:
  "io_fold (\<lambda>node ls. io_bind (install_node P s node macs) (\<lambda>new. ret (ls @ new))) nodes ls0 =
     io_bind (io_map (\<lambda>node. install_node P s node macs) nodes)
       (\<lambda>news. ret (fold (\<lambda>(node, new) ls. ls @ new) (zip nodes news) ls0))"
  using io_fold_map [of "\<lambda>node. install_node P s node macs" "\<lambda>node new ls. ls @ new" nodes ls0] by simp

lemma commands_run_concat: "commands_run (concat ess) = concat (map commands_run ess)"
  by (induction ess) simp_all

lemma spec_install_nodes:
  "spec (io_fold (\<lambda>node ls. io_bind (install_node P s node macs) (\<lambda>new. ret (ls @ new))) nodes ls0)
     (\<lambda>es r. \<forall>x. r = Inr x \<longrightarrow>
        commands_run es = concat (map (\<lambda>node. map (node_command s node) (node_scripts s macs node)) nodes)
        \<and> (\<forall>e \<in> set es. \<exists>node \<in> set nodes. install_event s macs node e))"
  unfolding ensure_nodes
proof (rule spec_bind, rule spec_map, rule spec_install_node, simp, goal_cases)
  case (1 es news)
  then obtain ess where es: "es = concat ess" "length ess = length news"
    and all: "list_all2 (\<lambda>node (es, y). commands_run es = map (node_command s node) (node_scripts s macs node)
        \<and> (\<forall>e \<in> set es. install_event s macs node e)) nodes (zip ess news)"
    by auto
  have len: "length ess = length nodes" using list_all2_lengthD [OF all] es(2) by simp
  have each: "commands_run (ess ! i) = map (node_command s (nodes ! i)) (node_scripts s macs (nodes ! i))
      \<and> (\<forall>e \<in> set (ess ! i). install_event s macs (nodes ! i) e)" if "i < length nodes" for i
    using list_all2_nthD [OF all that] that len es(2) by simp
  have "map commands_run ess = map (\<lambda>node. map (node_command s node) (node_scripts s macs node)) nodes"
    using each len by (auto intro: nth_equalityI)
  moreover have "\<exists>node \<in> set nodes. install_event s macs node e" if "e \<in> set es" for e
    using that each len es(1) by (auto simp: in_set_conv_nth) (metis nth_mem)
  ultimately show ?case using es(1) by (auto intro!: spec_ret simp: commands_run_concat)
qed



text \<open>
  Without \<open>--apply\<close> the command line entry touches nothing: it prints that it was
  skipped and returns 0, without any request, session or file access.
\<close>

theorem fdb_preview_silent:
  assumes "''--apply'' \<notin> set argv"
  shows "fdb_standalone P argv w =
     (Inr 0, w\<lparr>trace := trace w @ [EPrint False ''sdn-fdb: skipped (dry run / preview)'']\<rparr>)"
  using assms by (simp add: fdb_standalone_def ensure_sdn_fdb_def io_eval del: io_run_simps)

section \<open>The properties at work\<close>

text \<open>Two nodes, one VM of the estate on the first.\<close>

definition fdb_reply :: "http_request \<Rightarrow> json" where
  "fdb_reply r =
     (if req_url r = ''https://h/api2/json/access/ticket''
      then JObj [(''data'', JObj [(''ticket'', JStr ''T'')])]
      else if req_url r = ''https://h/api2/json/nodes/n1/qemu''
      then JObj [(''data'', JList [JObj [(''vmid'', JInt 2001)]])]
      else if req_url r = ''https://h/api2/json/nodes/n1/qemu/2001/config''
      then JObj [(''data'', JObj [(''net1'', JStr ''virtio=BC:24:11:00:00:01,bridge=vlab'')])]
      else JObj [(''data'', JList [])])"

definition fdb_demo :: sdn_fdb_settings where
  "fdb_demo =
     \<lparr>sf_endpoint = ''h'', sf_username = ''root@pam'', sf_password = ''pw'', sf_insecure = True,
      sf_node_names = [''n1'', ''n2''], sf_peers = [''10.0.0.1'', ''10.0.0.2''], sf_vxlan_device = ''vx'',
      sf_data_file = ''/d'', sf_data_dir = ''/e'', sf_hook_file = ''/h'', sf_password_file = ''/pw'',
      sf_node_ssh_hosts = [], sf_sdn_nic_index = [(2001, 1)]\<rparr>"

definition fdb_client :: pve_client where
  "fdb_client = \<lparr>pc_settings = fdb_cleanup_settings fdb_demo, pc_host = ''h''\<rparr>"

definition keyed :: "unit world" where
  "keyed = blank\<lparr>files := [''/pw'' \<mapsto> Text ''secret'']\<rparr>"

definition demo_macs :: "(string, string list) dict" where
  "demo_macs = [(''n1'', [''bc:24:11:00:00:01'']), (''n2'', [])]"

lemma fdb_demo_nodes:
  "distinct (sf_node_names fdb_demo)" "length (sf_node_names fdb_demo) \<le> length (sf_peers fdb_demo)"
  "distinct (sf_peers fdb_demo)"
  by (simp_all add: fdb_demo_def)

lemma fdb_demo_peers: "\<forall>p \<in> set (sf_peers fdb_demo). peer_text p"
  by code_simp

lemma demo_macs_ok: "macs_ok demo_macs"
  by code_simp

lemma hook_programs_overlay_witness:
  "\<exists>ls file_text. fdb_lines_for ''n2'' fdb_demo demo_macs = Inr ls \<and> unb64_text (b64_text (data_body ls)) = Some file_text
     \<and> hook_loop file_text = [(''bc:24:11:00:00:01'', ''10.0.0.1''), (multicast_vrrp_mac, ''10.0.0.1''), (broadcast_mac, ''10.0.0.1'')]
     \<and> hook_loop (butlast file_text) =
         [(''bc:24:11:00:00:01'', ''10.0.0.1''), (multicast_vrrp_mac, ''10.0.0.1''), (broadcast_mac, ''10.0.0.1'')]"
proof -
  have "overlay_entries demo_macs (sf_node_names fdb_demo) (sf_peers fdb_demo) ''n2'' =
      [(''bc:24:11:00:00:01'', ''10.0.0.1''), (multicast_vrrp_mac, ''10.0.0.1''), (broadcast_mac, ''10.0.0.1'')]"
    by code_simp
  with hook_programs_overlay [OF fdb_demo_nodes(1,2) fdb_demo_peers demo_macs_ok, of "''n2''"] show ?thesis by simp
qed

lemma overlay_complete_witness:
  "\<exists>ls. fdb_lines_for ''n2'' fdb_demo demo_macs = Inr ls \<and> ''10.0.0.2'' \<notin> snd ` set (hook_loop (data_body ls))"
proof -
  obtain ls where ls: "fdb_lines_for ''n2'' fdb_demo demo_macs = Inr ls"
    using fdb_lines_entries [OF fdb_demo_nodes(1,2)] by blast
  have own: "underlay_for fdb_demo ''n2'' = Inr ''10.0.0.2''" by code_simp
  from overlay_complete [OF fdb_demo_nodes fdb_demo_peers demo_macs_ok ls own] ls show ?thesis by blast
qed

lemma fdb_init: "pve_client_init (fdb_cleanup_settings fdb_demo) = Inr fdb_client"
  by code_simp

lemma fdb_auth:
  "\<exists>es. pve_auth (scripted fdb_reply out d) fdb_client w = (Inr (JStr ''T'', JStr []), w\<lparr>trace := es\<rparr>)"
  by (simp add: pve_auth_def try_ticket_def pve_request_def fdb_reply_def io_eval payload_data_or_empty_def
      dget_or_def fdb_client_def fdb_cleanup_settings_def fdb_demo_def pve_url_def Let_def del: io_run_simps,
      rule exI, rule refl)

lemma fdb_demo_data:
  "vmids_of (JObj [(''data'', JList [JObj [(''vmid'', JInt 2001)]])]) = Inr [JInt 2001]"
  "vmids_of (JObj [(''data'', JList [])]) = Inr []"
  "estate_vmids fdb_demo [JInt 2001] = [2001]"
  "estate_vmids fdb_demo [] = []"
  "dget_or (sf_sdn_nic_index fdb_demo) 2001 0 = 1"
  "mac_of_config (JObj [(''data'', JObj [(''net1'', JStr ''virtio=BC:24:11:00:00:01,bridge=vlab'')])]) 1 = ''bc:24:11:00:00:01''"
  "int_str 2001 = ''2001''"
  by code_simp+

lemma fdb_discover:
  "\<exists>es. discover_sdn_macs (scripted fdb_reply out d) fdb_client (JStr ''T'') fdb_demo w = (Inr demo_macs, w\<lparr>trace := es\<rparr>)"
proof -
  have nodes: "sf_node_names fdb_demo = [''n1'', ''n2'']" by (simp add: fdb_demo_def)
  have 1: "\<exists>es. discover_node (scripted fdb_reply out d) fdb_client (JStr ''T'') fdb_demo ''n1'' w =
      (Inr [''bc:24:11:00:00:01''], w\<lparr>trace := es\<rparr>)" for w
    by (simp add: discover_node_def node_vmids_def node_macs_def node_vm_mac_def pve_request_def pve_url_def fdb_client_def
        fdb_reply_def fdb_demo_data io_eval del: io_run_simps, rule exI, rule refl)
  have 2: "\<exists>es. discover_node (scripted fdb_reply out d) fdb_client (JStr ''T'') fdb_demo ''n2'' w =
      (Inr [], w\<lparr>trace := es\<rparr>)" for w
    by (simp add: discover_node_def node_vmids_def node_macs_def node_vm_mac_def pve_request_def pve_url_def fdb_client_def
        fdb_reply_def fdb_demo_data io_eval del: io_run_simps, rule exI, rule refl)
  obtain e1 where e1: "discover_node (scripted fdb_reply out d) fdb_client (JStr ''T'') fdb_demo ''n1'' w =
      (Inr [''bc:24:11:00:00:01''], w\<lparr>trace := e1\<rparr>)" using 1 by blast
  obtain e2 where e2: "discover_node (scripted fdb_reply out d) fdb_client (JStr ''T'') fdb_demo ''n2'' (w\<lparr>trace := e1\<rparr>) =
      (Inr [], w\<lparr>trace := e2\<rparr>)" using 2 [of "w\<lparr>trace := e1\<rparr>"] by auto
  have "(fold (\<lambda>(node, ms). dset node ms) (zip [''n1'', ''n2''] [[''bc:24:11:00:00:01''], []]) []) = demo_macs"
    by code_simp
  then show ?thesis
    unfolding discover_nodes nodes by (simp add: io_bind_def io_run_eqs e1 e2 del: io_run_simps) (rule exI, rule refl)
qed

lemma scripted_session:
  "\<exists>es. ssh_session (scripted reply out d) argv t password w = (Inr ([[], out], False), w\<lparr>trace := es\<rparr>)"
proof
  show "ssh_session (scripted reply out d) argv t password w =
      (Inr ([[], out], False), w\<lparr>trace := trace w @ [ESpawn argv, ESendline password, EClose]\<rparr>)"
    by (cases w) (simp add: ssh_session_def ssh_dialogue_def expect_or_timeout_def io_eval scripted_def or_empty_def
        del: io_run_simps)
qed

text \<open>Every session on the demo hosts ends well, whatever the script.\<close>

abbreviation fdb_world :: "event list \<Rightarrow> unit world" where
  "fdb_world es \<equiv> keyed\<lparr>trace := es\<rparr>"

definition demo_output :: string where
  "demo_output = newline # ''SDN_FDB_SSH_EXIT=0''"

lemma demo_output_data:
  "redact ''secret'' [[], ''SDN_FDB_SSH_EXIT=0''] = demo_output"
  "find_numbers fdb_exit_marker demo_output = [''0'']" "py_int ''0'' = Inr 0" "missing_macs demo_output = Inr []"
  "py_strip ''secret'' = ''secret''"
  by code_simp+

lemma fdb_host_ssh:
  "\<exists>es'. host_ssh (scripted fdb_reply ''SDN_FDB_SSH_EXIT=0'' d) fdb_demo node script (fdb_world es) =
     (Inr (True, demo_output), fdb_world es')"
proof -
  let ?P = "scripted fdb_reply ''SDN_FDB_SSH_EXIT=0'' d"
  have host: "fdb_ssh_host_for fdb_demo node = node" by (simp add: fdb_ssh_host_for_def fdb_demo_def)
  have pw: "fdb_read_password ?P fdb_demo (fdb_world es) = (Inr ''secret'', fdb_world es)"
    by (simp add: fdb_read_password_def fdb_demo_def scripted_def keyed_def io_eval demo_output_data Let_def del: io_run_simps)
  have "fdb_verdict node demo_output False (Some 0) = Inr (True, demo_output)"
    by (simp add: fdb_verdict_def demo_output_data Let_def)
  moreover obtain e1 where "ssh_session ?P
      (ssh_argv node (bash_line (marked_command script))) fdb_ssh_timeout ''secret'' (fdb_world es) =
      (Inr ([[], ''SDN_FDB_SSH_EXIT=0''], False), fdb_world e1)"
    using scripted_session [of fdb_reply "''SDN_FDB_SSH_EXIT=0''" d "ssh_argv node (bash_line (marked_command script))"
        fdb_ssh_timeout "''secret''" "fdb_world es"] by auto
  moreover have "import_pexpect ?P = ret ()" "p_exitstatus ?P x = Some 0" for x
    by (simp_all add: import_pexpect_def scripted_def)
  ultimately show ?thesis
    by (intro exI [of _ e1])
      (simp add: host_ssh_def host pw io_then_def io_bind_def Let_def exitstatus_def io_run_eqs demo_output_data del: io_run_simps)
qed

lemma fdb_install:
  assumes "node = ''n1'' \<or> node = ''n2''"
  shows "\<exists>out es'. install_node (scripted fdb_reply ''SDN_FDB_SSH_EXIT=0'' d) fdb_demo node demo_macs (fdb_world es) =
     (Inr out, fdb_world es')"
proof -
  let ?P = "scripted fdb_reply ''SDN_FDB_SSH_EXIT=0'' d"
  define ls where "ls = map fdb_line (overlay_entries demo_macs (sf_node_names fdb_demo) (sf_peers fdb_demo) node)"
  have ls: "fdb_lines_for node fdb_demo demo_macs = Inr ls"
    unfolding ls_def by (rule fdb_lines_entries [OF fdb_demo_nodes(1,2)])
  define script where "script = install_script fdb_demo (b64_text (data_body ls)) (b64_text (hook_script fdb_demo))"
  obtain e1 where 1: "host_ssh ?P fdb_demo node script (fdb_world es) = (Inr (True, demo_output), fdb_world e1)"
    using fdb_host_ssh by blast
  have "\<exists>ms. expected_macs (map fdb_line (overlay_entries demo_macs (sf_node_names fdb_demo) (sf_peers fdb_demo) ''n1'')) = Inr ms"
    "\<exists>ms. expected_macs (map fdb_line (overlay_entries demo_macs (sf_node_names fdb_demo) (sf_peers fdb_demo) ''n2'')) = Inr ms"
    by (rule exI, code_simp)+
  then obtain ms where ms: "expected_macs ls = Inr ms" using assms unfolding ls_def by blast
  obtain e2 where 2: "host_ssh ?P fdb_demo node (probe_script fdb_demo ms) (fdb_world e1) =
      (Inr (True, demo_output), fdb_world e2)" using fdb_host_ssh by blast
  have "\<exists>es'. verify_node ?P fdb_demo node ms (fdb_world e1) = (Inr [], fdb_world es')"
  proof (cases "ms = []")
    case False
    then show ?thesis
      by (intro exI [of _ e2]) (simp add: verify_node_def io_bind_def 2 demo_output_data io_run_eqs del: io_run_simps)
  qed (simp add: verify_node_def, rule exI, rule refl)
  then obtain e3 where 3: "verify_node ?P fdb_demo node ms (fdb_world e1) = (Inr [], fdb_world e3)" by blast
  show ?thesis
    unfolding install_node_def ls io_bind_simps Let_def script_def [symmetric]
    by (simp add: io_bind_def 1 ms 3 io_run_eqs del: io_run_simps) (rule exI, rule refl)
qed

lemma fdb_run:
  "\<exists>out es. ensure_sdn_fdb (scripted fdb_reply ''SDN_FDB_SSH_EXIT=0'' d) fdb_demo False keyed = (Inr out, fdb_world es)"
proof -
  let ?P = "scripted fdb_reply ''SDN_FDB_SSH_EXIT=0'' d"
  obtain e1 where 1: "pve_auth ?P fdb_client keyed = (Inr (JStr ''T'', JStr []), fdb_world e1)"
    using fdb_auth by blast
  obtain e2 where 2: "discover_sdn_macs ?P fdb_client (JStr ''T'') fdb_demo (fdb_world e1) = (Inr demo_macs, fdb_world e2)"
    using fdb_discover [of "''SDN_FDB_SSH_EXIT=0''" d "fdb_world e1"] by auto
  obtain o3 e3 where 3: "install_node ?P fdb_demo ''n1'' demo_macs (fdb_world e2) = (Inr o3, fdb_world e3)"
    using fdb_install by blast
  obtain o4 e4 where 4: "install_node ?P fdb_demo ''n2'' demo_macs (fdb_world e3) = (Inr o4, fdb_world e4)"
    using fdb_install by blast
  have nodes: "sf_node_names fdb_demo = [''n1'', ''n2'']" by (simp add: fdb_demo_def)
  show ?thesis
    unfolding ensure_sdn_fdb_def fdb_init io_bind_simps nodes if_False
    by (simp add: io_bind_def 1 2 3 4 io_run_eqs del: io_run_simps) (rule exI, rule refl)
qed



lemma fdb_preview_silent_witness:
  "fst (fdb_standalone (scripted fdb_reply [] False) [''sdn_fdb''] blank) = Inr 0"
  by (subst fdb_preview_silent) simp_all

end
