(* ===== verification/Vm_Factory.thy ===== *)
theory Vm_Factory
  imports Platform
begin

text \<open>
  \<open>infra/pulumi/modules/vm_factory.py\<close>, \<open>vm_definitions.py\<close> and \<open>provider.py\<close>: the specification of a VM,
  the estate of the lab, and the arguments of the resource that \<open>create_vm\<close> registers with Pulumi. An
  image is referred to by the name of the resource whose \<open>id\<close> output it is. The lemmas show the footprint
  the planner is given, the disks of a VM with its boot image, and that the estate is free of clashes.
\<close>

section \<open>Specifications\<close>

record vm_nic_spec =
  ns_bridge :: string
  ns_ipv4_cidr :: string
  ns_ipv4_gateway :: "string option"
  ns_model :: string

record vm_spec =
  vs_key :: string
  vs_phase :: int
  vs_hostname :: string
  vs_vm_id :: int
  vs_cpu_cores :: int
  vs_cpu_sockets :: int
  vs_memory_mb :: int
  vs_disks_gb :: "int list"
  vs_dns_servers :: "string list"
  vs_nics :: "vm_nic_spec list"
  vs_tags :: "string list"
  vs_cpu_type :: string

record vm_common_settings =
  vc_template_node_name :: string
  vc_template_vm_id :: "int option"
  vc_datastore_id :: string
  vc_cloud_init_datastore_id :: string
  vc_vm_username :: string
  vc_vm_ssh_public_key :: string
  vc_vm_user_password :: "string option"
  vc_vm_domain :: string
  vc_disk_file_format :: "string option"
  vc_disk_cache :: string
  vc_disk_io_thread :: bool
  vc_scsi_hardware :: string

definition vm_footprint_bytes :: "vm_spec \<Rightarrow> int \<times> int" where
  "vm_footprint_bytes sp =
     (vs_memory_mb sp * 1024 * 1024, sum_list (vs_disks_gb sp) * 1024 * 1024 * 1024)"

section \<open>The arguments of a VM resource\<close>

text \<open>An argument that the code leaves out is \<open>None\<close>.\<close>

record disk_args =
  da_interface :: string
  da_datastore_id :: string
  da_size :: int
  da_file_format :: "string option"
  da_cache :: "string option"
  da_iothread :: "bool option"
  da_import_from :: "string option"

record network_device_args =
  nd_bridge :: string
  nd_model :: string

record ip_config_args =
  ic_address :: string
  ic_gateway :: "string option"

record clone_args =
  ca_node_name :: string
  ca_vm_id :: int
  ca_full :: bool

record initialization_args =
  in_type :: string
  in_datastore_id :: string
  in_dns_domain :: string
  in_dns_servers :: "string list"
  in_ip_configs :: "ip_config_args list"
  in_username :: string
  in_password :: "string option"
  in_keys :: "string list"
  in_upgrade :: bool

record vm_resource =
  vr_resource_name :: string
  vr_node_name :: string
  vr_vm_id :: int
  vr_name :: string
  vr_tags :: "string list"
  vr_on_boot :: bool
  vr_stop_on_destroy :: bool
  vr_cdrom_file_id :: string
  vr_serial_devices :: nat
  vr_operating_system :: string
  vr_scsi_hardware :: string
  vr_cpu :: "int \<times> int \<times> string"
  vr_memory_dedicated :: int
  vr_clone :: "clone_args option"
  vr_disks :: "disk_args list"
  vr_network_devices :: "network_device_args list"
  vr_initialization :: initialization_args
  vr_depends_on :: "string list"

definition nonempty_or_none :: "string \<Rightarrow> string option" where
  "nonempty_or_none s = (if s \<noteq> [] then Some s else None)"

text \<open>\<open>boot_image_by_node and host_node in boot_image_by_node\<close>, with the image it names.\<close>

definition node_image :: "(string, string) dict option \<Rightarrow> string \<Rightarrow> string option" where
  "node_image images node = (case images of None \<Rightarrow> None | Some d \<Rightarrow> if d \<noteq> [] then dget d node else None)"

definition disk_arg :: "vm_common_settings \<Rightarrow> string \<Rightarrow> (string, string) dict option \<Rightarrow> nat \<Rightarrow> int \<Rightarrow> disk_args" where
  "disk_arg common host_node images idx disk_gb =
     \<lparr>da_interface = ''scsi'' @ nat_str idx, da_datastore_id = vc_datastore_id common, da_size = disk_gb,
      da_file_format = Option.bind (vc_disk_file_format common) nonempty_or_none,
      da_cache = nonempty_or_none (vc_disk_cache common),
      da_iothread = (if vc_disk_io_thread common then Some True else None),
      da_import_from =
        (if idx = 0 \<and> vc_template_vm_id common = None then node_image images host_node else None)\<rparr>"

definition disk_args_of ::
  "vm_common_settings \<Rightarrow> int list \<Rightarrow> string \<Rightarrow> (string, string) dict option \<Rightarrow> disk_args list" where
  "disk_args_of common disks_gb host_node images =
     map (\<lambda>(idx, disk_gb). disk_arg common host_node images idx disk_gb) (enumerate 0 disks_gb)"

definition network_args :: "vm_nic_spec list \<Rightarrow> network_device_args list" where
  "network_args nics = map (\<lambda>nic. \<lparr>nd_bridge = ns_bridge nic, nd_model = ns_model nic\<rparr>) nics"

definition ip_configs_of :: "vm_nic_spec list \<Rightarrow> ip_config_args list" where
  "ip_configs_of nics = map (\<lambda>nic. \<lparr>ic_address = ns_ipv4_cidr nic, ic_gateway = ns_ipv4_gateway nic\<rparr>) nics"

definition clone_of :: "vm_common_settings \<Rightarrow> clone_args option" where
  "clone_of common =
     map_option (\<lambda>vm_id. \<lparr>ca_node_name = vc_template_node_name common, ca_vm_id = vm_id, ca_full = True\<rparr>)
       (vc_template_vm_id common)"

definition initialization_of :: "vm_spec \<Rightarrow> vm_common_settings \<Rightarrow> initialization_args" where
  "initialization_of sp common =
     \<lparr>in_type = ''nocloud'', in_datastore_id = vc_cloud_init_datastore_id common,
      in_dns_domain = vc_vm_domain common, in_dns_servers = vs_dns_servers sp,
      in_ip_configs = ip_configs_of (vs_nics sp), in_username = vc_vm_username common,
      in_password = vc_vm_user_password common, in_keys = [vc_vm_ssh_public_key common], in_upgrade = False\<rparr>"

definition create_vm ::
  "vm_spec \<Rightarrow> vm_common_settings \<Rightarrow> string option \<Rightarrow> (string, string) dict option \<Rightarrow> string list \<Rightarrow> vm_resource" where
  "create_vm sp common node_name boot_image_by_node depends_on =
     (let host_node = (case node_name of Some n \<Rightarrow> n | None \<Rightarrow> vc_template_node_name common) in
      \<lparr>vr_resource_name = vs_key sp, vr_node_name = host_node, vr_vm_id = vs_vm_id sp, vr_name = vs_hostname sp,
       vr_tags = vs_tags sp, vr_on_boot = True, vr_stop_on_destroy = True, vr_cdrom_file_id = ''none'',
       vr_serial_devices = 1, vr_operating_system = ''l26'', vr_scsi_hardware = vc_scsi_hardware common,
       vr_cpu = (vs_cpu_cores sp, vs_cpu_sockets sp, vs_cpu_type sp),
       vr_memory_dedicated = vs_memory_mb sp, vr_clone = clone_of common,
       vr_disks = disk_args_of common (vs_disks_gb sp) host_node boot_image_by_node,
       vr_network_devices = network_args (vs_nics sp), vr_initialization = initialization_of sp common,
       vr_depends_on = depends_on\<rparr>)"

section \<open>The provider\<close>

record provider_settings =
  ps_endpoint :: string
  ps_username :: string
  ps_password :: string
  ps_insecure :: bool
  ps_node_name :: string

record proxmox_provider =
  pp_resource_name :: string
  pp_endpoint :: string
  pp_username :: string
  pp_password :: string
  pp_insecure :: bool
  pp_ssh_username :: string

definition build_provider :: "provider_settings \<Rightarrow> proxmox_provider" where
  "build_provider s =
     \<lparr>pp_resource_name = ''proxmox-provider'', pp_endpoint = ps_endpoint s, pp_username = ps_username s,
      pp_password = ps_password s, pp_insecure = ps_insecure s, pp_ssh_username = ''root''\<rparr>"

section \<open>The estate\<close>

definition nic :: "string \<Rightarrow> string \<Rightarrow> string option \<Rightarrow> vm_nic_spec" where
  "nic bridge cidr gateway =
     \<lparr>ns_bridge = bridge, ns_ipv4_cidr = cidr, ns_ipv4_gateway = gateway, ns_model = ''virtio''\<rparr>"

definition build_vm_specs :: "string \<Rightarrow> string \<Rightarrow> (string, vm_spec) dict" where
  "build_vm_specs external_bridge internal_bridge =
     [(''repo01'',
       \<lparr>vs_key = ''repo01'', vs_phase = 1, vs_hostname = ''repo01.dev.lo'', vs_vm_id = 2001, vs_cpu_cores = 4,
        vs_cpu_sockets = 1, vs_memory_mb = 10240, vs_disks_gb = [32, 100], vs_dns_servers = [''192.168.1.1''],
        vs_nics = [nic external_bridge ''192.168.1.20/24'' (Some ''192.168.1.1''),
                   nic internal_bridge ''192.168.2.99/24'' None],
        vs_tags = [''phase1'', ''repo''], vs_cpu_type = ''host''\<rparr>),
      (''core01'',
       \<lparr>vs_key = ''core01'', vs_phase = 2, vs_hostname = ''core.dev.lo'', vs_vm_id = 2002, vs_cpu_cores = 2,
        vs_cpu_sockets = 1, vs_memory_mb = 6144, vs_disks_gb = [32, 100], vs_dns_servers = [''127.0.0.1''],
        vs_nics = [nic internal_bridge ''192.168.2.4/24'' (Some ''192.168.2.99'')],
        vs_tags = [''phase2'', ''core''], vs_cpu_type = ''host''\<rparr>),
      (''kubecp01'',
       \<lparr>vs_key = ''kubecp01'', vs_phase = 4, vs_hostname = ''kubecp01.dev.lo'', vs_vm_id = 2101, vs_cpu_cores = 4,
        vs_cpu_sockets = 1, vs_memory_mb = 6144, vs_disks_gb = [32, 100], vs_dns_servers = [''192.168.2.4''],
        vs_nics = [nic internal_bridge ''192.168.2.21/24'' (Some ''192.168.2.99'')],
        vs_tags = [''phase4'', ''rke2'', ''control-plane''], vs_cpu_type = ''host''\<rparr>),
      (''kubecp02'',
       \<lparr>vs_key = ''kubecp02'', vs_phase = 4, vs_hostname = ''kubecp02.dev.lo'', vs_vm_id = 2102, vs_cpu_cores = 4,
        vs_cpu_sockets = 1, vs_memory_mb = 6144, vs_disks_gb = [32, 100], vs_dns_servers = [''192.168.2.4''],
        vs_nics = [nic internal_bridge ''192.168.2.22/24'' (Some ''192.168.2.99'')],
        vs_tags = [''phase4'', ''rke2'', ''control-plane''], vs_cpu_type = ''host''\<rparr>),
      (''kubecp03'',
       \<lparr>vs_key = ''kubecp03'', vs_phase = 4, vs_hostname = ''kubecp03.dev.lo'', vs_vm_id = 2103, vs_cpu_cores = 4,
        vs_cpu_sockets = 1, vs_memory_mb = 6144, vs_disks_gb = [32, 100], vs_dns_servers = [''192.168.2.4''],
        vs_nics = [nic internal_bridge ''192.168.2.23/24'' (Some ''192.168.2.99'')],
        vs_tags = [''phase4'', ''rke2'', ''control-plane''], vs_cpu_type = ''host''\<rparr>),
      (''kubewk01'',
       \<lparr>vs_key = ''kubewk01'', vs_phase = 5, vs_hostname = ''kubewk01.dev.lo'', vs_vm_id = 2201, vs_cpu_cores = 4,
        vs_cpu_sockets = 1, vs_memory_mb = 10240, vs_disks_gb = [32, 100, 100], vs_dns_servers = [''192.168.2.4''],
        vs_nics = [nic internal_bridge ''192.168.2.31/24'' (Some ''192.168.2.99'')],
        vs_tags = [''phase5'', ''rke2'', ''worker''], vs_cpu_type = ''host''\<rparr>),
      (''kubewk02'',
       \<lparr>vs_key = ''kubewk02'', vs_phase = 5, vs_hostname = ''kubewk02.dev.lo'', vs_vm_id = 2202, vs_cpu_cores = 4,
        vs_cpu_sockets = 1, vs_memory_mb = 10240, vs_disks_gb = [32, 100, 100], vs_dns_servers = [''192.168.2.4''],
        vs_nics = [nic internal_bridge ''192.168.2.32/24'' (Some ''192.168.2.99'')],
        vs_tags = [''phase5'', ''rke2'', ''worker''], vs_cpu_type = ''host''\<rparr>),
      (''kubewk03'',
       \<lparr>vs_key = ''kubewk03'', vs_phase = 5, vs_hostname = ''kubewk03.dev.lo'', vs_vm_id = 2203, vs_cpu_cores = 4,
        vs_cpu_sockets = 1, vs_memory_mb = 10240, vs_disks_gb = [32, 100, 100], vs_dns_servers = [''192.168.2.4''],
        vs_nics = [nic internal_bridge ''192.168.2.33/24'' (Some ''192.168.2.99'')],
        vs_tags = [''phase5'', ''rke2'', ''worker''], vs_cpu_type = ''host''\<rparr>)]"

section \<open>Lemmas\<close>

lemma disk_args_nth:
  "i < length disks \<Longrightarrow> disk_args_of common disks host images ! i = disk_arg common host images i (disks ! i)"
  "length (disk_args_of common disks host images) = length disks"
  by (simp_all add: disk_args_of_def nth_enumerate_eq)

text \<open>
  An IPv4 address with its prefix length as numbers, and the network it lies in, to state what the
  addresses of the estate have in common.
\<close>

definition octets :: "string \<Rightarrow> int list res" where
  "octets s = res_map py_int (py_split (CHR ''.'') s)"

definition in_24_of :: "string \<Rightarrow> string \<Rightarrow> bool" where
  "in_24_of address cidr \<longleftrightarrow>
     (case (octets address, map octets (py_split (CHR ''/'') cidr), py_split (CHR ''/'') cidr) of
        (Inr [a, b, c, d], Inr [a', b', c', d'] # _, [_, plen]) \<Rightarrow> plen = ''24'' \<and> a = a' \<and> b = b' \<and> c = c' \<and> d \<noteq> d'
      | _ \<Rightarrow> False)"

definition estate_addresses :: "(string, vm_spec) dict \<Rightarrow> string list" where
  "estate_addresses specs = concat (map (\<lambda>(k, v). map ns_ipv4_cidr (vs_nics v)) specs)"

text \<open>
  C39: The estate has no clash, whatever the bridges are called: keys, VMIDs, host names and
  addresses are all distinct, every specification stands under its own key, every VM has a NIC on the
  internal bridge, and every gateway lies in the /24 network of its NIC and is not the NIC's own address.
\<close>

theorem estate_wf:
  "dict_wf (build_vm_specs external internal) \<and> list_all (\<lambda>(k, v). vs_key v = k) (build_vm_specs external internal)
     \<and> distinct (map (vs_vm_id \<circ> snd) (build_vm_specs external internal))
     \<and> distinct (map (vs_hostname \<circ> snd) (build_vm_specs external internal))
     \<and> distinct (estate_addresses (build_vm_specs external internal))
     \<and> list_all (\<lambda>(k, v). internal \<in> ns_bridge ` set (vs_nics v)) (build_vm_specs external internal)
     \<and> list_all (\<lambda>(k, v). list_all (\<lambda>n. case ns_ipv4_gateway n of None \<Rightarrow> True
         | Some g \<Rightarrow> in_24_of g (ns_ipv4_cidr n)) (vs_nics v)) (build_vm_specs external internal)"
proof -
  have gateways: "in_24_of ''192.168.1.1'' ''192.168.1.20/24''" "in_24_of ''192.168.2.99'' ''192.168.2.4/24''"
    "in_24_of ''192.168.2.99'' ''192.168.2.21/24''" "in_24_of ''192.168.2.99'' ''192.168.2.22/24''"
    "in_24_of ''192.168.2.99'' ''192.168.2.23/24''" "in_24_of ''192.168.2.99'' ''192.168.2.31/24''"
    "in_24_of ''192.168.2.99'' ''192.168.2.32/24''" "in_24_of ''192.168.2.99'' ''192.168.2.33/24''"
    by code_simp+
  have keys: "dict_wf (build_vm_specs external internal)" "list_all (\<lambda>(k, v). vs_key v = k) (build_vm_specs external internal)"
    by (simp_all add: build_vm_specs_def)
  have ids: "distinct (map (vs_vm_id \<circ> snd) (build_vm_specs external internal))"
    "distinct (map (vs_hostname \<circ> snd) (build_vm_specs external internal))"
    by (simp_all add: build_vm_specs_def)
  have nics: "distinct (estate_addresses (build_vm_specs external internal))"
    "list_all (\<lambda>(k, v). internal \<in> ns_bridge ` set (vs_nics v)) (build_vm_specs external internal)"
    by (simp_all add: build_vm_specs_def estate_addresses_def nic_def)
  have "list_all (\<lambda>(k, v). list_all (\<lambda>n. case ns_ipv4_gateway n of None \<Rightarrow> True
         | Some g \<Rightarrow> in_24_of g (ns_ipv4_cidr n)) (vs_nics v)) (build_vm_specs external internal)"
    by (simp add: build_vm_specs_def nic_def gateways)
  with keys ids nics show ?thesis by blast
qed

text \<open>
  C36: The disks of a VM are those of its specification, in order, with consecutive SCSI
  interfaces from 0 and all on the configured datastore, so no interface is used twice. A boot image is
  imported on no disk but the first, only when no template is cloned, and then it is the image of the
  VM's own host; a VM is never both cloned and imported. What the planner was told the VM needs is the
  memory and the sum of the disks it is created with.
\<close>

theorem vm_disks_exact:
  "map da_size (vr_disks (create_vm sp common node images deps)) = vs_disks_gb sp
     \<and> map da_interface (vr_disks (create_vm sp common node images deps)) =
         map (\<lambda>i. ''scsi'' @ nat_str i) [0..<length (vs_disks_gb sp)]
     \<and> distinct (map da_interface (vr_disks (create_vm sp common node images deps)))
     \<and> map da_import_from (vr_disks (create_vm sp common node images deps)) =
         map (\<lambda>i. if i = 0 \<and> vr_clone (create_vm sp common node images deps) = None
                  then node_image images (vr_node_name (create_vm sp common node images deps)) else None)
           [0..<length (vs_disks_gb sp)]
     \<and> vm_footprint_bytes sp =
         (vr_memory_dedicated (create_vm sp common node images deps) * 2 ^ 20,
          sum_list (map da_size (vr_disks (create_vm sp common node images deps))) * 2 ^ 30)"
proof -
  let ?vm = "create_vm sp common node images deps"
  define host where "host = vr_node_name ?vm"
  have disks: "vr_disks ?vm = disk_args_of common (vs_disks_gb sp) host images"
    and clone: "vr_clone ?vm = clone_of common"
    by (simp_all add: create_vm_def host_def Let_def)
  have sizes: "map da_size (vr_disks ?vm) = vs_disks_gb sp"
    unfolding disks by (rule nth_equalityI) (simp_all add: disk_args_nth disk_arg_def)
  have faces: "map da_interface (vr_disks ?vm) = map (\<lambda>i. ''scsi'' @ nat_str i) [0..<length (vs_disks_gb sp)]"
    unfolding disks by (rule nth_equalityI) (simp_all add: disk_args_nth disk_arg_def)
  have "inj nat_str" using digits_nat_nat_str by (metis injI option.inject)
  then have "distinct (map (\<lambda>i. ''scsi'' @ nat_str i) [0..<length (vs_disks_gb sp)])"
    by (simp add: distinct_map inj_on_def)
  moreover have "map da_import_from (vr_disks ?vm) =
      map (\<lambda>i. if i = 0 \<and> vr_clone ?vm = None then node_image images host else None) [0..<length (vs_disks_gb sp)]"
    unfolding disks clone by (rule nth_equalityI) (auto simp: disk_args_nth disk_arg_def clone_of_def)
  moreover have "vm_footprint_bytes sp =
      (vr_memory_dedicated ?vm * 2 ^ 20, sum_list (map da_size (vr_disks ?vm)) * 2 ^ 30)"
    unfolding sizes by (simp add: vm_footprint_bytes_def create_vm_def Let_def)
  ultimately show ?thesis
    unfolding host_def [symmetric] using sizes faces by (simp only: simp_thms)
qed

end
