(* ===== verification/Lab_Program.thy ===== *)
theory Lab_Program
  imports Placement Sdn Sdn_Fdb Vm_Factory
begin

text \<open>
  \<open>infra/pulumi/__main__.py\<close>: the Pulumi program that ties the modules together. It reads the stack's
  configuration, selects the VMs to deploy, plans their nodes, registers every resource, and cleans up
  orphaned volumes; the SDN apply and the forwarding overlay run later, in a callback after the
  resources exist. Resources are the records of their arguments. The lemmas show what is deployed and
  where, and that a preview changes nothing.
\<close>

section \<open>The configuration\<close>

text \<open>
  One namespace of the stack's configuration, as \<open>pulumi.Config\<close> presents it. An accessor that converts
  may raise; the object accessors are taken at the types that \<open>Pulumi.dev.yaml.example\<close> documents. A
  secret is an \<open>Output\<close>, of which only presence is observed.
\<close>

record stack_config =
  cf_get :: "string \<Rightarrow> string option"
  cf_int :: "string \<Rightarrow> int option res"
  cf_bool :: "string \<Rightarrow> bool option res"
  cf_strings :: "string \<Rightarrow> string list option res"
  cf_string_map :: "string \<Rightarrow> (string, string) dict option res"
  cf_secret :: "string \<Rightarrow> string option"

record lab_stack =
  proxmox_cfg :: stack_config
  deployment_cfg :: stack_config
  program_dir :: string

text \<open>\<open>x or d\<close> on an optional text or list.\<close>

definition or_default :: "'a list option \<Rightarrow> 'a list \<Rightarrow> 'a list" where
  "or_default o' d = (case o' of Some v \<Rightarrow> if v \<noteq> [] then v else d | None \<Rightarrow> d)"

definition or_int :: "int option \<Rightarrow> int \<Rightarrow> int" where
  "or_int o' d = (case o' of Some n \<Rightarrow> if n \<noteq> 0 then n else d | None \<Rightarrow> d)"

definition get_required_value :: "'w platform \<Rightarrow> stack_config \<Rightarrow> string \<Rightarrow> string \<Rightarrow> string res" where
  "get_required_value P cf key env =
     (let config_value = or_default (cf_get cf key) []; env_value = or_default (p_environ P env) [] in
      if config_value \<noteq> [] then Inr config_value
      else if env_value \<noteq> [] then Inr env_value
      else throw ValueError
        (''Missing required value for '' @ [squote] @ key @ [squote] @ ''. Set config or env var '' @ env @ ''.''))"

definition get_bool_value :: "'w platform \<Rightarrow> stack_config \<Rightarrow> string \<Rightarrow> string \<Rightarrow> bool \<Rightarrow> bool res" where
  "get_bool_value P cf key env d =
     res_bind (cf_bool cf key) (\<lambda>config_value.
     case config_value of
       Some b \<Rightarrow> Inr b
     | None \<Rightarrow>
         (case p_environ P env of
            None \<Rightarrow> Inr d
          | Some v \<Rightarrow> Inr (py_lower v \<in> {''1'', ''true'', ''yes'', ''on''})))"

record lab_settings =
  ls_node_names :: "string list"
  ls_provider :: provider_settings
  ls_phase_limit :: int
  ls_external_bridge :: string
  ls_image_datastore_id :: string
  ls_common :: vm_common_settings
  ls_sdn :: sdn_settings

definition read_provider_settings :: "'w platform \<Rightarrow> lab_stack \<Rightarrow> string \<Rightarrow> provider_settings res" where
  "read_provider_settings P st management_node =
     (let cf = proxmox_cfg st in
      res_bind (get_required_value P cf ''endpoint'' ''PROXMOX_VE_ENDPOINT'') (\<lambda>endpoint.
      res_bind (get_required_value P cf ''username'' ''PROXMOX_VE_USERNAME'') (\<lambda>username.
      res_bind (get_required_value P cf ''password'' ''PROXMOX_VE_PASSWORD'') (\<lambda>password.
      res_bind (get_bool_value P cf ''insecure'' ''PROXMOX_VE_INSECURE'' True) (\<lambda>insecure.
      Inr \<lparr>ps_endpoint = endpoint, ps_username = username, ps_password = password, ps_insecure = insecure,
           ps_node_name = management_node\<rparr>)))))"

definition read_common_settings ::
  "'w platform \<Rightarrow> lab_stack \<Rightarrow> string \<Rightarrow> int option \<Rightarrow> vm_common_settings res" where
  "read_common_settings P st management_node template_vm_id =
     (let cf = deployment_cfg st in
      res_bind (get_required_value P cf ''vmSshPublicKey'' ''VM_SSH_PUBLIC_KEY'') (\<lambda>key.
      Inr \<lparr>vc_template_node_name = management_node, vc_template_vm_id = template_vm_id,
           vc_datastore_id = or_default (cf_get cf ''datastoreId'') ''local-lvm'',
           vc_cloud_init_datastore_id = or_default (cf_get cf ''cloudInitDatastoreId'') ''local-lvm'',
           vc_vm_username = or_default (cf_get cf ''vmUsername'') ''devops'',
           vc_vm_ssh_public_key = key,
           vc_vm_user_password =
             (case cf_secret cf ''vmUserPassword'' of Some s \<Rightarrow> Some s | None \<Rightarrow> p_environ P ''VM_USER_PASSWORD''),
           vc_vm_domain = or_default (cf_get cf ''vmDomain'') ''dev.lo'',
           vc_disk_file_format = cf_get cf ''diskFileFormat'',
           vc_disk_cache = or_default (cf_get cf ''diskCache'') ''writeback'',
           vc_disk_io_thread = True, vc_scsi_hardware = ''virtio-scsi-single''\<rparr>))"

definition read_sdn_settings :: "lab_stack \<Rightarrow> provider_settings \<Rightarrow> string list \<Rightarrow> sdn_settings res" where
  "read_sdn_settings st ps node_names =
     (let cf = deployment_cfg st; tag = or_default (cf_get cf ''vxlanTag'') [] in
      res_bind (if tag \<noteq> [] then py_int tag else Inr 42) (\<lambda>vxlan_tag.
      res_bind (cf_strings cf ''sdnPeers'') (\<lambda>peers.
      Inr \<lparr>sd_endpoint = ps_endpoint ps, sd_username = ps_username ps, sd_password = ps_password ps,
           sd_insecure = ps_insecure ps, sd_zone_id = or_default (cf_get cf ''sdnZoneId'') ''labvx'',
           sd_vnet_id = or_default (cf_get cf ''sdnVnetId'') ''vlab'', sd_vxlan_tag = vxlan_tag,
           sd_node_names = node_names,
           sd_peers = or_default peers [''192.168.1.21'', ''192.168.1.22'', ''192.168.1.23'']\<rparr>)))"

definition read_settings :: "'w platform \<Rightarrow> lab_stack \<Rightarrow> lab_settings res" where
  "read_settings P st =
     (let cf = deployment_cfg st in
      res_bind (cf_strings cf ''nodeNames'') (\<lambda>names.
      let node_names = or_default names [''pve01'', ''pve02'', ''pve03''];
          management_node = or_default (cf_get cf ''managementNode'') (hd node_names) in
      res_bind (read_provider_settings P st management_node) (\<lambda>ps.
      res_bind (cf_int cf ''phaseLimit'') (\<lambda>phase_limit.
      res_bind (cf_int cf ''templateVmId'') (\<lambda>template_vm_id.
      res_bind (read_common_settings P st management_node template_vm_id) (\<lambda>common.
      res_bind (read_sdn_settings st ps node_names) (\<lambda>sdn.
      Inr \<lparr>ls_node_names = node_names, ls_provider = ps, ls_phase_limit = or_int phase_limit 2,
           ls_external_bridge = or_default (cf_get cf ''externalBridge'') ''vmbr0'',
           ls_image_datastore_id = or_default (cf_get cf ''imageDatastoreId'') ''local'',
           ls_common = common, ls_sdn = sdn\<rparr>)))))))"

section \<open>What to deploy\<close>

definition select_vms :: "int \<Rightarrow> string list option \<Rightarrow> (string, vm_spec) dict \<Rightarrow> vm_spec list res" where
  "select_vms phase_limit selected vm_specs =
     (let requested = or_default selected [];
          deployment_set =
            (if requested \<noteq> [] then map snd (filter (\<lambda>(key, vm). key \<in> set requested) vm_specs)
             else filter (\<lambda>vm. vs_phase vm \<le> phase_limit) (map snd vm_specs))
      in if deployment_set = []
         then throw ValueError ''No VMs selected for deployment. Check deployment config values.''
         else Inr deployment_set)"

record image_download =
  im_resource_name :: string
  im_content_type :: string
  im_datastore_id :: string
  im_node_name :: string
  im_url :: string
  im_file_name :: string
  im_checksum :: string
  im_checksum_algorithm :: string
  im_overwrite :: bool
  im_overwrite_unmanaged :: bool
  im_verify :: bool
  im_delete_before_replace :: bool
  im_alias_types :: "string list"

definition boot_image :: "lab_stack \<Rightarrow> lab_settings \<Rightarrow> string \<Rightarrow> image_download" where
  "boot_image st ls node =
     (let cf = deployment_cfg st in
      \<lparr>im_resource_name = ''ubuntu2404-cloud-image-'' @ node, im_content_type = ''import'',
       im_datastore_id = ls_image_datastore_id ls, im_node_name = node,
       im_url = or_default (cf_get cf ''baseImageUrl'')
         (''https://cloud-images.ubuntu.com/releases/noble/release-20260814/'' @
          ''ubuntu-24.04-server-cloudimg-amd64.img''),
       im_file_name = or_default (cf_get cf ''baseImageFileName'') ''noble-server-cloudimg-amd64.qcow2'',
       im_checksum = or_default (cf_get cf ''baseImageChecksum'')
         ''6e40c07ae715f744f84af0bec76415cc1987dd115b4b8de437818561f01a3733'',
       im_checksum_algorithm = ''sha256'', im_overwrite = False, im_overwrite_unmanaged = True,
       im_verify = (\<not> ps_insecure (ls_provider ls)), im_delete_before_replace = True,
       im_alias_types = [''proxmoxve:download/fileLegacy:FileLegacy'']\<rparr>)"

definition boot_images :: "lab_stack \<Rightarrow> lab_settings \<Rightarrow> image_download list" where
  "boot_images st ls =
     (if vc_template_vm_id (ls_common ls) = None then map (boot_image st ls) (ls_node_names ls) else [])"

definition boot_image_by_node :: "image_download list \<Rightarrow> (string, string) dict option" where
  "boot_image_by_node images =
     (let d = dict_of (map (\<lambda>im. (im_node_name im, im_resource_name im)) images)
      in if d \<noteq> [] then Some d else None)"

definition vm_ram_disk :: "vm_spec list \<Rightarrow> (string, int \<times> int) dict" where
  "vm_ram_disk deployment_set = dict_of (map (\<lambda>vm. (vs_key vm, vm_footprint_bytes vm)) deployment_set)"

text \<open>The first NIC of a VM on the internal bridge.\<close>

fun first_nic_on :: "string \<Rightarrow> nat \<Rightarrow> vm_nic_spec list \<Rightarrow> nat option" where
  "first_nic_on bridge i [] = None"
| "first_nic_on bridge i (n # ns) = (if ns_bridge n = bridge then Some i else first_nic_on bridge (Suc i) ns)"

definition sdn_nic_index_of :: "string \<Rightarrow> vm_spec list \<Rightarrow> (int, int) dict" where
  "sdn_nic_index_of bridge specs =
     fold (\<lambda>vm d. case first_nic_on bridge 0 (vs_nics vm) of None \<Rightarrow> d | Some i \<Rightarrow> dset (vs_vm_id vm) (int i) d) specs []"

definition fdb_settings_of :: "lab_settings \<Rightarrow> (int, int) dict \<Rightarrow> sdn_fdb_settings" where
  "fdb_settings_of ls nic_index =
     (let ps = ls_provider ls in
      \<lparr>sf_endpoint = ps_endpoint ps, sf_username = ps_username ps, sf_password = ps_password ps,
       sf_insecure = ps_insecure ps, sf_node_names = ls_node_names ls, sf_peers = sd_peers (ls_sdn ls),
       sf_vxlan_device = ''vxlan_vlab'', sf_data_file = ''/etc/sdn-vlab-fdb/sdn-vlab-fdb.txt'',
       sf_data_dir = ''/etc/sdn-vlab-fdb'', sf_hook_file = ''/etc/network/if-up.d/sdn-vlab-fdb'',
       sf_password_file = default_host_password_file,
       sf_node_ssh_hosts = dict_of (zip (ls_node_names ls) (sd_peers (ls_sdn ls))),
       sf_sdn_nic_index = nic_index\<rparr>)"

definition preflight_settings :: "'w platform \<Rightarrow> lab_settings \<Rightarrow> cleanup_settings" where
  "preflight_settings P ls =
     (let ps = ls_provider ls; common = ls_common ls in
      \<lparr>cs_endpoint = ps_endpoint ps, cs_username = ps_username ps, cs_password = ps_password ps,
       cs_node_names = ls_node_names ls,
       cs_datastore_ids = [vc_datastore_id common, vc_cloud_init_datastore_id common],
       cs_insecure = ps_insecure ps, cs_fallback_file = Some (fallback_path P), cs_node_ssh_hosts = None\<rparr>)"

section \<open>The program\<close>

record created_vm =
  cv_hostname :: string
  cv_vm_id :: int
  cv_phase :: int
  cv_node :: string
  cv_ip_addresses :: "string list"
  cv_resource_name :: string

record deployment =
  dp_settings :: lab_settings
  dp_provider :: proxmox_provider
  dp_zone :: vxlan_zone
  dp_vnet :: sdn_vnet
  dp_images :: "image_download list"
  dp_vms :: "vm_resource list"
  dp_fdb :: sdn_fdb_settings
  dp_boot_image_source :: string
  dp_placements :: "(string, string) dict"
  dp_created :: "(string, created_vm) dict"

definition vm_on_node ::
  "lab_settings \<Rightarrow> (string, string) dict option \<Rightarrow> string list \<Rightarrow> (string, string) dict \<Rightarrow> vm_spec \<Rightarrow> vm_resource res" where
  "vm_on_node ls images deps placed vm =
     res_bind (ditem placed (vs_key vm)) (\<lambda>node. Inr (create_vm vm (ls_common ls) (Some node) images deps))"

definition created_of :: "vm_spec \<Rightarrow> vm_resource \<Rightarrow> created_vm" where
  "created_of vm r =
     \<lparr>cv_hostname = vs_hostname vm, cv_vm_id = vs_vm_id vm, cv_phase = vs_phase vm, cv_node = vr_node_name r,
      cv_ip_addresses = map ns_ipv4_cidr (vs_nics vm), cv_resource_name = vr_resource_name r\<rparr>"

definition preflight :: "'w platform \<Rightarrow> lab_settings \<Rightarrow> ('w, unit) io" where
  "preflight P ls =
     (if p_dry_run P then ret ()
      else
        io_except [RuntimeError]
          (io_bind (clean_orphans P (preflight_settings P ls) True) (\<lambda>out.
           io_bind (io_map print_err out) (\<lambda>_. ret ())))
          (\<lambda>exc. print_err (''[pve_cleanup] preflight skipped: '' @ exn_msg exc)))"

definition record_path_of :: "lab_stack \<Rightarrow> string" where
  "record_path_of st = or_default (cf_get (deployment_cfg st) ''placementRecordPath'') (program_dir st @ ''/.placement.json'')"

definition lab_program :: "'w platform \<Rightarrow> lab_stack \<Rightarrow> ('w, deployment) io" where
  "lab_program P st =
     io_bind (lift (read_settings P st)) (\<lambda>ls.
     let ps = ls_provider ls; (zone, vnet) = build_internal_lan (ls_sdn ls);
         vm_specs = build_vm_specs (ls_external_bridge ls) (sd_vnet_id (ls_sdn ls)) in
     io_bind (lift (cf_strings (deployment_cfg st) ''selectedVmKeys'')) (\<lambda>selected.
     io_bind (lift (select_vms (ls_phase_limit ls) selected vm_specs)) (\<lambda>vms.
     let images = boot_images st ls; deps = vnet_resource vnet # map im_resource_name images in
     io_bind (lift (cf_string_map (deployment_cfg st) ''placementOverrides'')) (\<lambda>overrides.
     io_bind
       (plan_placement P (ps_endpoint ps) (ps_username ps) (ps_password ps) (ps_insecure ps) (vm_ram_disk vms)
         (record_path_of st) (Some (or_default overrides [])) (Some (ls_node_names ls)) (\<not> p_dry_run P))
       (\<lambda>placed.
     io_bind (lift (res_map (vm_on_node ls (boot_image_by_node images) deps placed) vms)) (\<lambda>resources.
     let nic_index = sdn_nic_index_of (sd_vnet_id (ls_sdn ls)) (map snd vm_specs) in
     io_then (preflight P ls)
       (ret
         \<lparr>dp_settings = ls, dp_provider = build_provider ps, dp_zone = zone, dp_vnet = vnet, dp_images = images,
          dp_vms = resources, dp_fdb = fdb_settings_of ls nic_index,
          dp_boot_image_source =
            (case vc_template_vm_id (ls_common ls) of
               Some i \<Rightarrow> if i \<noteq> 0 then ''clone'' else ''download'' | None \<Rightarrow> ''download''),
          dp_placements = placed,
          dp_created = dict_of (map (\<lambda>(vm, r). (vs_key vm, created_of vm r)) (zip vms resources))\<rparr>)))))))"

text \<open>The callback that Pulumi runs once the vnet and the VMs exist; \<open>None\<close> is a run that never ends.\<close>

definition overlay_after_create :: "'w platform \<Rightarrow> sdn_fdb_settings \<Rightarrow> ('w, unit) io" where
  "overlay_after_create P fdb =
     io_except [RuntimeError]
       (io_bind (ensure_sdn_fdb P fdb (p_dry_run P)) (\<lambda>out. io_bind (io_map print_err out) (\<lambda>_. ret ())))
       (\<lambda>exc. print_err (''[sdn_fdb] durable overlay apply skipped: '' @ exn_msg exc))"

definition post_create_sdn :: "'w platform \<Rightarrow> sdn_settings \<Rightarrow> sdn_fdb_settings \<Rightarrow> 'w world \<Rightarrow> (unit res \<times> 'w world) option" where
  "post_create_sdn P s fdb w =
     (case apply_sdn P (sd_endpoint s) (sd_username s) (sd_password s) (sd_insecure s) w of
        None \<Rightarrow> None
      | Some (Inl e, w1) \<Rightarrow> Some (Inl e, w1)
      | Some (Inr _, w1) \<Rightarrow> Some (overlay_after_create P fdb w1))"

section \<open>What is deployed\<close>

lemma plan_placement_nodes:
  assumes "plan_placement P ep us pw ins vms path ov (Some nodes) persist w = (Inr ch, w')" and "nodes \<noteq> []"
  obtains rec caps ps where "load_result path (files w path) = Inr rec" "set (dkeys caps) \<subseteq> set nodes"
    "decide_placement vms caps (placements rec) (overrides_of ov) = Inr (ch, ps)"
proof -
  from assms(1) obtain rec c0 c ns w1 caps w2 ps where
    rec: "load_result path (files w path) = Inr rec" and
    ns: "candidate_nodes_of P c0 (Some nodes) w = (Inr (c, ns), w1)" and
    caps: "read_capacities P c ns w1 = (Inr caps, w2)" and
    plan: "decide_placement vms caps (placements rec) (overrides_of ov) = Inr (ch, ps)"
    unfolding plan_placement_def overrides_of_def [symmetric]
    by (auto simp: io_bind_Inr io_then_Inr Let_def load_record_run split: prod.splits if_splits)
  from ns assms(2) have "ns = nodes"
    by (cases nodes) (auto simp: candidate_nodes_of_def io_bind_Inr)
  moreover have "set (dkeys caps) \<subseteq> set ns"
  proof -
    from caps obtain kcs where kcs: "io_map (\<lambda>n. io_bind (read_node_capacity P c n) (\<lambda>cap. ret (n, cap))) ns w1 = (Inr kcs, w2)"
      and c: "caps = dict_of kcs"
      by (auto simp: read_capacities_def io_bind_Inr)
    have "map fst kcs = ns" if "io_map (\<lambda>n. io_bind (read_node_capacity P c n) (\<lambda>cap. ret (n, cap))) ns w1 = (Inr kcs, w2)" for kcs ns w1
      using that by (induction ns arbitrary: kcs w1) (auto simp: io_bind_Inr)
    with kcs have "set (map fst kcs) \<subseteq> set ns" by blast
    moreover have "set (dkeys (dict_of kcs)) \<subseteq> set (map fst kcs)"
      using dget_dict_of [of kcs] by (force simp: in_dkeys dest: map_of_SomeD)
    ultimately show ?thesis using c by blast
  qed
  ultimately show thesis using that rec plan by blast
qed

lemma or_default_not_Nil: "d \<noteq> [] \<Longrightarrow> or_default v d \<noteq> []"
  by (simp add: or_default_def split: option.split)

lemma settings_nodes: "read_settings P st = Inr ls \<Longrightarrow> ls_node_names ls \<noteq> []"
  unfolding read_settings_def Let_def res_bind_eq_Inr sum.inject
  by (elim exE conjE, hypsubst) (simp only: lab_settings.simps, rule or_default_not_Nil, simp)

lemma select_vms_sub:
  assumes "select_vms limit selected (build_vm_specs external internal) = Inr vms"
  shows "vms \<noteq> []" and "distinct (map vs_key vms)" and "distinct (map vs_vm_id vms)"
    and "set vms = {vm \<in> snd ` set (build_vm_specs external internal).
      if or_default selected [] \<noteq> [] then vs_key vm \<in> set (or_default selected []) else vs_phase vm \<le> limit}"
proof -
  let ?specs = "build_vm_specs external internal"
  define pick where "pick = (\<lambda>vm :: vm_spec. if or_default selected [] \<noteq> [] then vs_key vm \<in> set (or_default selected [])
     else vs_phase vm \<le> limit)"
  have key: "\<forall>(k, v) \<in> set ?specs. vs_key v = k" by (simp add: build_vm_specs_def)
  have "map snd (filter (\<lambda>(key, vm). key \<in> set req) ?specs) = filter (\<lambda>vm. vs_key vm \<in> set req) (map snd ?specs)" for req
  proof -
    have "map snd (filter (\<lambda>(key, vm). key \<in> set req) l) = filter (\<lambda>vm. vs_key vm \<in> set req) (map snd l)"
      if "\<forall>(k, v) \<in> set l. vs_key v = k" for l
      using that by (induction l) auto
    then show ?thesis using key .
  qed
  then have vms: "vms = filter pick (map snd ?specs)" and ne: "vms \<noteq> []"
    using assms by (auto simp: select_vms_def pick_def Let_def split: if_splits)
  have "distinct (map vs_key (map snd ?specs))" "distinct (map vs_vm_id (map snd ?specs))"
    by (simp_all add: build_vm_specs_def)
  then show "distinct (map vs_key vms)" "distinct (map vs_vm_id vms)"
    unfolding vms by (auto intro: distinct_map_filter)
  show "vms \<noteq> []" by (rule ne)
  show "set vms = {vm \<in> snd ` set ?specs.
      if or_default selected [] \<noteq> [] then vs_key vm \<in> set (or_default selected []) else vs_phase vm \<le> limit}"
    unfolding vms pick_def by auto
qed

lemma res_map_nth:
  "res_map f xs = Inr ys \<Longrightarrow> length ys = length xs \<and> (\<forall>i < length xs. f (xs ! i) = Inr (ys ! i))"
proof (induction xs arbitrary: ys)
  case (Cons x xs)
  then obtain y zs where "ys = y # zs" "f x = Inr y" "res_map f xs = Inr zs" by auto
  with Cons.IH show ?case by (auto simp: less_Suc_eq_0_disj)
qed simp

lemma vm_ram_disk_keys:
  assumes "distinct (map vs_key vms)"
  shows "dict_wf (vm_ram_disk vms)" and "dkeys (vm_ram_disk vms) = map vs_key vms"
proof -
  let ?kvs = "map (\<lambda>vm. (vs_key vm, vm_footprint_bytes vm)) vms"
  have keys: "dkeys ?kvs = map vs_key vms" by (simp add: dkeys_def comp_def)
  then have wf: "dict_wf ?kvs" using assms by (simp add: dict_wf_def comp_def)
  from wf have "vm_ram_disk vms = ?kvs" by (simp add: vm_ram_disk_def dict_of_id)
  then show "dict_wf (vm_ram_disk vms)" "dkeys (vm_ram_disk vms) = map vs_key vms"
    using keys wf by simp_all
qed

lemma node_image_boot:
  assumes "vc_template_vm_id (ls_common ls) = None"
  shows "node_image (boot_image_by_node (boot_images st ls)) node =
     (if node \<in> set (ls_node_names ls) then Some (''ubuntu2404-cloud-image-'' @ node) else None)"
proof -
  let ?kvs = "map (\<lambda>n. (n, ''ubuntu2404-cloud-image-'' @ n)) (ls_node_names ls)"
  have "map (\<lambda>im. (im_node_name im, im_resource_name im)) (boot_images st ls) = ?kvs"
    using assms by (simp add: boot_images_def boot_image_def Let_def)
  moreover have "dget (dict_of ?kvs) node =
      (if node \<in> set (ls_node_names ls) then Some (''ubuntu2404-cloud-image-'' @ node) else None)"
    unfolding dget_dict_of rev_map map_of_map_restrict by (simp add: restrict_map_def del: append_Cons)
  ultimately show ?thesis
    by (auto simp: node_image_def boot_image_by_node_def Let_def)
qed

abbreviation lab_specs :: "lab_settings \<Rightarrow> (string, vm_spec) dict" where
  "lab_specs ls \<equiv> build_vm_specs (ls_external_bridge ls) (sd_vnet_id (ls_sdn ls))"

abbreviation lab_deps :: "lab_stack \<Rightarrow> lab_settings \<Rightarrow> string list" where
  "lab_deps st ls \<equiv> ''sdn-vxlan-vnet'' # map im_resource_name (boot_images st ls)"

abbreviation lab_placement ::
  "'w platform \<Rightarrow> lab_stack \<Rightarrow> lab_settings \<Rightarrow> vm_spec list \<Rightarrow> (string, string) dict option \<Rightarrow> ('w, (string, string) dict) io" where
  "lab_placement P st ls vms overrides \<equiv>
     plan_placement P (ps_endpoint (ls_provider ls)) (ps_username (ls_provider ls)) (ps_password (ls_provider ls))
       (ps_insecure (ls_provider ls)) (vm_ram_disk vms) (record_path_of st) (Some (or_default overrides []))
       (Some (ls_node_names ls)) (\<not> p_dry_run P)"

lemma lab_program_Inr:
  assumes "lab_program P st w = (Inr d, w')"
  obtains ls selected vms overrides placed w1 resources u where
    "read_settings P st = Inr ls" "cf_strings (deployment_cfg st) ''selectedVmKeys'' = Inr selected"
    "select_vms (ls_phase_limit ls) selected (lab_specs ls) = Inr vms"
    "cf_string_map (deployment_cfg st) ''placementOverrides'' = Inr overrides"
    "lab_placement P st ls vms overrides w = (Inr placed, w1)"
    "res_map (vm_on_node ls (boot_image_by_node (boot_images st ls)) (lab_deps st ls) placed) vms = Inr resources"
    "preflight P ls w1 = (Inr u, w')"
    "dp_settings d = ls" "dp_images d = boot_images st ls" "dp_vms d = resources" "dp_placements d = placed"
    "dp_fdb d = fdb_settings_of ls (sdn_nic_index_of (sd_vnet_id (ls_sdn ls)) (map snd (lab_specs ls)))"
proof -
  from assms obtain ls w0 where ls: "read_settings P st = Inr ls" "w0 = w"
    by (cases "read_settings P st") (simp_all add: lab_program_def)
  obtain zone vnet where lan: "build_internal_lan (ls_sdn ls) = (zone, vnet)" "vnet_resource vnet = ''sdn-vxlan-vnet''"
    by (simp add: build_internal_lan_def Let_def)
  note run = assms [unfolded lab_program_def ls(1) io_bind_simps Let_def lan prod.case io_bind_Inr io_then_Inr io_run_simps
      sum.inject]
  from run show thesis
    by (elim exE conjE, hypsubst) (rule that [OF ls(1)], assumption, assumption, assumption, assumption, assumption,
        assumption, simp_all only: deployment.simps)
qed

text \<open>The VM of a specification, and what is known of the VMs that a run registers.\<close>

definition registered :: "lab_stack \<Rightarrow> deployment \<Rightarrow> vm_spec \<Rightarrow> vm_resource \<Rightarrow> bool" where
  "registered st d vm r \<longleftrightarrow>
     dget (dp_placements d) (vs_key vm) = Some (vr_node_name r)
     \<and> r = create_vm vm (ls_common (dp_settings d)) (Some (vr_node_name r)) (boot_image_by_node (dp_images d))
            (lab_deps st (dp_settings d))"

lemma created_node:
  "vr_node_name (create_vm vm common (Some n) images deps) = n"
  "vr_resource_name (create_vm vm common node images deps) = vs_key vm"
  "vr_vm_id (create_vm vm common node images deps) = vs_vm_id vm"
  "vr_clone (create_vm vm common node images deps) = clone_of common"
  "vr_depends_on (create_vm vm common node images deps) = deps"
  "vr_disks (create_vm vm common (Some n) images deps) = disk_args_of common (vs_disks_gb vm) n images"
  by (simp_all add: create_vm_def Let_def)

lemma vms_registered:
  assumes "lab_program P st w = (Inr d, w')"
  obtains ls selected vms overrides w1 where
    "read_settings P st = Inr ls" "cf_strings (deployment_cfg st) ''selectedVmKeys'' = Inr selected"
    "select_vms (ls_phase_limit ls) selected (lab_specs ls) = Inr vms"
    "cf_string_map (deployment_cfg st) ''placementOverrides'' = Inr overrides"
    "lab_placement P st ls vms overrides w = (Inr (dp_placements d), w1)"
    "dp_settings d = ls" "dp_images d = boot_images st ls"
    "list_all2 (registered st d) vms (dp_vms d)"
proof -
  obtain ls selected vms overrides placed w1 resources u where 1:
    "read_settings P st = Inr ls" "cf_strings (deployment_cfg st) ''selectedVmKeys'' = Inr selected"
    "select_vms (ls_phase_limit ls) selected (lab_specs ls) = Inr vms"
    "cf_string_map (deployment_cfg st) ''placementOverrides'' = Inr overrides"
    "lab_placement P st ls vms overrides w = (Inr placed, w1)"
    and 2: "res_map (vm_on_node ls (boot_image_by_node (boot_images st ls)) (lab_deps st ls) placed) vms = Inr resources"
    and 3: "dp_settings d = ls" "dp_images d = boot_images st ls" "dp_vms d = resources" "dp_placements d = placed"
    by (rule lab_program_Inr [OF assms])
  have "registered st d (vms ! i) (resources ! i)" if "i < length vms" for i
  proof -
    have "vm_on_node ls (boot_image_by_node (boot_images st ls)) (lab_deps st ls) placed (vms ! i) = Inr (resources ! i)"
      using res_map_nth [OF 2] that by blast
    then obtain n where "dget placed (vs_key (vms ! i)) = Some n"
      "resources ! i = create_vm (vms ! i) (ls_common ls) (Some n) (boot_image_by_node (boot_images st ls)) (lab_deps st ls)"
      by (auto simp: vm_on_node_def)
    then show ?thesis by (simp add: registered_def created_node 3)
  qed
  then have "list_all2 (registered st d) vms (dp_vms d)"
    using res_map_nth [OF 2] 3 by (simp add: list_all2_conv_all_nth)
  with 1 3 show thesis by (intro that) simp_all
qed

text \<open>
  C11: A successful run registers exactly the selected VMs, each once, under
  its own key and VMID, and every VM on the node that the plan gave it, with the
  resources it depends on being the vnet and all the boot images. The selection is the requested keys,
  or without a request all VMs up to the phase limit, and is never empty.
\<close>

theorem vms_registered_exact:
  assumes "lab_program P st w = (Inr d, w')"
  shows "\<exists>selected vms. cf_strings (deployment_cfg st) ''selectedVmKeys'' = Inr selected \<and> vms \<noteq> []
     \<and> set vms = {vm \<in> snd ` set (lab_specs (dp_settings d)).
         if or_default selected [] \<noteq> [] then vs_key vm \<in> set (or_default selected [])
         else vs_phase vm \<le> ls_phase_limit (dp_settings d)}
     \<and> list_all2 (registered st d) vms (dp_vms d)
     \<and> map vr_resource_name (dp_vms d) = map vs_key vms \<and> map vr_vm_id (dp_vms d) = map vs_vm_id vms
     \<and> distinct (map vr_resource_name (dp_vms d)) \<and> distinct (map vr_vm_id (dp_vms d))
     \<and> set (dkeys (dp_placements d)) = vr_resource_name ` set (dp_vms d)"
proof (rule vms_registered [OF assms], goal_cases)
  case (1 ls selected vms overrides w1)
  note sel = select_vms_sub [OF 1(3)]
  have names: "map vr_resource_name (dp_vms d) = map vs_key vms" "map vr_vm_id (dp_vms d) = map vs_vm_id vms"
  proof -
    have "vr_resource_name r = vs_key vm \<and> vr_vm_id r = vs_vm_id vm" if "registered st d vm r" for vm r
      using that created_node(2,3) unfolding registered_def by metis
    then show "map vr_resource_name (dp_vms d) = map vs_key vms" "map vr_vm_id (dp_vms d) = map vs_vm_id vms"
      using 1(8) by (auto simp: list_all2_conv_all_nth intro!: nth_equalityI)
  qed
  obtain rec caps ps where "load_result (record_path_of st) (files w (record_path_of st)) = Inr rec"
    "set (dkeys caps) \<subseteq> set (ls_node_names ls)" "decide_placement (vm_ram_disk vms) caps (placements rec)
      (overrides_of (Some (or_default overrides []))) = Inr (dp_placements d, ps)"
    by (rule plan_placement_nodes [OF 1(5) settings_nodes [OF 1(1)]])
  then have keys: "set (dkeys (dp_placements d)) = set (map vs_key vms)"
    using plan_domain_facts vm_ram_disk_keys [OF sel(2)] by metis
  have "set (dkeys (dp_placements d)) = vr_resource_name ` set (dp_vms d)"
    using keys names(1) by (metis set_map)
  then show ?case
    unfolding 1(6) using 1(2,8) sel names by (intro exI [of _ selected] exI [of _ vms]) simp
qed


lemma registered_vm:
  assumes "list_all2 (registered st d) vms (dp_vms d)" and "r \<in> set (dp_vms d)"
  obtains vm where "vm \<in> set vms" "registered st d vm r" "vr_resource_name r = vs_key vm" "vr_vm_id r = vs_vm_id vm"
    "vr_clone r = clone_of (ls_common (dp_settings d))" "vr_depends_on r = lab_deps st (dp_settings d)"
    "vr_disks r = disk_args_of (ls_common (dp_settings d)) (vs_disks_gb vm) (vr_node_name r) (boot_image_by_node (dp_images d))"
    "dget (dp_placements d) (vs_key vm) = Some (vr_node_name r)"
proof -
  from assms(2) obtain i where "i < length (dp_vms d)" "r = dp_vms d ! i" by (auto simp: in_set_conv_nth)
  with assms(1) have "vms ! i \<in> set vms" "registered st d (vms ! i) r" by (auto simp: list_all2_conv_all_nth)
  then obtain vm where vm: "vm \<in> set vms" "registered st d vm r" by blast
  then have r: "r = create_vm vm (ls_common (dp_settings d)) (Some (vr_node_name r)) (boot_image_by_node (dp_images d))
      (lab_deps st (dp_settings d))"
    and node: "dget (dp_placements d) (vs_key vm) = Some (vr_node_name r)"
    by (simp_all add: registered_def)
  have "vr_resource_name r = vs_key vm" "vr_vm_id r = vs_vm_id vm" "vr_clone r = clone_of (ls_common (dp_settings d))"
    "vr_depends_on r = lab_deps st (dp_settings d)"
    "vr_disks r = disk_args_of (ls_common (dp_settings d)) (vs_disks_gb vm) (vr_node_name r) (boot_image_by_node (dp_images d))"
    by (subst r, simp only: created_node)+
  then show thesis by (rule that [OF vm _ _ _ _ _ node])
qed

text \<open>What a VM on a configured node boots from.\<close>

lemma boots_from:
  assumes node: "vr_node_name r \<in> set (ls_node_names ls)" and images: "images = boot_images st ls"
    and r: "vr_clone r = clone_of (ls_common ls)" "vr_depends_on r = lab_deps st ls"
      "vr_disks r = disk_args_of (ls_common ls) sizes (vr_node_name r) (boot_image_by_node images)"
  shows "case vr_clone r of Some c \<Rightarrow> list_all (\<lambda>a. da_import_from a = None) (vr_disks r)
    | None \<Rightarrow> \<exists>im \<in> set images. im_node_name im = vr_node_name r \<and> im_resource_name im \<in> set (vr_depends_on r)
        \<and> map da_import_from (vr_disks r) =
            map (\<lambda>i. if i = 0 then Some (im_resource_name im) else None) [0..<length (vr_disks r)]"
proof (cases "vc_template_vm_id (ls_common ls)")
  case (Some t)
  have "list_all (\<lambda>a. da_import_from a = None) (vr_disks r)"
    unfolding r(3) disk_args_of_def disk_arg_def by (simp add: Some list_all_iff split_beta)
  then show ?thesis by (simp add: r(1) clone_of_def Some)
next
  case None
  let ?im = "boot_image st ls (vr_node_name r)"
  have im: "?im \<in> set images" "im_node_name ?im = vr_node_name r"
    "im_resource_name ?im = ''ubuntu2404-cloud-image-'' @ vr_node_name r"
    using node None by (simp_all add: images boot_images_def boot_image_def Let_def)
  moreover have "im_resource_name ?im \<in> set (vr_depends_on r)"
    using im(1) unfolding r(2) images by auto
  moreover have "map da_import_from (vr_disks r) =
      map (\<lambda>i. if i = 0 then Some (im_resource_name ?im) else None) [0..<length (vr_disks r)]"
    unfolding r(3) im(3) images
    by (rule nth_equalityI) (simp_all add: disk_args_nth disk_arg_def None node_image_boot [OF None] node)
  ultimately show ?thesis by (auto simp: r(1) clone_of_def None)
qed

text \<open>
  C9: A VM that is neither pinned by an override nor in the placement record goes to one of the
  configured nodes, and without a template its first disk, and no other, imports the boot image that
  this run downloads to that very node, on which the VM also depends.
\<close>

theorem fresh_vm_boots:
  assumes run: "lab_program P st w = (Inr d, w')" and vm: "r \<in> set (dp_vms d)"
    and "load_result (record_path_of st) (files w (record_path_of st)) = Inr rec"
    and "cf_string_map (deployment_cfg st) ''placementOverrides'' = Inr overrides"
    and fresh: "dget (or_default overrides []) (vr_resource_name r) = None"
      "dget (placements rec) (vr_resource_name r) = None"
  shows "vr_node_name r \<in> set (ls_node_names (dp_settings d))
     \<and> (case vr_clone r of Some c \<Rightarrow> list_all (\<lambda>a. da_import_from a = None) (vr_disks r)
        | None \<Rightarrow> \<exists>im \<in> set (dp_images d). im_node_name im = vr_node_name r \<and> im_resource_name im \<in> set (vr_depends_on r)
            \<and> map da_import_from (vr_disks r) =
                map (\<lambda>i. if i = 0 then Some (im_resource_name im) else None) [0..<length (vr_disks r)])"
proof -
  obtain ls selected vms overrides' w1 where 1:
    "read_settings P st = Inr ls" "cf_strings (deployment_cfg st) ''selectedVmKeys'' = Inr selected"
    "select_vms (ls_phase_limit ls) selected (lab_specs ls) = Inr vms"
    "cf_string_map (deployment_cfg st) ''placementOverrides'' = Inr overrides'"
    "lab_placement P st ls vms overrides' w = (Inr (dp_placements d), w1)"
    "dp_settings d = ls" "dp_images d = boot_images st ls"
    "list_all2 (registered st d) vms (dp_vms d)"
    by (rule vms_registered [OF run])
  have ov: "overrides' = overrides" using 1(4) assms(4) by simp
  note sel = select_vms_sub [OF 1(3)]
  obtain vm where vm: "vm \<in> set vms" "vr_resource_name r = vs_key vm" "vr_clone r = clone_of (ls_common ls)"
    "vr_depends_on r = lab_deps st ls" "dget (dp_placements d) (vs_key vm) = Some (vr_node_name r)"
    "vr_disks r = disk_args_of (ls_common ls) (vs_disks_gb vm) (vr_node_name r) (boot_image_by_node (dp_images d))"
    by (rule registered_vm [OF 1(8) vm, unfolded 1(6)])
  obtain rec' caps ps where rec': "load_result (record_path_of st) (files w (record_path_of st)) = Inr rec'"
    and caps: "set (dkeys caps) \<subseteq> set (ls_node_names ls)"
    and plan: "decide_placement (vm_ram_disk vms) caps (placements rec') (overrides_of (Some (or_default overrides []))) =
      Inr (dp_placements d, ps)"
    by (rule plan_placement_nodes [OF 1(5) settings_nodes [OF 1(1)], unfolded ov])
  have "rec' = rec" using rec' assms(3) by simp
  then have free: "dget (overrides_of (Some (or_default overrides []))) (vs_key vm) = None" "dget (placements rec') (vs_key vm) = None"
    using fresh vm(2) by (simp_all add: overrides_of_def)
  have "vs_key vm \<in> set (dkeys (vm_ram_disk vms))" using vm(1) vm_ram_disk_keys(2) [OF sel(2)] by simp
  from plan_priority_facts [OF plan vm_ram_disk_keys(1) [OF sel(2)] this] free vm(5) caps
  have local: "vr_node_name r \<in> set (ls_node_names ls)" by auto
  with boots_from [OF local 1(7) vm(3,4,6)] show ?thesis by (simp only: 1(6))
qed

section \<open>A preview\<close>

text \<open>
  C8: A preview changes nothing. The program only reads the cluster and prints, writes no file and
  starts no session, whatever happens; and the callback, should it run, ends without an error after
  printing that both of its parts were skipped.
\<close>

theorem lab_preview:
  assumes "p_dry_run P"
  shows "files (snd (lab_program P st w)) = files w
     \<and> (\<exists>es. trace (snd (lab_program P st w)) = trace w @ es \<and> list_all is_read es)
     \<and> post_create_sdn P s fdb w2 = Some (Inr (), w2\<lparr>trace := trace w2 @
          [EPrint True ''pve-sdn-apply: skipped (dry run / preview)'', EPrint True ''sdn-fdb: skipped (dry run / preview)'']\<rparr>)"
proof -
  have plan: "only is_read (plan_placement P ep us pw ins vms path ov cn False)" for ep us pw ins vms path ov cn
    unfolding plan_placement_def persist_record_def Let_def by (intro only_intros) simp_all
  have "only is_read (lab_program P st)"
    unfolding lab_program_def preflight_def Let_def using assms
    by (intro only_intros) (simp_all add: plan split_beta only_intros)
  from only_files_io [OF this surjective_pairing, of w] only_trace [OF this surjective_pairing, of w]
  have "files (snd (lab_program P st w)) = files w \<and> (\<exists>es. trace (snd (lab_program P st w)) = trace w @ es \<and> list_all is_read es)"
    by (auto simp: list_all_iff)
  moreover have "post_create_sdn P s fdb w2 = Some (Inr (), w2\<lparr>trace := trace w2 @
      [EPrint True ''pve-sdn-apply: skipped (dry run / preview)'', EPrint True ''sdn-fdb: skipped (dry run / preview)'']\<rparr>)"
    using assms by (simp add: post_create_sdn_def apply_sdn_def overlay_after_create_def ensure_sdn_fdb_def io_eval del: io_run_simps)
  ultimately show ?thesis by blast
qed


section \<open>The overlay and the estate\<close>


text \<open>
  The order of the callback: the callback installs the overlay only after the SDN apply succeeded: when the apply
  raises, the callback raises the same exception and nothing follows it, and when the apply does not
  return, nor does the callback. A \<open>RuntimeError\<close> of the overlay is reported and does not fail the
  callback.
\<close>

theorem overlay_follows_apply:
  "case apply_sdn P (sd_endpoint s) (sd_username s) (sd_password s) (sd_insecure s) w of
     None \<Rightarrow> post_create_sdn P s fdb w = None
   | Some (Inl e, w1) \<Rightarrow> post_create_sdn P s fdb w = Some (Inl e, w1)
   | Some (Inr _, w1) \<Rightarrow>
       (case ensure_sdn_fdb P fdb (p_dry_run P) w1 of
          (Inr out, w2) \<Rightarrow> post_create_sdn P s fdb w = Some (Inr (), w2\<lparr>trace := trace w2 @ map (EPrint True) out\<rparr>)
        | (Inl e, w2) \<Rightarrow>
            if isa (exn_kind e) RuntimeError
            then post_create_sdn P s fdb w = Some (Inr (), w2\<lparr>trace := trace w2 @
              [EPrint True (''[sdn_fdb] durable overlay apply skipped: '' @ exn_msg e)]\<rparr>)
            else post_create_sdn P s fdb w = Some (Inl e, w2))"
proof -
  have prints: "io_map print_err out w = (Inr (map (\<lambda>_. ()) out), w\<lparr>trace := trace w @ map (EPrint True) out\<rparr>)"
    for out and w :: "'a world"
    by (induction out arbitrary: w) (simp_all add: io_eval del: io_run_simps)
  show ?thesis
    by (auto simp: post_create_sdn_def overlay_after_create_def io_eval prints list_ex_iff
        simp del: io_run_simps split: option.splits prod.splits sum.splits)
qed


section \<open>The properties at work\<close>

text \<open>A preview of one VM on a one-node cluster with plenty of room.\<close>

definition lab_reply :: "http_request \<Rightarrow> json" where
  "lab_reply r =
     (if req_url r = ''https://h/api2/json/access/ticket''
      then JObj [(''data'', JObj [(''ticket'', JStr ''T'')])]
      else if req_url r = ''https://h/api2/json/nodes/pve01/status''
      then JObj [(''data'', JObj [(''memory'', JObj [(''available'', JInt 100000000000)])])]
      else JObj [(''data'', JList [JObj [(''active'', JInt 1), (''content'', JStr ''images''),
                                       (''avail'', JInt 1000000000000)]])])"

definition demo_config :: "(string \<times> string) list \<Rightarrow> (string \<times> string list) list \<Rightarrow> stack_config" where
  "demo_config texts lsts =
     \<lparr>cf_get = map_of texts, cf_int = \<lambda>_. Inr None, cf_bool = \<lambda>_. Inr None, cf_strings = \<lambda>k. Inr (map_of lsts k),
      cf_string_map = \<lambda>_. Inr None, cf_secret = \<lambda>_. None\<rparr>"

definition demo_stack :: lab_stack where
  "demo_stack =
     \<lparr>proxmox_cfg = demo_config [(''endpoint'', ''h''), (''username'', ''root@pam''), (''password'', ''pw'')] [],
      deployment_cfg = demo_config [(''vmSshPublicKey'', ''k''), (''placementRecordPath'', ''/r'')]
        [(''nodeNames'', [''pve01'']), (''selectedVmKeys'', [''core01''])],
      program_dir = ''/p''\<rparr>"

abbreviation lab_demo :: "unit platform" where
  "lab_demo \<equiv> scripted lab_reply [] True"

lemma demo_settings:
  "\<exists>ls. read_settings lab_demo demo_stack = Inr ls \<and> ls_node_names ls = [''pve01''] \<and> ls_phase_limit ls = 2
     \<and> ps_endpoint (ls_provider ls) = ''h'' \<and> ps_username (ls_provider ls) = ''root@pam''
     \<and> ps_password (ls_provider ls) = ''pw'' \<and> ps_insecure (ls_provider ls)
     \<and> vc_template_vm_id (ls_common ls) = None"
  by (simp add: read_settings_def demo_stack_def demo_config_def read_provider_settings_def read_common_settings_def
      read_sdn_settings_def get_required_value_def get_bool_value_def or_default_def or_int_def scripted_def Let_def)

lemma demo_vm_store: "vm_store (JObj [(''active'', JInt 1), (''content'', JStr ''images''), (''avail'', JInt 1000000000000)])"
  by code_simp

lemma lab_auth:
  "\<exists>es. usage_auth (scripted lab_reply out d) (demo_client t) w = (Inr (demo_client (JStr ''T'')), w\<lparr>trace := es\<rparr>)"
  by (simp add: usage_auth_def usage_request_def lab_reply_def io_eval payload_data_or_empty_def dget_or_def
      demo_client_def del: io_run_simps, rule exI, rule refl)

lemma lab_capacity:
  "\<exists>es. read_node_capacity (scripted lab_reply out d) (demo_client t) ''pve01'' w =
     (Inr \<lparr>cap_name = ''pve01'', free_ram_bytes = 100000000000, free_disk_bytes = 1000000000000\<rparr>, w\<lparr>trace := es\<rparr>)"
  by (simp add: read_node_capacity_def usage_request_def lab_reply_def io_eval free_ram_of_def
      free_disk_of_def payload_entries_def payload_data_or_empty_def dget_or_def add_store_def demo_vm_store
      demo_client_def del: io_run_simps; rule exI; rule refl)

lemma demo_placement:
  "\<exists>es. plan_placement lab_demo ''h'' ''root@pam'' ''pw'' True [(''core01'', fp)] ''/r'' (Some []) (Some [''pve01'']) False blank =
     (Inr [(''core01'', ''pve01'')], blank\<lparr>trace := es\<rparr>)"
  if fp: "fp = (6442450944, 141733920768)"
proof -
  obtain e1 where 1: "usage_auth lab_demo (demo_client (JStr [])) blank = (Inr (demo_client (JStr ''T'')), blank\<lparr>trace := e1\<rparr>)"
    using lab_auth by blast
  obtain e2 where 2: "read_node_capacity lab_demo (demo_client (JStr ''T'')) ''pve01'' (blank\<lparr>trace := e1\<rparr>) =
      (Inr \<lparr>cap_name = ''pve01'', free_ram_bytes = 100000000000, free_disk_bytes = 1000000000000\<rparr>, blank\<lparr>trace := e2\<rparr>)"
    using lab_capacity [of "[]" True "JStr ''T''" "blank\<lparr>trace := e1\<rparr>"] by auto
  have dec: "decide_placement [(''core01'', fp)]
      [(''pve01'', \<lparr>cap_name = ''pve01'', free_ram_bytes = 100000000000, free_disk_bytes = 1000000000000\<rparr>)] [] [] =
      Inr ([(''core01'', ''pve01'')], [(''core01'', ''pve01'')])"
    and fresh: "fresh_keys [(''core01'', fp)] [] [] = [''core01'']"
    unfolding fp by code_simp+
  have client: "usage_client_init ''h'' ''root@pam'' ''pw'' True = Inr (demo_client (JStr []))"
    by (simp add: usage_client_init_def demo_host demo_client_def)
  show ?thesis
    by (simp add: plan_placement_def load_record_run load_result_def io_eval client 1 2
        candidate_nodes_of_def read_capacities_def dict_of_def dset_def dec fresh persist_record_def
        report_fresh_def del: io_run_simps) (rule exI, rule refl)
qed

lemma demo_selection:
  "\<exists>vm. select_vms 2 (Some [''core01'']) (build_vm_specs external internal) = Inr [vm] \<and> vs_key vm = ''core01''
     \<and> vm_footprint_bytes vm = (6442450944, 141733920768)"
  by (simp add: select_vms_def build_vm_specs_def or_default_def vm_footprint_bytes_def Let_def)

lemma demo_run:
  "\<exists>d w' r. lab_program lab_demo demo_stack blank = (Inr d, w') \<and> dp_vms d = [r] \<and> vr_resource_name r = ''core01''
     \<and> vr_clone r = None"
proof -
  obtain ls where ls: "read_settings lab_demo demo_stack = Inr ls" "ls_node_names ls = [''pve01'']" "ls_phase_limit ls = 2"
    "ps_endpoint (ls_provider ls) = ''h''" "ps_username (ls_provider ls) = ''root@pam''"
    "ps_password (ls_provider ls) = ''pw''" "ps_insecure (ls_provider ls)" "vc_template_vm_id (ls_common ls) = None"
    using demo_settings by (elim exE conjE) (rule that)
  obtain vm where vm: "select_vms 2 (Some [''core01'']) (lab_specs ls) = Inr [vm]" "vs_key vm = ''core01''"
    "vm_footprint_bytes vm = (6442450944, 141733920768)"
    using demo_selection [of "ls_external_bridge ls" "sd_vnet_id (ls_sdn ls)"] by blast
  obtain es where plan: "plan_placement lab_demo ''h'' ''root@pam'' ''pw'' True [(''core01'', (6442450944, 141733920768))]
      ''/r'' (Some []) (Some [''pve01'']) False blank = (Inr [(''core01'', ''pve01'')], blank\<lparr>trace := es\<rparr>)"
    using demo_placement [OF refl] by blast
  have cfg: "cf_strings (deployment_cfg demo_stack) ''selectedVmKeys'' = Inr (Some [''core01''])"
    "cf_string_map (deployment_cfg demo_stack) ''placementOverrides'' = Inr None" "record_path_of demo_stack = ''/r''"
    by (simp_all add: demo_stack_def demo_config_def record_path_of_def or_default_def)
  have dry: "p_dry_run lab_demo" by (simp add: scripted_def)
  have disk: "vm_ram_disk [vm] = [(''core01'', (6442450944, 141733920768))]"
    by (simp add: vm_ram_disk_def vm dict_of_def dset_def)
  obtain zone vnet where lan: "build_internal_lan (ls_sdn ls) = (zone, vnet)" by fastforce
  show ?thesis
    unfolding lab_program_def ls(1) io_bind_simps Let_def lan prod.case
    by (simp add: cfg ls(2-7) vm(1) disk dry or_default_def io_bind_def plan preflight_def io_then_def io_run_eqs
        vm_on_node_def vm(2) created_node clone_of_def ls(8) del: io_run_simps)
qed

lemma vms_registered_exact_witness:
  "\<exists>d w'. lab_program lab_demo demo_stack blank = (Inr d, w') \<and> set (dkeys (dp_placements d)) = {''core01''}"
proof -
  obtain d w' r where run: "lab_program lab_demo demo_stack blank = (Inr d, w')" "dp_vms d = [r]" "vr_resource_name r = ''core01''"
    using demo_run by blast
  from vms_registered_exact [OF run(1)] have "set (dkeys (dp_placements d)) = vr_resource_name ` set (dp_vms d)" by blast
  with run show ?thesis by simp
qed

lemma fresh_vm_boots_witness:
  "\<exists>d w' r im. lab_program lab_demo demo_stack blank = (Inr d, w') \<and> dp_vms d = [r] \<and> im \<in> set (dp_images d)
     \<and> im_node_name im = vr_node_name r \<and> im_resource_name im \<in> set (vr_depends_on r)"
proof -
  obtain d w' r where run: "lab_program lab_demo demo_stack blank = (Inr d, w')" "dp_vms d = [r]"
    "vr_resource_name r = ''core01''" "vr_clone r = None"
    using demo_run by blast
  have rec: "load_result (record_path_of demo_stack) (files blank (record_path_of demo_stack)) =
      Inr \<lparr>rec_path = record_path_of demo_stack, placements = []\<rparr>"
    by (simp add: load_result_def)
  have cfg: "cf_string_map (deployment_cfg demo_stack) ''placementOverrides'' = Inr None"
    by (simp add: demo_stack_def demo_config_def)
  from fresh_vm_boots [OF run(1) _ rec cfg, of r] obtain im where "im \<in> set (dp_images d)" "im_node_name im = vr_node_name r"
    "im_resource_name im \<in> set (vr_depends_on r)"
    using run(2,4) by (auto simp: or_default_def)
  with run show ?thesis by blast
qed

lemma lab_preview_witness:
  "files (snd (lab_program lab_demo demo_stack blank)) = files blank"
  using lab_preview [of lab_demo demo_stack blank] by (simp add: scripted_def)

end
