(* ===== verification/Lab_History.thy ===== *)
theory Lab_History
  imports Lab_Program
begin

text \<open>
  The program over its lifetime. One run of \<open>pulumi up\<close> is not the end: previews, further runs with other
  settings, failed runs, the callback after a run, the two command line entries and everything other
  people do to the cluster follow one another. A step relation collects them, and what holds of the
  placement record and of the nodes of the VMs in every state that can be reached is shown by rule
  induction: a VM that was placed never moves.
\<close>

section \<open>Code that leaves the files alone\<close>

text \<open>Everything but the placement leaves every file of the operator's machine as it was.\<close>

lemma not_write_simps [simp]:
  "not_write (EHttp rq out)" "not_write (EPrint b s)" "not_write (ESpawn argv)" "not_write (ESendline s)"
  "not_write EClose" "not_write (ESleep n)" "not_write (EMkdirParents p)" "\<not> not_write (EWrite p s)"
  by (simp_all add: not_write_def)

lemma reads_keep: "only is_read m \<Longrightarrow> only not_write m"
  by (erule only_weaken) (rule is_read_not_write)

lemma poll_task_keeps [only_intros]: "only not_write (poll_task n P c ticket upid node)"
  unfolding pve_request_def by (induction n) (auto simp: pve_request_def intro!: only_intros split: option.split)

lemma apply_node_keeps: "only not_write (apply_node P c ticket csrf os)"
proof -
  have ssh: "only not_write (ssh_session P argv t password)" for argv t password
    by (rule only_weaken [OF only_ssh_session]) (rule session_event_not_write)
  have "only not_write (host_fallback P (pc_settings c) ks errs)" for ks errs
    by (rule only_weaken [OF only_host_fallback]) (auto simp: fallback_event_def intro: session_event_not_write)
  moreover have "only not_write (delete_all P c ticket csrf os)"
    unfolding delete_all_def delete_content_def wait_task_def pve_request_def Let_def
    by (intro only_intros) (auto intro!: only_intros simp: split_beta)
  ultimately show ?thesis
    unfolding apply_node_def Let_def by (intro only_intros) simp_all
qed

lemma clean_orphans_keeps [only_intros]: "only not_write (clean_orphans P s a)"
proof -
  have "only not_write (if a then apply_node P c ticket csrf os else ret [])" for c ticket csrf os
    by (simp add: apply_node_keeps only_intros)
  then show ?thesis
    unfolding clean_orphans_def clean_node_def
    by (intro only_intros reads_keep [OF only_find_orphans] reads_keep [OF only_pve_auth]) auto
qed


lemma ensure_sdn_fdb_keeps [only_intros]: "only not_write (ensure_sdn_fdb P s dry)"
proof -
  have session: "only not_write (ssh_session P argv t password)" for argv t password
    by (rule only_weaken [OF only_ssh_session]) (rule session_event_not_write)
  have ssh: "only not_write (host_ssh P s node script)" for node script
    unfolding host_ssh_def Let_def by (intro only_intros session)
  have node: "only not_write (install_node P s node macs)" for node macs
    unfolding install_node_def verify_node_def Let_def by (intro only_intros ssh)
  have macs: "only not_write (discover_sdn_macs P c ticket s)" for c ticket
    unfolding discover_sdn_macs_def node_macs_def node_vm_mac_def node_vmids_def pve_request_def
    by (intro only_intros) (auto intro!: only_intros simp: split_beta)
  show ?thesis
    unfolding ensure_sdn_fdb_def by (intro only_intros node macs reads_keep [OF only_pve_auth])
qed

lemma apply_poll_keeps:
  assumes "apply_poll P insecure base ticket upid deadline w = Some y"
  shows "files (snd y) = files w"
proof (rule apply_poll.raw_induct [where Pa = "\<lambda>((((((P, insecure), base), ticket), upid), deadline), w) y.
      files (snd y) = files w", OF _ assms, unfolded prod.case], goal_cases)
  case (1 loop P insecure base ticket upid deadline w y)
  note IH = 1(1) and run = 1(2)
  obtain v w1 where v: "poll_once P insecure base ticket upid w = (v, w1)"
    by (cases "poll_once P insecure base ticket upid w")
  have "only not_write (poll_once P insecure base ticket upid)"
    unfolding poll_once_def sdn_request_def by (intro only_intros) (simp add: split_beta only_intros)
  from only_files [OF this v] have w1: "files w1 = files w" .
  show ?case
    using run v IH w1 by (auto simp: sleep_def emit_def split: if_splits sum.splits)
qed

lemma post_create_keeps:
  assumes "post_create_sdn P s fdb w = Some (r, w')"
  shows "files w' = files w"
proof -
  have start: "only not_write (start_apply P insecure base us pw)" for insecure base us pw
    unfolding start_apply_def sdn_ticket_def sdn_request_def by (intro only_intros) (auto intro!: only_intros simp: split_beta)
  have applied: "files w1 = files w" if "apply_sdn P ep us pw insecure w = Some (x, w1)" for ep us pw insecure x w1
    using that apply_poll_keeps
    by (fastforce simp: apply_sdn_def apply_once_def print_err_def emit_def Let_def
        dest: only_files [OF start] split: if_splits option.splits sum.splits prod.splits)
  have overlay: "only not_write (overlay_after_create P fdb)"
    unfolding overlay_after_create_def by (intro only_intros) simp_all
  from assms show ?thesis
    using applied only_files [OF overlay] by (fastforce simp: post_create_sdn_def split: option.splits sum.splits)
qed

section \<open>One step\<close>

lemma io_bind_files:
  assumes "only not_write m" and "io_bind m k w = (r, w')"
  shows "files w' = files w \<or> (\<exists>x w1. m w = (Inr x, w1) \<and> files w1 = files w \<and> k x w1 = (r, w'))"
  using assms only_files by (fastforce simp: io_bind_def split: prod.splits sum.splits)

lemma save_record_files:
  "save_record P rec w = (r, w') \<Longrightarrow>
     files w' = files w \<or> files w' = (files w)(rec_path rec \<mapsto> Text (record_text (placements rec)))"
  by (auto simp: save_record_def io_then_def io_bind_def mkdir_parents_def write_file_def emit_def split: option.splits)

lemma plan_placement_files:
  assumes "plan_placement P ep us pw ins vms path ov cn persist w = (r, w')"
  shows "files w' = files w
     \<or> (\<exists>rec caps ch ps. load_result path (files w path) = Inr rec
          \<and> decide_placement vms caps (placements rec) (overrides_of ov) = Inr (ch, ps)
          \<and> files w' = (files w)(path \<mapsto> Text (record_text ps)))"
proof (rule ccontr)
  assume no: "\<not> ?thesis"
  let ?ov = "overrides_of ov"
  note keep = reads_keep [OF only_candidate_nodes] reads_keep [OF only_read_capacities]
  from assms no obtain rec client0 where rec: "load_result path (files w path) = Inr rec"
    and more: "io_bind (candidate_nodes_of P client0 cn) (\<lambda>(client, nodes).
      if nodes = [] then raise (Exn RuntimeError ''no candidate PVE nodes available for placement'')
      else io_bind (read_capacities P client nodes) (\<lambda>caps.
        io_bind (lift (decide_placement vms caps (placements rec) ?ov)) (\<lambda>(ch, ps).
        io_then (persist_record P persist (fresh_keys vms ?ov (placements rec)) (rec\<lparr>placements := ps\<rparr>))
          (io_then (report_fresh ch (fresh_keys vms ?ov (placements rec))) (ret ch))))) w = (r, w')"
    unfolding plan_placement_def overrides_of_def [symmetric] Let_def
    by (auto simp: io_bind_def [of "load_record path"] load_record_run io_bind_def [of "lift _"] lift_def split: sum.splits)
  from io_bind_files [OF keep(1) more] no obtain client nodes w1 where w1: "files w1 = files w"
    and more: "io_bind (read_capacities P client nodes) (\<lambda>caps.
        io_bind (lift (decide_placement vms caps (placements rec) ?ov)) (\<lambda>(ch, ps).
        io_then (persist_record P persist (fresh_keys vms ?ov (placements rec)) (rec\<lparr>placements := ps\<rparr>))
          (io_then (report_fresh ch (fresh_keys vms ?ov (placements rec))) (ret ch)))) w1 = (r, w')"
    by (auto split: if_splits)
  from io_bind_files [OF keep(2) more] no w1 obtain caps w2 where w2: "files w2 = files w"
    and more: "io_bind (lift (decide_placement vms caps (placements rec) ?ov)) (\<lambda>(ch, ps).
        io_then (persist_record P persist (fresh_keys vms ?ov (placements rec)) (rec\<lparr>placements := ps\<rparr>))
          (io_then (report_fresh ch (fresh_keys vms ?ov (placements rec))) (ret ch))) w2 = (r, w')"
    by auto
  obtain ch ps where plan: "decide_placement vms caps (placements rec) ?ov = Inr (ch, ps)"
  proof (cases "decide_placement vms caps (placements rec) ?ov")
    case (Inl e)
    then show thesis using more no w2 by simp
  qed (use that in auto)
  with more have more: "io_then (persist_record P persist (fresh_keys vms ?ov (placements rec)) (rec\<lparr>placements := ps\<rparr>))
          (io_then (report_fresh ch (fresh_keys vms ?ov (placements rec))) (ret ch)) w2 = (r, w')"
    by simp
  obtain u w3 where save: "persist_record P persist (fresh_keys vms ?ov (placements rec)) (rec\<lparr>placements := ps\<rparr>) w2 = (u, w3)"
    by fastforce
  have "rec_path rec = path" using load_result_Inr [OF rec] by simp
  then have w3: "files w3 = files w \<or> files w3 = (files w)(path \<mapsto> Text (record_text ps))"
    using save save_record_files [of P "rec\<lparr>placements := ps\<rparr>" w2 u w3] w2 by (auto simp: persist_record_def split: if_splits)
  have "only not_write (io_then (report_fresh ch (fresh_keys vms ?ov (placements rec))) (ret ch))"
    by (intro only_intros reads_keep [OF only_report])
  from only_files [OF this] have "files w' = files w3"
    using more save by (auto simp: io_then_def [of "persist_record _ _ _ _"] io_bind_def [of "persist_record _ _ _ _"] split: sum.splits)
  with w3 rec plan no show False by metis
qed


lemma io_bind_keeps:
  assumes "io_bind m k w = (r, w')" and "\<And>x. only not_write (k x)"
  shows "\<exists>r1 w1. m w = (r1, w1) \<and> files w' = files w1"
  using assms only_files by (fastforce simp: io_bind_def split: prod.splits sum.splits)

text \<open>What one run of the program does to the files, however it ends: at most one save of the record.\<close>

lemma lab_program_files:
  assumes "lab_program P st w = (r, w')"
  shows "files w' = files w
     \<or> (\<exists>rec vms caps ov ch ps. load_result (record_path_of st) (files w (record_path_of st)) = Inr rec \<and> dict_wf vms
          \<and> decide_placement vms caps (placements rec) ov = Inr (ch, ps)
          \<and> files w' = (files w)(record_path_of st \<mapsto> Text (record_text ps)))"
proof (cases "read_settings P st")
  case (Inr ls)
  obtain zone vnet where lan: "build_internal_lan (ls_sdn ls) = (zone, vnet)" by fastforce
  note run = assms [unfolded lab_program_def Inr io_bind_simps Let_def lan prod.case]
  show ?thesis
  proof (cases "cf_strings (deployment_cfg st) ''selectedVmKeys''")
    case selected: (Inr selected)
    show ?thesis
    proof (cases "select_vms (ls_phase_limit ls) selected (lab_specs ls)")
      case vms: (Inr vms)
      show ?thesis
      proof (cases "cf_string_map (deployment_cfg st) ''placementOverrides''")
        case ov: (Inr overrides)
        have "only not_write (preflight P l)" for l
          unfolding preflight_def by (intro only_intros) simp_all
        with run [unfolded selected io_bind_simps vms ov] obtain r1 w1 where
          "lab_placement P st ls vms overrides w = (r1, w1)" "files w' = files w1"
          by (elim io_bind_keeps [elim_format]) (auto intro!: only_intros)
        moreover have "dict_wf (vm_ram_disk vms)" using select_vms_sub(2) [OF vms] by (rule vm_ram_disk_keys)
        ultimately show ?thesis using plan_placement_files by metis
      qed (use run selected vms in \<open>simp add: raise_def\<close>)
    qed (use run selected in \<open>simp add: raise_def\<close>)
  qed (use run in \<open>simp add: raise_def\<close>)
qed (use assms in \<open>simp add: lab_program_def raise_def\<close>)

text \<open>A plan adds to the record; it never drops or changes an entry.\<close>

lemma decide_grows:
  assumes "decide_placement vms caps rc ov = Inr (ch, ps)" and "dict_wf vms" and "dget rc k = Some n"
  shows "dget ps k = Some n"
proof -
  have "plan (placement_requests vms ov rc) caps rc ov = Inr (ch, ps)" using assms(1) by (simp add: decide_placement_def)
  from plan_recorded [OF this distinct_request_keys [OF assms(2)], of k] assms(3) show ?thesis
    by (auto simp: fresh_in_def)
qed

text \<open>What the record file says, if it can be loaded.\<close>

definition on_record :: "string \<Rightarrow> 'w world \<Rightarrow> (string \<rightharpoonup> string) option" where
  "on_record path w =
     (case load_result path (files w path) of Inl _ \<Rightarrow> None | Inr rec \<Rightarrow> Some (dget (placements rec)))"

lemma on_record_cong: "files w path = files w' path \<Longrightarrow> on_record path w = on_record path w'"
  by (simp add: on_record_def)

lemma on_record_saved:
  assumes "dict_wf ps" and "files w path = Some (Text (record_text ps))"
  shows "on_record path w = Some (dget ps)"
  using record_roundtrip_facts [OF assms(1), of path] assms(2) by (auto simp: on_record_def fun_eq_iff)


section \<open>Histories\<close>

text \<open>
  A store that is shared by all that happens: what every step must respect, and what then holds of every
  history.
\<close>

locale growing_store =
  fixes step :: "'s \<Rightarrow> 's \<Rightarrow> bool" and view :: "'s \<Rightarrow> ('k \<rightharpoonup> 'v) option"
  assumes grows: "step s t \<Longrightarrow> view s = Some m \<Longrightarrow> \<exists>m'. view t = Some m' \<and> m \<subseteq>\<^sub>m m'"
begin

lemma history:
  assumes "step\<^sup>*\<^sup>* s t" and "view s = Some m"
  shows "\<exists>m'. view t = Some m' \<and> m \<subseteq>\<^sub>m m'"
  using assms
proof (induction rule: rtranclp_induct)
  case (step t u)
  then obtain m1 where "view t = Some m1" "m \<subseteq>\<^sub>m m1" by blast
  with grows [OF step.hyps(2)] show ?case using map_le_trans by blast
qed auto

lemma kept: "step\<^sup>*\<^sup>* s t \<Longrightarrow> view s = Some m \<Longrightarrow> m k = Some v \<Longrightarrow> \<exists>m'. view t = Some m' \<and> m' k = Some v"
  by (drule (1) history) (auto simp: map_le_def dom_def)

end

text \<open>
  One step in the life of a placement record: a run of the program with any settings on any cluster,
  real or a preview, however it ends; its callback; the two command line entries; and whatever else happens, as
  long as it leaves the record file alone.
\<close>

inductive lab_step :: "string \<Rightarrow> 'w world \<Rightarrow> 'w world \<Rightarrow> bool" for path where
  Run: "lab_program P st w = (r, w') \<Longrightarrow> lab_step path w w'"
| Callback: "post_create_sdn P s fdb w = Some (r, w') \<Longrightarrow> lab_step path w w'"
| Cleanup: "cleanup_standalone P argv w = (r, w') \<Longrightarrow> lab_step path w w'"
| Overlay: "fdb_standalone P argv w = (r, w') \<Longrightarrow> lab_step path w w'"
| Elsewhere: "files w' path = files w path \<Longrightarrow> lab_step path w w'"

lemma cleanup_standalone_keeps: "only not_write (cleanup_standalone P argv)"
  unfolding cleanup_standalone_def Let_def by (intro only_intros) simp_all

lemma fdb_standalone_keeps: "only not_write (fdb_standalone P argv)"
  unfolding fdb_standalone_def Let_def by (intro only_intros) simp_all

lemma lab_step_grows:
  assumes "lab_step path w w'" and "on_record path w = Some m"
  shows "\<exists>m'. on_record path w' = Some m' \<and> m \<subseteq>\<^sub>m m'"
proof -
  have same: ?thesis if "files w' path = files w path"
    using assms(2) on_record_cong [OF that] by auto
  from assms(1) show ?thesis
  proof cases
    case (Run P st r)
    show ?thesis
    proof (cases "files w' path = files w path")
      case False
      with lab_program_files [OF Run] obtain rec vms caps ov ch ps where
        rec: "load_result path (files w path) = Inr rec" "dict_wf vms" and
        plan: "decide_placement vms caps (placements rec) ov = Inr (ch, ps)" and
        saved: "files w' path = Some (Text (record_text ps))"
        by (metis fun_upd_apply)
      have "on_record path w' = Some (dget ps)"
        using on_record_saved [OF decide_dict_wf [OF plan rec(2)] saved] load_result_Inr [OF rec(1)] by simp
      moreover have "m = dget (placements rec)" using assms(2) rec(1) by (simp add: on_record_def)
      ultimately show ?thesis using decide_grows [OF plan rec(2)] by (auto simp: map_le_def dom_def)
    qed (rule same)
  next
    case (Callback P s fdb r)
    then show ?thesis using post_create_keeps same by metis
  next
    case (Cleanup P argv r)
    then show ?thesis using only_files [OF cleanup_standalone_keeps Cleanup] same by simp
  next
    case (Overlay P argv r)
    then show ?thesis using only_files [OF fdb_standalone_keeps Overlay] same by simp
  qed (rule same)
qed

interpretation lab: growing_store "lab_step path" "on_record path" for path :: string
  by unfold_locales (rule lab_step_grows)

section \<open>The record and the nodes over a history\<close>


text \<open>What a real run leaves on record, and what a run finds there.\<close>

definition overridden :: "lab_stack \<Rightarrow> string \<Rightarrow> bool" where
  "overridden st k \<longleftrightarrow>
     (case cf_string_map (deployment_cfg st) ''placementOverrides'' of
        Inl _ \<Rightarrow> False | Inr ov \<Rightarrow> dget (or_default ov []) k \<noteq> None)"

lemma run_placed:
  assumes run: "lab_program P st w = (Inr d, w')" and r: "r \<in> set (dp_vms d)"
  obtains rec vms ov caps ps where
    "load_result (record_path_of st) (files w (record_path_of st)) = Inr rec"
    "cf_string_map (deployment_cfg st) ''placementOverrides'' = Inr ov"
    "dict_wf vms" "vr_resource_name r \<in> set (dkeys vms)"
    "decide_placement vms caps (placements rec) (or_default ov []) = Inr (dp_placements d, ps)"
    "dget (dp_placements d) (vr_resource_name r) = Some (vr_node_name r)"
    "files w' (record_path_of st) =
       (if \<not> p_dry_run P \<and> fresh_keys vms (or_default ov []) (placements rec) \<noteq> []
        then Some (Text (record_text ps)) else files w (record_path_of st))"
proof -
  obtain ls selected vms overrides placed w1 resources u where 1:
    "read_settings P st = Inr ls" "cf_strings (deployment_cfg st) ''selectedVmKeys'' = Inr selected"
    "select_vms (ls_phase_limit ls) selected (lab_specs ls) = Inr vms"
    "cf_string_map (deployment_cfg st) ''placementOverrides'' = Inr overrides"
    "lab_placement P st ls vms overrides w = (Inr placed, w1)"
    and pre: "preflight P ls w1 = (Inr u, w')" and placed: "dp_placements d = placed"
    by (rule lab_program_Inr [OF run])
  obtain ls' selected' vms' overrides' w1' where 2:
    "read_settings P st = Inr ls'" "cf_strings (deployment_cfg st) ''selectedVmKeys'' = Inr selected'"
    "select_vms (ls_phase_limit ls') selected' (lab_specs ls') = Inr vms'"
    "list_all2 (registered st d) vms' (dp_vms d)"
    by (rule vms_registered [OF run])
  have "vms' = vms" using 1(1-3) 2(1-3) by simp
  note sel = select_vms_sub [OF 1(3)] and keys = vm_ram_disk_keys [OF select_vms_sub(2) [OF 1(3)]]
  obtain vm where vm: "vm \<in> set vms" and name: "vr_resource_name r = vs_key vm"
    and node: "dget (dp_placements d) (vs_key vm) = Some (vr_node_name r)"
    by (rule registered_vm [OF 2(4) [unfolded \<open>vms' = vms\<close>] r])
  have "only not_write (preflight P ls)" unfolding preflight_def by (intro only_intros) simp_all
  from only_files [OF this pre] have files: "files w' = files w1" .
  show thesis
  proof (rule plan_placement_Inr [OF 1(5)], goal_cases)
    case (1 rec caps ps)
    then show ?case
      using that [of rec overrides "vm_ram_disk vms" caps ps] keys vm name node placed files \<open>cf_string_map _ _ = _\<close>
      by (simp add: overrides_of_def)
  qed
qed

lemma run_records:
  assumes run: "lab_program P st w = (Inr d, w')" and r: "r \<in> set (dp_vms d)" and real: "\<not> p_dry_run P"
    and free: "\<not> overridden st (vr_resource_name r)"
  shows "\<exists>m. on_record (record_path_of st) w' = Some m \<and> m (vr_resource_name r) = Some (vr_node_name r)"
proof (rule run_placed [OF run r], goal_cases)
  case (1 rec vms ov caps ps)
  have ov: "dget (or_default ov []) (vr_resource_name r) = None" using free 1(2) by (simp add: overridden_def)
  note node = plan_priority_facts [OF 1(5,3,4), unfolded ov option.case 1(6)]
  show ?case
  proof (cases "fresh_keys vms (or_default ov []) (placements rec) = []")
    case True
    then have "dget (placements rec) (vr_resource_name r) \<noteq> None"
      using 1(4) ov set_fresh_keys [of vms "or_default ov []" "placements rec"] by auto
    moreover have "on_record (record_path_of st) w' = Some (dget (placements rec))"
      using True 1(1,7) by (simp add: on_record_def)
    ultimately show ?thesis using node by auto
  next
    case False
    then have "files w' (record_path_of st) = Some (Text (record_text ps))" using 1(7) real by simp
    from on_record_saved [OF decide_dict_wf [OF 1(5,3)] this] load_result_Inr [OF 1(1)] show ?thesis
      using node by (auto split: option.splits)
  qed
qed

lemma run_honours:
  assumes run: "lab_program P st w = (Inr d, w')" and r: "r \<in> set (dp_vms d)"
    and free: "\<not> overridden st (vr_resource_name r)"
    and rec: "on_record (record_path_of st) w = Some m" "m (vr_resource_name r) = Some n"
  shows "vr_node_name r = n"
proof (rule run_placed [OF run r], goal_cases)
  case (1 rec vms ov caps ps)
  have ov: "dget (or_default ov []) (vr_resource_name r) = None" using free 1(2) by (simp add: overridden_def)
  show ?case
    using plan_priority_facts [OF 1(5,3,4), unfolded ov option.case 1(6)] assms(4,5) 1(1) by (simp add: on_record_def)
qed

text \<open>The names of the estate's VMs stand for the same VMIDs in every run.\<close>

lemma names_fix_ids:
  assumes "lab_program P st w = (Inr d, w')" and "r \<in> set (dp_vms d)"
  shows "(vr_resource_name r, vr_vm_id r) \<in> set (map (\<lambda>(k, vm). (k, vs_vm_id vm)) (build_vm_specs [] []))"
proof (rule vms_registered [OF assms(1)], goal_cases)
  case (1 ls selected vms overrides w1)
  obtain vm where vm: "vm \<in> set vms" and "vr_resource_name r = vs_key vm" "vr_vm_id r = vs_vm_id vm"
    by (rule registered_vm [OF 1(8) assms(2)])
  moreover have "vm \<in> snd ` set (lab_specs ls)" using vm select_vms_sub(4) [OF 1(3)] by simp
  moreover have "\<forall>vm \<in> snd ` set (build_vm_specs e i).
      (vs_key vm, vs_vm_id vm) \<in> set (map (\<lambda>(k, vm). (k, vs_vm_id vm)) (build_vm_specs [] []))" for e i
    by (simp add: build_vm_specs_def)
  ultimately show ?case by (simp only: split: prod.splits)
qed

lemma same_name_same_id:
  "(n, i) \<in> set (map (\<lambda>(k, vm). (k, vs_vm_id vm)) (build_vm_specs [] [])) \<Longrightarrow>
   (n, i') \<in> set (map (\<lambda>(k, vm). (k, vs_vm_id vm)) (build_vm_specs [] [])) \<Longrightarrow> i = i'"
  by (auto simp: build_vm_specs_def)

text \<open>
  C1: A VM that a real run of the program registered is never moved. Whatever happened since that
  run, on whatever cluster and with whatever settings the program was run, previewed, or failed, as long as
  only the program writes its record file, every later run that registers the VM does so with the same VMID and
  on the same node, unless one of the two runs names it in its overrides.
\<close>

theorem vms_never_move:
  assumes first: "lab_program P st w = (Inr d, w1)" "\<not> p_dry_run P" "r \<in> set (dp_vms d)"
    and between: "(lab_step (record_path_of st))\<^sup>*\<^sup>* w1 w2"
    and later: "lab_program P' st' w2 = (Inr d', w3)" "record_path_of st' = record_path_of st" "r' \<in> set (dp_vms d')"
    and same: "vr_resource_name r' = vr_resource_name r"
    and free: "\<not> overridden st (vr_resource_name r)" "\<not> overridden st' (vr_resource_name r)"
  shows "vr_node_name r' = vr_node_name r \<and> vr_vm_id r' = vr_vm_id r"
proof
  obtain m where "on_record (record_path_of st) w1 = Some m" "m (vr_resource_name r) = Some (vr_node_name r)"
    using run_records [OF first(1,3,2) free(1)] by blast
  from lab.kept [OF between this] show "vr_node_name r' = vr_node_name r"
    using run_honours [OF later(1,3)] later(2) same free(2) by metis
  show "vr_vm_id r' = vr_vm_id r"
    using names_fix_ids [OF first(1,3)] names_fix_ids [OF later(1,3)] same same_name_same_id by metis
qed


section \<open>The properties at work\<close>

text \<open>
  A real run that places \<open>core01\<close> on the only configured node, \<open>pve01\<close>; then the settings name only
  \<open>pve02\<close>, which has room, and a preview still finds the VM on \<open>pve01\<close>.
\<close>

definition history_reply :: "http_request \<Rightarrow> json" where
  "history_reply r =
     (if req_url r = ''https://h/api2/json/access/ticket''
      then JObj [(''data'', JObj [(''ticket'', JStr ''T'')])]
      else if req_url r \<in> {''https://h/api2/json/nodes/pve01/status'', ''https://h/api2/json/nodes/pve02/status''}
      then JObj [(''data'', JObj [(''memory'', JObj [(''available'', JInt 100000000000)])])]
      else JObj [(''data'', JList [JObj [(''active'', JInt 1), (''content'', JStr ''images''),
                                       (''avail'', JInt 1000000000000)]])])"

definition history_stack :: "string \<Rightarrow> lab_stack" where
  "history_stack node =
     demo_stack\<lparr>deployment_cfg := demo_config [(''vmSshPublicKey'', ''k''), (''placementRecordPath'', ''/r'')]
        [(''nodeNames'', [node]), (''selectedVmKeys'', [''core01''])]\<rparr>"

lemma history_settings:
  "\<exists>ls. read_settings (scripted history_reply [] dry) (history_stack n) = Inr ls \<and> ls_node_names ls = [n] \<and> ls_phase_limit ls = 2
     \<and> ps_endpoint (ls_provider ls) = ''h'' \<and> ps_username (ls_provider ls) = ''root@pam''
     \<and> ps_password (ls_provider ls) = ''pw'' \<and> ps_insecure (ls_provider ls)"
  by (simp add: read_settings_def history_stack_def demo_stack_def demo_config_def read_provider_settings_def
      read_common_settings_def read_sdn_settings_def get_required_value_def get_bool_value_def or_default_def or_int_def
      scripted_def Let_def)

lemma history_auth:
  "\<exists>es. usage_auth (scripted history_reply out d) (demo_client t) w = (Inr (demo_client (JStr ''T'')), w\<lparr>trace := es\<rparr>)"
  by (simp add: usage_auth_def usage_request_def history_reply_def io_eval payload_data_or_empty_def dget_or_def
      demo_client_def del: io_run_simps, rule exI, rule refl)

definition history_capacity :: "string \<Rightarrow> node_capacity" where
  "history_capacity n = \<lparr>cap_name = n, free_ram_bytes = 100000000000, free_disk_bytes = 1000000000000\<rparr>"

lemma history_capacity_read:
  "n \<in> {''pve01'', ''pve02''} \<Longrightarrow>
   \<exists>es. read_node_capacity (scripted history_reply out d) (demo_client t) n w = (Inr (history_capacity n), w\<lparr>trace := es\<rparr>)"
  by (elim insertE emptyE; simp add: read_node_capacity_def usage_request_def history_reply_def io_eval free_ram_of_def
      free_disk_of_def payload_entries_def payload_data_or_empty_def dget_or_def add_store_def demo_vm_store
      demo_client_def history_capacity_def del: io_run_simps; rule exI; rule refl)

abbreviation history_vms :: "(string, int \<times> int) dict" where
  "history_vms \<equiv> [(''core01'', (6442450944, 141733920768))]"

lemma history_plan:
  "decide_placement history_vms [(''pve01'', history_capacity ''pve01'')] [] [] =
     Inr ([(''core01'', ''pve01'')], [(''core01'', ''pve01'')])"
  "decide_placement history_vms [(''pve02'', history_capacity ''pve02'')] [(''core01'', ''pve01'')] [] =
     Inr ([(''core01'', ''pve01'')], [(''core01'', ''pve01'')])"
  "fresh_keys history_vms [] [] = [''core01'']" "fresh_keys history_vms [] [(''core01'', ''pve01'')] = []"
  by code_simp+

lemma history_placement:
  assumes n: "n \<in> {''pve01'', ''pve02''}"
    and rec: "load_result ''/r'' (files w ''/r'') = Inr \<lparr>rec_path = ''/r'', placements = rc\<rparr>"
    and plan: "decide_placement history_vms [(n, history_capacity n)] rc [] = Inr ([(''core01'', ''pve01'')], ps)"
    and fresh: "fresh_keys history_vms [] rc = ks" "ks = [] \<or> ks = [''core01'']"
  shows "\<exists>w'. plan_placement (scripted history_reply [] dry) ''h'' ''root@pam'' ''pw'' True history_vms ''/r'' (Some []) (Some [n])
       (\<not> dry) w = (Inr [(''core01'', ''pve01'')], w')
     \<and> files w' = (if dry \<or> ks = [] then files w else (files w)(''/r'' \<mapsto> Text (record_text ps)))"
proof -
  let ?P = "scripted history_reply [] dry"
  obtain e1 where 1: "usage_auth ?P (demo_client (JStr [])) w = (Inr (demo_client (JStr ''T'')), w\<lparr>trace := e1\<rparr>)"
    using history_auth by blast
  obtain e2 where 2: "read_node_capacity ?P (demo_client (JStr ''T'')) n (w\<lparr>trace := e1\<rparr>) =
      (Inr (history_capacity n), w\<lparr>trace := e2\<rparr>)"
    using history_capacity_read [OF n, of "[]" dry "JStr ''T''" "w\<lparr>trace := e1\<rparr>"] by auto
  have client: "usage_client_init ''h'' ''root@pam'' ''pw'' True = Inr (demo_client (JStr []))"
    by (simp add: usage_client_init_def demo_host demo_client_def)
  have writable: "p_write_error (scripted history_reply [] d) p = None" for d p by (simp add: scripted_def)
  show ?thesis
    using fresh(2)
    by (elim disjE; simp add: plan_placement_def load_record_run rec io_eval client 1 2 candidate_nodes_of_def
        read_capacities_def dict_of_def dset_def plan fresh(1) persist_record_def save_record_def report_fresh_def
        writable del: io_run_simps)
qed

lemma history_preflight:
  assumes "ls_node_names ls = [''pve01'']" and "ps_endpoint (ls_provider ls) = ''h''"
  shows "\<exists>w'. preflight (scripted history_reply [] dry) ls w = (Inr (), w')"
proof -
  let ?P = "scripted history_reply [] dry"
  define s where "s = preflight_settings ?P ls"
  define c where "c = \<lparr>pc_settings = s, pc_host = ''h''\<rparr>"
  define other where "other = JObj [(''data'', JList [JObj [(''active'', JInt 1), (''content'', JStr ''images''),
                                       (''avail'', JInt 1000000000000)]])]"
  have init: "pve_client_init s = Inr c"
    using assms(2) by (simp add: pve_client_init_def s_def preflight_settings_def demo_host c_def Let_def)
  obtain e1 where 1: "pve_auth ?P c w = (Inr (JStr ''T'', JStr []), w\<lparr>trace := e1\<rparr>)"
    by (simp add: pve_auth_def try_ticket_def pve_request_def history_reply_def io_eval payload_data_or_empty_def
      dget_or_def c_def pve_url_def Let_def del: io_run_simps)
  have reply: "history_reply r = other" if "req_url r = ''https://h/api2/json/nodes/pve01/qemu''
      \<or> (\<exists>d. req_url r = ''https://h/api2/json/nodes/pve01/storage/'' @ d @ ''/content'')" for r
    using that by (auto simp: history_reply_def other_def)
  have ok: "json_ok other" by (simp add: other_def)
  have vms: "vmids_of other = Inr []" unfolding other_def by code_simp
  have content: "content_of ds other = Inr []" for ds
    by (simp add: content_of_def other_def payload_entries_def volid_of_def dget_or_def)
  have find: "\<exists>es. find_orphans ?P c (JStr ''T'') ''pve01'' w = (Inr [], w\<lparr>trace := es\<rparr>)" for w
    by (simp add: find_orphans_def node_vmids_def node_content_def pve_request_def pve_url_def c_def s_def
        preflight_settings_def reply ok vms content io_eval Let_def del: io_run_simps, rule exI, rule refl)
  obtain e2 where "find_orphans ?P c (JStr ''T'') ''pve01'' (w\<lparr>trace := e1\<rparr>) = (Inr [], w\<lparr>trace := e2\<rparr>)"
    using find [of "w\<lparr>trace := e1\<rparr>"] by auto
  moreover have "cs_node_names s = [''pve01'']" using assms(1) by (simp add: s_def preflight_settings_def Let_def)
  ultimately have "clean_orphans ?P s True w = (Inr [node_header ''pve01'' []], w\<lparr>trace := e2\<rparr>)"
    by (simp add: clean_orphans_def clean_node_def io_bind_def init 1 io_run_eqs del: io_run_simps)
  then show ?thesis
    by (simp add: preflight_def s_def [symmetric] io_eval del: io_run_simps)
qed


lemma history_run:
  assumes n: "n \<in> {''pve01'', ''pve02''}" "n = ''pve01'' \<or> dry"
    and rec: "load_result ''/r'' (files w ''/r'') = Inr \<lparr>rec_path = ''/r'', placements = rc\<rparr>"
    and plan: "decide_placement history_vms [(n, history_capacity n)] rc [] = Inr ([(''core01'', ''pve01'')], ps)"
    and fresh: "fresh_keys history_vms [] rc = ks" "ks = [] \<or> ks = [''core01'']"
  shows "\<exists>d w' r. lab_program (scripted history_reply [] dry) (history_stack n) w = (Inr d, w') \<and> dp_vms d = [r]
     \<and> vr_resource_name r = ''core01'' \<and> vr_node_name r = ''pve01''
     \<and> files w' = (if dry \<or> ks = [] then files w else (files w)(''/r'' \<mapsto> Text (record_text ps)))"
proof -
  let ?P = "scripted history_reply [] dry"
  obtain ls where ls: "read_settings ?P (history_stack n) = Inr ls" "ls_node_names ls = [n]" "ls_phase_limit ls = 2"
    "ps_endpoint (ls_provider ls) = ''h''" "ps_username (ls_provider ls) = ''root@pam''"
    "ps_password (ls_provider ls) = ''pw''" "ps_insecure (ls_provider ls)"
    using history_settings [of dry n] by (elim exE conjE) (rule that)
  obtain vm where vm: "select_vms 2 (Some [''core01'']) (lab_specs ls) = Inr [vm]" "vs_key vm = ''core01''"
    "vm_footprint_bytes vm = (6442450944, 141733920768)"
    using demo_selection [of "ls_external_bridge ls" "sd_vnet_id (ls_sdn ls)"] by blast
  obtain w1 where w1: "plan_placement ?P ''h'' ''root@pam'' ''pw'' True history_vms ''/r'' (Some []) (Some [n]) (\<not> dry) w =
      (Inr [(''core01'', ''pve01'')], w1)"
    "files w1 = (if dry \<or> ks = [] then files w else (files w)(''/r'' \<mapsto> Text (record_text ps)))"
    using history_placement [OF n(1) rec plan fresh] by blast
  have dry: "p_dry_run ?P = dry" by (simp add: scripted_def)
  obtain w2 where w2: "preflight ?P ls w1 = (Inr (), w2)"
  proof (cases dry)
    case True
    then show thesis by (intro that [of w1]) (simp add: preflight_def scripted_def)
  next
    case False
    then show thesis using that n(2) history_preflight [of ls dry w1] ls(2,4) by auto
  qed
  have "only not_write (preflight ?P ls)" unfolding preflight_def by (intro only_intros) simp_all
  from only_files [OF this w2] have files: "files w2 = files w1" .
  have cfg: "cf_strings (deployment_cfg (history_stack n)) ''selectedVmKeys'' = Inr (Some [''core01''])"
    "cf_string_map (deployment_cfg (history_stack n)) ''placementOverrides'' = Inr None" "record_path_of (history_stack n) = ''/r''"
    by (simp_all add: history_stack_def demo_stack_def demo_config_def record_path_of_def or_default_def)
  have disk: "vm_ram_disk [vm] = history_vms" by (simp add: vm_ram_disk_def vm dict_of_def dset_def)
  obtain zone vnet where lan: "build_internal_lan (ls_sdn ls) = (zone, vnet)" by fastforce
  show ?thesis
    unfolding lab_program_def ls(1) io_bind_simps Let_def lan prod.case w1(2) [symmetric] files [symmetric]
    by (simp add: cfg ls(2-7) vm(1) disk dry or_default_def io_bind_def w1(1) w2 io_then_def io_run_eqs
        vm_on_node_def vm(2) created_node del: io_run_simps)
qed

lemma history_first:
  "\<exists>d w1 r. lab_program (scripted history_reply [] False) (history_stack ''pve01'') blank = (Inr d, w1) \<and> dp_vms d = [r]
     \<and> vr_resource_name r = ''core01'' \<and> vr_node_name r = ''pve01''
     \<and> load_result ''/r'' (files w1 ''/r'') = Inr \<lparr>rec_path = ''/r'', placements = [(''core01'', ''pve01'')]\<rparr>"
proof -
  have "load_result ''/r'' (files blank ''/r'') = Inr \<lparr>rec_path = ''/r'', placements = []\<rparr>" by (simp add: load_result_def)
  from history_run [OF _ _ this history_plan(1,3), of False] show ?thesis
    using load_record_text [of "[(''core01'', ''pve01'')]" "''/r''"] by (fastforce simp: dget_or_def)
qed

lemma vms_never_move_witness:
  "\<exists>d w1 r d' w3 r'. lab_program (scripted history_reply [] False) (history_stack ''pve01'') blank = (Inr d, w1)
     \<and> dp_vms d = [r] \<and> vr_node_name r = ''pve01''
     \<and> lab_program (scripted history_reply [] True) (history_stack ''pve02'') (w1\<lparr>trace := []\<rparr>) = (Inr d', w3)
     \<and> dp_vms d' = [r'] \<and> vr_node_name r' = vr_node_name r \<and> vr_vm_id r' = vr_vm_id r"
proof -
  obtain d w1 r where 1: "lab_program (scripted history_reply [] False) (history_stack ''pve01'') blank = (Inr d, w1)"
    "dp_vms d = [r]" "vr_resource_name r = ''core01''" "vr_node_name r = ''pve01''"
    "load_result ''/r'' (files w1 ''/r'') = Inr \<lparr>rec_path = ''/r'', placements = [(''core01'', ''pve01'')]\<rparr>"
    using history_first by blast
  have later: "load_result ''/r'' (files (w1\<lparr>trace := []\<rparr>) ''/r'') = Inr \<lparr>rec_path = ''/r'', placements = [(''core01'', ''pve01'')]\<rparr>"
    using 1(5) by simp
  obtain d' w3 r' where 2: "lab_program (scripted history_reply [] True) (history_stack ''pve02'') (w1\<lparr>trace := []\<rparr>) = (Inr d', w3)"
    "dp_vms d' = [r']" "vr_resource_name r' = ''core01''"
    using history_run [OF _ _ later history_plan(2,4), of True] by auto
  have path: "record_path_of (history_stack n) = ''/r''" and free: "\<not> overridden (history_stack n) k" for n k
    by (simp_all add: history_stack_def demo_stack_def demo_config_def record_path_of_def or_default_def overridden_def)
  have "(lab_step (record_path_of (history_stack ''pve01'')))\<^sup>*\<^sup>* w1 (w1\<lparr>trace := []\<rparr>)"
    by (rule r_into_rtranclp, rule lab_step.Elsewhere) simp
  from vms_never_move [OF 1(1) _ _ this 2(1), of r r'] have "vr_node_name r' = vr_node_name r \<and> vr_vm_id r' = vr_vm_id r"
    using 1(2,3) 2(2,3) path free by (simp add: scripted_def)
  with 1(1,2,4) 2(1,2) show ?thesis by blast
qed


end
