(* ===== verification/Overlay_History.thy ===== *)
theory Overlay_History
  imports Sdn_Fdb
begin

text \<open>
  The forwarding overlay over the life of a node. The hook that \<open>modules/sdn_fdb.py\<close> installs runs whenever
  an interface of the node comes up; installations with new MAC addresses, reboots and network reloads
  that create the device anew, and other interfaces coming up follow one another in any order. The
  lemmas show what the device's table is after such a history. How the kernel keeps the table is a
  parameter: \<open>app\<close> is one \<open>bridge fdb append\<close>.
\<close>

section \<open>A run of the hook\<close>

text \<open>
  The whole script, for the interface that came up and the content of the data file if it is there and readable. The
  entries that it appends, in order. The device and file names in the script are plain words.
\<close>

definition hook_run :: "sdn_fdb_settings \<Rightarrow> string \<Rightarrow> string option \<Rightarrow> (string \<times> string) list" where
  "hook_run s iface data =
     (if iface \<noteq> sf_vxlan_device s \<and> iface \<noteq> ''vlab'' then []
      else (case data of None \<Rightarrow> [] | Some text \<Rightarrow> hook_loop text))"

section \<open>A node\<close>

record 't node_state =
  nd_data :: "string option"
  nd_hook :: bool
  nd_table :: 't

datatype node_event = Install "(string, string list) dict" | IfUp string | Recreated

type_synonym 't append = "string \<times> string \<Rightarrow> 't \<Rightarrow> 't"

definition fire :: "'t append \<Rightarrow> sdn_fdb_settings \<Rightarrow> string \<Rightarrow> 't node_state \<Rightarrow> 't node_state" where
  "fire app s iface st =
     (if nd_hook st then st\<lparr>nd_table := fold app (hook_run s iface (nd_data st)) (nd_table st)\<rparr> else st)"

text \<open>
  What the installation's command line does on the node: the data file and the hook are written from
  their base64 texts and the hook is fired for the device. Nothing is sent when the lines cannot be made.
\<close>

definition install_effect ::
  "'t append \<Rightarrow> sdn_fdb_settings \<Rightarrow> string \<Rightarrow> (string, string list) dict \<Rightarrow> 't node_state \<Rightarrow> 't node_state" where
  "install_effect app s node macs st =
     (case fdb_lines_for node s macs of
        Inl _ \<Rightarrow> st
      | Inr ls \<Rightarrow>
          fire app s (sf_vxlan_device s) (st\<lparr>nd_data := unb64_text (b64_text (data_body ls)), nd_hook := True\<rparr>))"

fun node_step :: "'t append \<Rightarrow> 't \<Rightarrow> sdn_fdb_settings \<Rightarrow> string \<Rightarrow> node_event \<Rightarrow> 't node_state \<Rightarrow> 't node_state" where
  "node_step app wiped s node (Install macs) st = install_effect app s node macs st"
| "node_step app wiped s node (IfUp iface) st = fire app s iface st"
| "node_step app wiped s node Recreated st = st\<lparr>nd_table := wiped\<rparr>"

abbreviation node_run ::
  "'t append \<Rightarrow> 't \<Rightarrow> sdn_fdb_settings \<Rightarrow> string \<Rightarrow> node_event list \<Rightarrow> 't node_state \<Rightarrow> 't node_state" where
  "node_run app wiped s node \<equiv> fold (node_step app wiped s node)"

definition installs :: "node_event \<Rightarrow> bool" where
  "installs e \<longleftrightarrow> (case e of Install _ \<Rightarrow> True | _ \<Rightarrow> False)"

definition device_up :: "sdn_fdb_settings \<Rightarrow> node_event \<Rightarrow> bool" where
  "device_up s e \<longleftrightarrow> e = IfUp (sf_vxlan_device s) \<or> e = IfUp ''vlab''"

section \<open>Between two installations\<close>

text \<open>
  What the code relies on (\<open>append is idempotent (a duplicate is a no-op warning)\<close>): appending an entry again that
  was appended since leaves the table alone.
\<close>

definition ignores_duplicates :: "'t append \<Rightarrow> bool" where
  "ignores_duplicates app \<longleftrightarrow> (\<forall>e es t. e \<in> set es \<longrightarrow> app e (fold app es t) = fold app es t)"

lemma append_again:
  assumes "ignores_duplicates app" and "set es' \<subseteq> set es"
  shows "fold app es' (fold app es t) = fold app es t"
  using assms(2)
proof (induction es')
  case (Cons e es')
  then show ?case using assms(1) by (simp add: ignores_duplicates_def del: split_paired_All)
qed simp

definition ready :: "sdn_fdb_settings \<Rightarrow> (string \<times> string) list \<Rightarrow> 't node_state \<Rightarrow> bool" where
  "ready s es st \<longleftrightarrow> nd_hook st \<and> (\<exists>text. nd_data st = Some text \<and> hook_loop text = es)"

lemma ready_step: "ready s es st \<Longrightarrow> \<not> installs e \<Longrightarrow> ready s es (node_step app wiped s node e st)"
  by (cases e) (auto simp: ready_def installs_def fire_def)

lemma ready_run: "ready s es st \<Longrightarrow> \<forall>e \<in> set evs. \<not> installs e \<Longrightarrow> ready s es (node_run app wiped s node evs st)"
  by (induction evs arbitrary: st) (simp_all add: ready_step)

lemma fire_ready:
  "ready s es st \<Longrightarrow> nd_table (fire app s iface st) =
     (if device_up s (IfUp iface) then fold app es (nd_table st) else nd_table st)"
  by (auto simp: ready_def fire_def hook_run_def device_up_def)

lemma quiet_run:
  assumes dup: "ignores_duplicates app" and "ready s es st"
    and "\<forall>e \<in> set evs. \<not> installs e \<and> e \<noteq> Recreated"
  shows "nd_table (node_run app wiped s node evs st) =
     (if \<exists>e \<in> set evs. device_up s e then fold app es (nd_table st) else nd_table st)"
  using assms(2,3)
proof (induction evs arbitrary: st)
  case (Cons e evs)
  from Cons.prems obtain iface where e: "e = IfUp iface" by (cases e) (auto simp: installs_def)
  have r: "ready s es (fire app s iface st)" using ready_step [OF Cons.prems(1)] Cons.prems(2) e by fastforce
  show ?case
    using Cons.IH [OF r] Cons.prems(2) append_again [OF dup subset_refl] by (auto simp: e fire_ready [OF Cons.prems(1)])
qed simp

lemma install_ready:
  assumes "distinct (sf_node_names s)" and "length (sf_node_names s) \<le> length (sf_peers s)"
    and "\<forall>p \<in> set (sf_peers s). peer_text p" and "macs_ok macs"
    and es: "es = overlay_entries macs (sf_node_names s) (sf_peers s) node"
  shows "ready s es (install_effect app s node macs st)"
    and "nd_table (install_effect app s node macs st) = fold app es (nd_table st)"
proof -
  have "hook_loop (data_body (map fdb_line es)) = es"
    unfolding es by (rule hook_loop_lines(1)) (rule overlay_entries_text [OF assms(4,3)])
  then have "ready s es (st\<lparr>nd_data := unb64_text (b64_text (data_body (map fdb_line es))), nd_hook := True\<rparr>)"
    by (simp add: ready_def unb64_b64)
  moreover have "install_effect app s node macs st = fire app s (sf_vxlan_device s)
      (st\<lparr>nd_data := unb64_text (b64_text (data_body (map fdb_line es))), nd_hook := True\<rparr>)"
    using fdb_lines_entries [OF assms(1,2)] by (simp add: install_effect_def es)
  ultimately show "ready s es (install_effect app s node macs st)"
    "nd_table (install_effect app s node macs st) = fold app es (nd_table st)"
    using ready_step [of s es _ "IfUp (sf_vxlan_device s)"] by (simp_all add: fire_ready device_up_def installs_def)
qed

section \<open>The overlay over a history\<close>

text \<open>
  C7: From an installation on, until the next one, the overlay heals itself. Whatever the node's
  state was and whatever comes up or is created anew in between, once the device was created anew and it or its
  bridge came up after that, its table is the one the overlay's entries make on an empty device, and
  nothing else. As long as the device was not created anew, though, the table is the one the
  installation found with the overlay's entries appended to it: entries of an earlier overlay stay.
\<close>

theorem overlay_heals:
  assumes "distinct (sf_node_names s)" and "length (sf_node_names s) \<le> length (sf_peers s)"
    and "\<forall>p \<in> set (sf_peers s). peer_text p" and "macs_ok macs" and dup: "ignores_duplicates app"
    and last: "\<forall>e \<in> set evs. \<not> installs e"
  shows "let es = overlay_entries macs (sf_node_names s) (sf_peers s) node;
           table = nd_table (node_run app wiped s node (before @ Install macs # evs) st)
     in (\<forall>evs1 evs2. evs = evs1 @ Recreated # evs2 \<and> Recreated \<notin> set evs2 \<and> (\<exists>e \<in> set evs2. device_up s e) \<longrightarrow>
           table = fold app es wiped)
      \<and> (Recreated \<notin> set evs \<longrightarrow> table = fold app es (nd_table (node_run app wiped s node before st)))"
proof -
  let ?es = "overlay_entries macs (sf_node_names s) (sf_peers s) node"
  let ?st = "install_effect app s node macs (node_run app wiped s node before st)"
  note inst = install_ready [OF assms(1-4) refl, where app = app and node = node and st = "node_run app wiped s node before st"]
  have run: "node_run app wiped s node (before @ Install macs # evs) st = node_run app wiped s node evs ?st" by simp
  have "nd_table (node_run app wiped s node evs ?st) = fold app ?es wiped"
    if evs: "evs = evs1 @ Recreated # evs2" "Recreated \<notin> set evs2" "\<exists>e \<in> set evs2. device_up s e" for evs1 evs2
  proof -
    have "ready s ?es (node_run app wiped s node (evs1 @ [Recreated]) ?st)"
      by (rule ready_run [OF inst(1)]) (use last evs in auto)
    then show ?thesis
      using quiet_run [OF dup, of s ?es _ evs2 wiped node] last evs by (fastforce simp: installs_def)
  qed
  moreover have "nd_table (node_run app wiped s node evs ?st) = fold app ?es (nd_table (node_run app wiped s node before st))"
    if "Recreated \<notin> set evs"
  proof -
    have "\<forall>e \<in> set evs. \<not> installs e \<and> e \<noteq> Recreated" using last that by metis
    from quiet_run [OF dup inst(1) this] show ?thesis by (simp add: append_again [OF dup subset_refl] inst(2))
  qed
  ultimately show ?thesis unfolding run Let_def by blast
qed

section \<open>The property at work\<close>

text \<open>A table that keeps the entries in the order in which they were first appended.\<close>

definition list_append :: "(string \<times> string) list append" where
  "list_append e t = (if e \<in> set t then t else t @ [e])"

lemma list_append_holds: "e \<in> set t \<Longrightarrow> e \<in> set (fold list_append es t)"
  by (induction es arbitrary: t) (auto simp: list_append_def)

lemma list_append_added: "e \<in> set es \<Longrightarrow> e \<in> set (fold list_append es t)"
  by (induction es arbitrary: t) (auto intro: list_append_holds simp: list_append_def)

lemma list_append_duplicates: "ignores_duplicates list_append"
proof -
  have "list_append e (fold list_append es t) = fold list_append es t" if "e \<in> set es" for e es t
    using list_append_added [OF that] by (simp add: list_append_def)
  then show ?thesis by (simp add: ignores_duplicates_def del: split_paired_All)
qed

text \<open>
  A VM of node \<open>n1\<close> as node \<open>n2\<close> sees it: with its old address until the device is created anew, and
  with the new one alone from then on.
\<close>

definition moved_macs :: "(string, string list) dict" where
  "moved_macs = [(''n1'', [''bc:24:11:00:00:02''])]"

lemma moved_macs_ok: "macs_ok moved_macs"
  by code_simp

abbreviation demo_node :: "node_event list \<Rightarrow> (string \<times> string) list" where
  "demo_node evs \<equiv> nd_table (node_run list_append [] fdb_demo ''n2'' evs \<lparr>nd_data = None, nd_hook = False, nd_table = []\<rparr>)"

lemma overlay_heals_witness:
  "demo_node [IfUp ''lo'', Install moved_macs, Install demo_macs, IfUp ''eth0'', Recreated, IfUp ''vx'', IfUp ''vlab''] =
     [(''bc:24:11:00:00:01'', ''10.0.0.1''), (multicast_vrrp_mac, ''10.0.0.1''), (broadcast_mac, ''10.0.0.1'')]
   \<and> (''bc:24:11:00:00:02'', ''10.0.0.1'') \<in> set (demo_node [Install moved_macs, Install demo_macs, IfUp ''vx''])"
proof
  let ?es = "overlay_entries demo_macs (sf_node_names fdb_demo) (sf_peers fdb_demo) ''n2''"
  let ?st = "\<lparr>nd_data = None, nd_hook = False, nd_table = []\<rparr> :: (string \<times> string) list node_state"
  have es: "fold list_append ?es [] =
      [(''bc:24:11:00:00:01'', ''10.0.0.1''), (multicast_vrrp_mac, ''10.0.0.1''), (broadcast_mac, ''10.0.0.1'')]"
    by code_simp
  note heals = overlay_heals [OF fdb_demo_nodes(1,2) fdb_demo_peers demo_macs_ok list_append_duplicates,
      of _ "''n2''" "[]" _ ?st, unfolded Let_def]
  have "demo_node ([IfUp ''lo'', Install moved_macs] @ Install demo_macs # [IfUp ''eth0'', Recreated, IfUp ''vx'', IfUp ''vlab'']) =
      fold list_append ?es []"
    by (rule heals [THEN conjunct1, THEN spec [where x = "[IfUp ''eth0'']"],
          THEN spec [where x = "[IfUp ''vx'', IfUp ''vlab'']"], THEN mp])
      (auto simp: installs_def device_up_def fdb_demo_def)
  then show "demo_node [IfUp ''lo'', Install moved_macs, Install demo_macs, IfUp ''eth0'', Recreated, IfUp ''vx'', IfUp ''vlab''] =
     [(''bc:24:11:00:00:01'', ''10.0.0.1''), (multicast_vrrp_mac, ''10.0.0.1''), (broadcast_mac, ''10.0.0.1'')]"
    by (simp only: es append.simps)
  have "(''bc:24:11:00:00:02'', ''10.0.0.1'') \<in> set (overlay_entries moved_macs (sf_node_names fdb_demo) (sf_peers fdb_demo) ''n2'')"
    by code_simp
  moreover have "demo_node [Install moved_macs] =
      fold list_append (overlay_entries moved_macs (sf_node_names fdb_demo) (sf_peers fdb_demo) ''n2'') []"
    using install_ready(2) [OF fdb_demo_nodes(1,2) fdb_demo_peers moved_macs_ok refl, where app = list_append and node = "''n2''" and st = ?st]
    by simp
  moreover have "demo_node ([Install moved_macs] @ Install demo_macs # [IfUp ''vx'']) =
      fold list_append ?es (demo_node [Install moved_macs])"
    by (rule heals [THEN conjunct2, rule_format]) (simp_all add: installs_def)
  ultimately show "(''bc:24:11:00:00:02'', ''10.0.0.1'') \<in> set (demo_node [Install moved_macs, Install demo_macs, IfUp ''vx''])"
    using list_append_holds list_append_added by (metis append.simps)
qed

end
