(* ===== verification/Verify_Env.thy ===== *)
theory Verify_Env
  imports Host_Ssh Base64
begin

text \<open>
  The ground of \<open>verify/helpers.py\<close>: what the suite reads from the controller's environment, the \<open>requests\<close>
  session pinned to the domain CA, and \<open>kubectl\<close> with the development cluster's configuration.
\<close>

section \<open>Environment\<close>

definition env_var :: "'w platform \<Rightarrow> string \<Rightarrow> string res" where
  "env_var P name =
     (case p_environ P name of
        Some (c # cs) \<Rightarrow> Inr (c # cs)
      | _ \<Rightarrow> throw RuntimeError (name @ '' is not set; run `source ~/.config/rke2lab/env.sh` before starting the suite.''))"

definition ca_file_env :: string where
  "ca_file_env = ''DEVLO_CA_FILE''"

definition ca_path :: "'w platform \<Rightarrow> string" where
  "ca_path P =
     (case p_environ P ca_file_env of
        Some v \<Rightarrow> v
      | None \<Rightarrow> ''/usr/local/share/ca-certificates/dev.lo-ca.crt'')"

definition ca_file :: "'w platform \<Rightarrow> ('w, string) io" where
  "ca_file P =
     (let ca = ca_path P in
      io_bind (file_exists ca) (\<lambda>there.
      if there then ret ca
      else raise (Exn RuntimeError (''domain CA file '' @ ca @ '' not found; export '' @ ca_file_env @
        '' if it lives elsewhere on this host''))))"

text \<open>A session that would verify against a missing file is not made.\<close>

definition make_session :: "'w platform \<Rightarrow> ('w, web_session) io" where
  "make_session P =
     (let ca = ca_path P in
      io_bind (file_exists ca) (\<lambda>there.
      if there then
        io_bind (new_session P) (\<lambda>n. ret \<lparr>ws_id = n, ws_verify = ca\<rparr>)
      else raise (Exn RuntimeError (''domain CA file '' @ ca @ '' not found; export '' @ ca_file_env @
        '' if it lives elsewhere on this host''))))"

lemma env_var_Inr: "env_var P n = Inr v \<longleftrightarrow> p_environ P n = Some v \<and> v \<noteq> []"
  by (auto simp: env_var_def split: option.splits list.splits)

lemma only_ca_file [only_intros]: "only Q (ca_file P)"
  unfolding ca_file_def Let_def by (intro only_intros)

lemma only_make_session [only_intros]: "only Q (make_session P)"
  unfolding make_session_def Let_def by (intro only_intros)

text \<open>A session that exists checks certificates against the domain CA.\<close>

lemma spec_make_session: "spec (make_session P) (\<lambda>es r. es = [] \<and> (\<forall>s. r = Inr s \<longrightarrow> ws_verify s = ca_path P))"
  unfolding make_session_def Let_def
  by (intro spec_bind [OF spec_file_exists] spec_bind [OF spec_new_session] spec_intros) auto

section \<open>kubectl\<close>

definition kubectl_exe :: "'w platform \<Rightarrow> string" where
  "kubectl_exe P =
     (case p_which P ''kubectl'' of
        Some (c # cs) \<Rightarrow> c # cs
      | _ \<Rightarrow> p_expanduser P ''~/.local/bin/kubectl'')"

definition kube_env :: "'w platform \<Rightarrow> (string \<times> string) list" where
  "kube_env P =
     [(''KUBECONFIG'',
       case p_environ P ''KUBECONFIG'' of
         Some (c # cs) \<Rightarrow> c # cs
       | _ \<Rightarrow> p_expanduser P ''~/.kube/dev-lo.config'')]"

definition kubectl_request :: "'w platform \<Rightarrow> string list \<Rightarrow> string option \<Rightarrow> process_request" where
  "kubectl_request P args inp =
     \<lparr>pr_argv = kubectl_exe P # args, pr_input = inp, pr_cwd = None, pr_env = kube_env P\<rparr>"

definition first_n :: "nat \<Rightarrow> string \<Rightarrow> string" where
  "first_n n s = take n s"

definition kubectl :: "'w platform \<Rightarrow> string list \<Rightarrow> bool \<Rightarrow> ('w, process_result) io" where
  "kubectl P args check =
     io_bind (run_process P (kubectl_request P args None)) (\<lambda>p.
     if check \<and> pr_returncode p \<noteq> 0 then
       raise (Exn RuntimeError (''kubectl '' @ py_join '' '' args @ '' failed: '' @ first_n 400 (py_strip (pr_stderr p))))
     else ret p)"

definition kubectl_json :: "'w platform \<Rightarrow> string list \<Rightarrow> ('w, json) io" where
  "kubectl_json P args = io_bind (kubectl P ([''-o'', ''json''] @ args) True) (\<lambda>p. lift (json_loads (pr_stdout p)))"

definition kubectl_popen :: "'w platform \<Rightarrow> string list \<Rightarrow> ('w, unit) io" where
  "kubectl_popen P args = popen P (kubectl_request P args None)"

definition kubectl_apply :: "'w platform \<Rightarrow> string \<Rightarrow> ('w, unit) io" where
  "kubectl_apply P manifest =
     io_bind (run_process P (kubectl_request P [''apply'', ''-f'', ''-''] (Some manifest))) (\<lambda>p.
     if pr_returncode p \<noteq> 0 then
       raise (Exn RuntimeError (''kubectl apply failed: '' @ first_n 400 (py_strip (pr_stderr p))))
     else ret ())"

lemma spec_kubectl:
  "spec (kubectl P args check)
     (\<lambda>es r. \<exists>x. es = [ERun (kubectl_request P args None) x] \<and>
        (\<forall>p. r = Inr p \<longrightarrow> x = Inr p \<and> (check \<longrightarrow> pr_returncode p = 0)))"
  unfolding kubectl_def by (intro spec_bind [OF spec_run_process] spec_intros) auto

lemma spec_kubectl_json:
  "spec (kubectl_json P args)
     (\<lambda>es r. \<exists>x. es = [ERun (kubectl_request P ([''-o'', ''json''] @ args) None) x] \<and>
        (\<forall>v. r = Inr v \<longrightarrow> (\<exists>p. x = Inr p \<and> pr_returncode p = 0 \<and> json_loads (pr_stdout p) = Inr v)))"
  unfolding kubectl_json_def by (intro spec_bind [OF spec_kubectl] spec_intros) auto

lemma spec_kubectl_apply:
  "spec (kubectl_apply P manifest)
     (\<lambda>es r. \<exists>x. es = [ERun (kubectl_request P [''apply'', ''-f'', ''-''] (Some manifest)) x] \<and>
        (r = Inr () \<longleftrightarrow> (\<exists>p. x = Inr p \<and> pr_returncode p = 0)))"
  unfolding kubectl_apply_def by (intro spec_bind [OF spec_run_process] spec_intros) auto

end
