(* ===== verification/Verify_Token.thy ===== *)
theory Verify_Token
  imports Base64
begin

text \<open>
  The claims of an access token, \<open>access_token_claims\<close> of \<open>verify/helpers.py\<close>: the payload of the JWT is
  cut out, padded, decoded by \<open>base64.urlsafe_b64decode\<close> and read by \<open>json.loads\<close>, which detects the
  encoding of the bytes it is given. Both library functions are modelled as CPython has them: the lenient
  base64 scanner skips what is no base64 character and stops at enough padding.
\<close>

section \<open>base64.urlsafe\_b64decode\<close>

text \<open>
  The scanner of \<open>binascii.a2b_base64\<close>: the position \<open>q\<close> in a group of four, the bits left over from
  the character before, the padding characters seen since, and the bytes written so far.
\<close>

fun a2b_base64 :: "nat \<Rightarrow> nat \<Rightarrow> nat \<Rightarrow> nat list \<Rightarrow> string \<Rightarrow> nat list res" where
  "a2b_base64 q left pads acc [] =
     (if q = 0 then Inr acc
      else if q = 1 then
        throw ValueError (''Invalid base64-encoded string: number of data characters ('' @
          nat_str (length acc div 3 * 4 + 1) @ '') cannot be 1 more than a multiple of 4'')
      else throw ValueError ''Incorrect padding'')"
| "a2b_base64 q left pads acc (c # cs) =
     (if c = CHR ''='' then
        if 2 \<le> q \<and> 4 \<le> q + Suc pads then Inr acc
        else a2b_base64 q left (if 2 \<le> q then Suc pads else pads) acc cs
      else
        (case b64_val c of
           None \<Rightarrow> a2b_base64 q left pads acc cs
         | Some v \<Rightarrow>
             if q = 0 then a2b_base64 1 v 0 acc cs
             else if q = 1 then a2b_base64 2 (v mod 16) 0 (acc @ [left * 4 + v div 16]) cs
             else if q = 2 then a2b_base64 3 (v mod 4) 0 (acc @ [left * 16 + v div 4]) cs
             else a2b_base64 0 0 0 (acc @ [left * 64 + v]) cs))"

definition urlsafe_in :: "char \<Rightarrow> char" where
  "urlsafe_in c = (if c = CHR ''-'' then CHR ''+'' else if c = CHR ''_'' then CHR ''/'' else c)"

definition urlsafe_b64decode :: "string \<Rightarrow> nat list res" where
  "urlsafe_b64decode s =
     (if list_all (\<lambda>c. (of_char c :: nat) < 128) s then a2b_base64 0 0 0 [] (map urlsafe_in s)
      else throw ValueError ''string argument should contain only ASCII characters'')"

section \<open>json.loads on bytes\<close>

datatype encoding = Utf8 | Utf8_sig | Utf16 | Utf32 | Utf16_be | Utf16_le | Utf32_be | Utf32_le

definition detect_encoding :: "nat list \<Rightarrow> encoding" where
  "detect_encoding b =
     (if prefix [0, 0, 254, 255] b \<or> prefix [255, 254, 0, 0] b then Utf32
      else if prefix [254, 255] b \<or> prefix [255, 254] b then Utf16
      else if prefix [239, 187, 191] b then Utf8_sig
      else if 4 \<le> length b then
        if b ! 0 = 0 then (if b ! 1 \<noteq> 0 then Utf16_be else Utf32_be)
        else if b ! 1 = 0 then (if b ! 2 \<noteq> 0 \<or> b ! 3 \<noteq> 0 then Utf16_le else Utf32_le)
        else Utf8
      else if length b = 2 then
        if b ! 0 = 0 then Utf16_be else if b ! 1 = 0 then Utf16_le else Utf8
      else Utf8)"

text \<open>The wide encodings, big-endian when the flag says so, for text in the range of a \<open>char\<close>.\<close>

fun utf16_decode :: "bool \<Rightarrow> nat list \<Rightarrow> string option" where
  "utf16_decode be [] = Some []"
| "utf16_decode be [a] = None"
| "utf16_decode be (a # b # r) =
     (let (hi, lo) = (if be then (a, b) else (b, a)) in
      if hi = 0 then map_option ((#) (char_of lo)) (utf16_decode be r) else None)"

fun utf32_decode :: "bool \<Rightarrow> nat list \<Rightarrow> string option" where
  "utf32_decode be [] = Some []"
| "utf32_decode be (a # b # c # d # r) =
     (let (hi, lo) = (if be then ([a, b, c], d) else ([d, c, b], a)) in
      if hi = [0, 0, 0] then map_option ((#) (char_of lo)) (utf32_decode be r) else None)"
| "utf32_decode be _ = None"

definition decode_json_bytes :: "nat list \<Rightarrow> string option" where
  "decode_json_bytes b =
     (case detect_encoding b of
        Utf8 \<Rightarrow> utf8_decode b
      | Utf8_sig \<Rightarrow> utf8_decode (drop 3 b)
      | Utf16 \<Rightarrow> utf16_decode (prefix [254, 255] b) (drop 2 b)
      | Utf32 \<Rightarrow> utf32_decode (prefix [0, 0, 254, 255] b) (drop 4 b)
      | Utf16_be \<Rightarrow> utf16_decode True b
      | Utf16_le \<Rightarrow> utf16_decode False b
      | Utf32_be \<Rightarrow> utf32_decode True b
      | Utf32_le \<Rightarrow> utf32_decode False b)"

definition json_loads_bytes :: "nat list \<Rightarrow> json res" where
  "json_loads_bytes b =
     (case decode_json_bytes b of
        None \<Rightarrow> throw ValueError ''invalid bytes''
      | Some s \<Rightarrow> json_loads s)"

section \<open>access\_token\_claims\<close>

definition token_payload :: "string \<Rightarrow> string res" where
  "token_payload tok =
     (case py_split (CHR ''.'') tok of
        _ # p # _ \<Rightarrow> Inr p
      | _ \<Rightarrow> throw IndexError ''list index out of range'')"

definition pad_payload :: "string \<Rightarrow> string" where
  "pad_payload p = p @ replicate (nat ((- int (length p)) mod 4)) (CHR ''='')"

definition access_token_claims :: "string \<Rightarrow> json res" where
  "access_token_claims tok =
     res_bind (token_payload tok) (\<lambda>p.
     res_bind (urlsafe_b64decode (pad_payload p)) json_loads_bytes)"

section \<open>What a token issuer writes\<close>

text \<open>Base64url without padding (RFC 7515): the encoding of each part of a token.\<close>

definition urlsafe_out :: "char \<Rightarrow> char" where
  "urlsafe_out c = (if c = CHR ''+'' then CHR ''-'' else if c = CHR ''/'' then CHR ''_'' else c)"

definition b64url :: "nat list \<Rightarrow> string" where
  "b64url bs = map urlsafe_out (takeWhile (\<lambda>c. c \<noteq> CHR ''='') (b64encode bs))"

definition jwt :: "string \<Rightarrow> string \<Rightarrow> string \<Rightarrow> string" where
  "jwt h t sig = h @ CHR ''.'' # b64url (utf8 t) @ CHR ''.'' # sig"

lemma b64_char_neq: "n < 64 \<Longrightarrow> b64_char n \<noteq> CHR ''.'' \<and> b64_char n \<noteq> CHR ''-'' \<and> b64_char n \<noteq> CHR ''_''"
  using b64_val_char [of n] by (auto simp: b64_val_def)

lemma urlsafe_char [simp]: "n < 64 \<Longrightarrow> urlsafe_in (urlsafe_out (b64_char n)) = b64_char n"
  using b64_char_neq [of n] by (auto simp: urlsafe_in_def urlsafe_out_def)

lemma urlsafe_in_pad: "map urlsafe_in (replicate k (CHR ''='')) = replicate k (CHR ''='')"
  by (simp add: urlsafe_in_def)

lemma b64_char_ascii: "n < 64 \<Longrightarrow> (of_char (b64_char n) :: nat) < 128"
  using b64_val_char [of n] by (auto simp: b64_val_def Let_def split: if_splits)

lemma urlsafe_out_char:
  "n < 64 \<Longrightarrow> urlsafe_out (b64_char n) \<noteq> CHR ''.''"
  "n < 64 \<Longrightarrow> (of_char (urlsafe_out (b64_char n)) :: nat) < 128"
  using b64_char_neq [of n] b64_char_ascii [of n] by (auto simp: urlsafe_out_def)

text \<open>The characters of a part, as sextets.\<close>

fun sextet_list :: "nat list \<Rightarrow> nat list" where
  "sextet_list [] = []"
| "sextet_list [a] = [a div 4, a mod 4 * 16]"
| "sextet_list [a, b] = [a div 4, a mod 4 * 16 + b div 16, b mod 16 * 4]"
| "sextet_list (a # b # c # r) =
     (a div 4) # (a mod 4 * 16 + b div 16) # (b mod 16 * 4 + c div 64) # (c mod 64) # sextet_list r"

lemma b64url_sextets:
  "\<forall>n \<in> set bs. n < 256 \<Longrightarrow>
     b64url bs = map (urlsafe_out \<circ> b64_char) (sextet_list bs) \<and> (\<forall>n \<in> set (sextet_list bs). n < 64)"
proof (induction bs rule: sextet_list.induct)
  case (2 a)
  then have a: "a < 256" by simp
  show ?case using sextets [OF a a a] by (simp add: b64url_def b64_char_plain)
next
  case (3 a b)
  then have ab: "a < 256" "b < 256" by simp_all
  show ?case using sextets [OF ab ab(2)] by (simp add: b64url_def b64_char_plain)
next
  case (4 a b c r)
  then have abc: "a < 256" "b < 256" "c < 256" by simp_all
  show ?case using sextets [OF abc] 4 by (simp add: b64url_def b64_char_plain)
qed (simp add: b64url_def)

lemma pad_length: "nat ((- int (length p + 4)) mod 4) = nat ((- int (length p)) mod 4)"
proof -
  have "(- int (length p + 4)) mod 4 = (- int (length p)) mod 4" by (simp add: mod_simps)
  then show ?thesis by simp
qed

lemma a2b_steps:
  assumes "v < 64"
  shows "a2b_base64 0 left pads acc (b64_char v # cs) = a2b_base64 1 v 0 acc cs"
    and "a2b_base64 1 left pads acc (b64_char v # cs) = a2b_base64 2 (v mod 16) 0 (acc @ [left * 4 + v div 16]) cs"
    and "a2b_base64 2 left pads acc (b64_char v # cs) = a2b_base64 3 (v mod 4) 0 (acc @ [left * 16 + v div 4]) cs"
    and "a2b_base64 3 left pads acc (b64_char v # cs) = a2b_base64 0 0 0 (acc @ [left * 64 + v]) cs"
  using assms by (simp_all add: b64_val_char b64_char_plain)

lemma a2b_pads:
  "a2b_base64 2 left pads acc ''=='' = Inr acc"
  "a2b_base64 3 left pads acc ''='' = Inr acc"
  by simp_all

lemma a2b_sextets:
  "\<forall>n \<in> set bs. n < 256 \<Longrightarrow>
     a2b_base64 0 left pads acc (map b64_char (sextet_list bs) @
       replicate (nat ((- int (length (sextet_list bs))) mod 4)) (CHR ''='')) = Inr (acc @ bs)"
proof (induction bs arbitrary: left pads acc rule: sextet_list.induct)
  case (2 a)
  then have a: "a < 256" by simp
  note x = sextets [OF a a a]
  have "nat ((- int (length (sextet_list [a]))) mod 4) = Suc (Suc 0)" by simp
  then have r: "replicate (nat ((- int (length (sextet_list [a]))) mod 4)) (CHR ''='') = ''==''"
    by (simp only: replicate.simps)
  have "a div 4 * 4 + (a mod 4 * 16) div 16 = a" by simp
  then show ?case
    unfolding r
    unfolding sextet_list.simps list.map append.simps a2b_steps [OF x(1)] a2b_steps [OF x(2)] a2b_pads
    by simp
next
  case (3 a b)
  then have ab: "a < 256" "b < 256" by simp_all
  note x = sextets [OF ab ab(2)]
  have "nat ((- int (length (sextet_list [a, b]))) mod 4) = Suc 0" by simp
  then have r: "replicate (nat ((- int (length (sextet_list [a, b]))) mod 4)) (CHR ''='') = ''=''"
    by (simp only: replicate.simps)
  show ?case
    unfolding r
    unfolding sextet_list.simps list.map append.simps a2b_steps [OF x(1)] a2b_steps [OF x(3)]
      a2b_steps [OF x(4)] a2b_pads x(6,7)
    by simp
next
  case (4 a b c r)
  then have abc: "a < 256" "b < 256" "c < 256" by simp_all
  note x = sextets [OF abc]
  have m: "c mod 64 < 64" by simp
  have l: "nat ((- int (length (sextet_list (a # b # c # r)))) mod 4) = nat ((- int (length (sextet_list r))) mod 4)"
    using pad_length [of "sextet_list r"] by (simp add: add.commute)
  have r: "\<forall>n \<in> set r. n < 256" using "4.prems" by simp
  show ?case
    unfolding l
    unfolding sextet_list.simps list.map append.simps a2b_steps [OF x(1)] a2b_steps [OF x(3)]
      a2b_steps [OF x(5)] a2b_steps [OF m] x(6-9) "4.IH" [OF r]
    by simp
qed simp

lemma urlsafe_b64decode_part:
  assumes "\<forall>n \<in> set bs. n < 256"
  shows "urlsafe_b64decode (pad_payload (b64url bs)) = Inr bs"
proof -
  note s = b64url_sextets [OF assms]
  have p: "pad_payload (b64url bs) =
      map (urlsafe_out \<circ> b64_char) (sextet_list bs) @
      replicate (nat ((- int (length (sextet_list bs))) mod 4)) (CHR ''='')"
    by (simp add: pad_payload_def s)
  have "list_all (\<lambda>c. (of_char c :: nat) < 128) (pad_payload (b64url bs))"
    unfolding p using s urlsafe_out_char(2) by (auto simp: list_all_iff)
  moreover have "map urlsafe_in (pad_payload (b64url bs)) =
      map b64_char (sextet_list bs) @
      replicate (nat ((- int (length (sextet_list bs))) mod 4)) (CHR ''='')"
    unfolding p using s by (simp add: urlsafe_in_pad del: map_replicate)
  ultimately show ?thesis
    using a2b_sextets [OF assms] by (simp add: urlsafe_b64decode_def)
qed

definition b64url_decode :: "string \<Rightarrow> nat list option" where
  "b64url_decode s = (case urlsafe_b64decode (pad_payload s) of Inl _ \<Rightarrow> None | Inr bs \<Rightarrow> Some bs)"

interpretation token_part: codec b64url b64url_decode "\<lambda>bs. \<forall>n \<in> set bs. n < 256"
  by unfold_locales (simp add: b64url_decode_def urlsafe_b64decode_part)

lemma token_payload_jwt: "CHR ''.'' \<notin> set h \<Longrightarrow> token_payload (jwt h t sig) = Inr (b64url (utf8 t))"
proof -
  assume h: "CHR ''.'' \<notin> set h"
  have "CHR ''.'' \<notin> set (b64url (utf8 t))"
    using b64url_sextets [of "utf8 t"] utf8_bytes [of _ t] urlsafe_out_char(1) [THEN not_sym] by auto
  then have "py_split (CHR ''.'') (jwt h t sig) =
      h # b64url (utf8 t) # split_max (CHR ''.'') (length h + length (b64url (utf8 t)) + length sig) sig"
    using h by (simp add: py_split_def jwt_def split_max_append_sep add.assoc del: split_max.simps)
  then show ?thesis by (simp add: token_payload_def)
qed

lemma of_char_0: "(of_char c :: nat) = 0 \<longleftrightarrow> c = CHR 0x00"
proof -
  have "(of_char (CHR 0x00) :: nat) = 0" by simp
  then show ?thesis by (metis of_char_eq_iff)
qed

lemma utf8_head: "utf8 t = n # ns \<Longrightarrow> CHR 0x00 \<notin> set t \<Longrightarrow> 0 < n \<and> n < 196"
  using of_char_0 [of "hd t"] lead_byte_bound [OF nat_of_char_less_256, of "hd t"]
  by (cases t) (auto simp: Let_def split: if_splits)

lemma utf8_no_NUL: "CHR 0x00 \<notin> set t \<Longrightarrow> 0 \<notin> set (utf8 t)"
  by (induction t) (auto simp: Let_def of_char_0 split: if_splits)

lemma decode_json_utf8: "CHR 0x00 \<notin> set t \<Longrightarrow> decode_json_bytes (utf8 t) = Some t"
proof -
  assume t: "CHR 0x00 \<notin> set t"
  note z = utf8_no_NUL [OF t]
  have "detect_encoding (utf8 t) = Utf8"
  proof (cases "utf8 t")
    case (Cons n ns)
    then have n: "0 < n" "n < 196" using utf8_head [OF _ t] by auto
    have "ns = [] \<or> ns ! 0 \<noteq> 0" using z Cons by (cases ns) auto
    then show ?thesis using n Cons by (auto simp: detect_encoding_def)
  qed (simp add: detect_encoding_def)
  then show ?thesis by (simp add: decode_json_bytes_def utf8_decode_utf8)
qed

section \<open>Properties\<close>

text \<open>
  C33: the claims read from a token are the JSON value its issuer encoded in it, for every
  payload text (any base64 padding, characters beyond ASCII included) and whatever the signature is.
\<close>

theorem jwt_roundtrip:
  assumes "CHR ''.'' \<notin> set h" and "CHR 0x00 \<notin> set t" and "json_loads t = Inr v"
  shows "access_token_claims (jwt h t sig) = Inr v"
  using assms
  by (simp add: access_token_claims_def token_payload_jwt urlsafe_b64decode_part utf8_bytes
      json_loads_bytes_def decode_json_utf8)

definition demo_claims :: json where
  "demo_claims = JObj [(''preferred_username'', JStr ''test''), (''roles'', JList [JStr ''viewer''])]"

lemma jwt_roundtrip_witness:
  "access_token_claims (jwt ''eyJhbGciOiJSUzI1NiJ9'' (json_dumps None demo_claims) ''c2ln'') = Inr demo_claims"
proof (rule jwt_roundtrip)
  show "CHR ''.'' \<notin> set ''eyJhbGciOiJSUzI1NiJ9''" by code_simp
  show "CHR 0x00 \<notin> set (json_dumps None demo_claims)" by code_simp
  show "json_loads (json_dumps None demo_claims) = Inr demo_claims"
    by (rule loads_dumps_plain) code_simp
qed

end
