(* ===== verification/Py_Url.thy ===== *)
theory Py_Url
  imports Base64
begin

text \<open>
  What \<open>verify/helpers.py\<close> uses of \<open>urllib.parse\<close>: \<open>urlparse\<close> (the split of a URL), \<open>urljoin\<close> and
  \<open>parse_qs\<close>, as CPython 3.11 has them. Percent-decoding replaces bytes that are no UTF-8; a code point
  beyond the model's characters is represented by the control character SUB.
\<close>

section \<open>Decoding\<close>

definition wide_char :: char where
  "wide_char = CHR 0x1A"

definition is_cont :: "nat \<Rightarrow> bool" where
  "is_cont n \<longleftrightarrow> 128 \<le> n \<and> n < 192"

text \<open>\<open>bytes.decode('utf-8', 'replace')\<close>: a maximal piece of an invalid sequence is replaced as one.\<close>

definition second_ok :: "nat \<Rightarrow> nat \<Rightarrow> bool" where
  "second_ok n m \<longleftrightarrow>
     is_cont m \<and> (n = 224 \<longrightarrow> 160 \<le> m) \<and> (n = 237 \<longrightarrow> m < 160) \<and> (n = 240 \<longrightarrow> 144 \<le> m) \<and> (n = 244 \<longrightarrow> m < 144)"

fun utf8_replace :: "nat list \<Rightarrow> string" where
  "utf8_replace [] = []"
| "utf8_replace (n # ns) =
     (if n < 128 then char_of n # utf8_replace ns
      else if n < 194 \<or> 244 < n then wide_char # utf8_replace ns
      else
        (case ns of
           [] \<Rightarrow> [wide_char]
         | m # ms \<Rightarrow>
             if \<not> second_ok n m then wide_char # utf8_replace ns
             else if n < 196 then char_of ((n - 192) * 64 + (m - 128)) # utf8_replace ms
             else if n < 224 then wide_char # utf8_replace ms
             else
               (case ms of
                  [] \<Rightarrow> [wide_char]
                | k # ks \<Rightarrow>
                    if \<not> is_cont k then wide_char # utf8_replace ms
                    else if n < 240 then wide_char # utf8_replace ks
                    else
                      (case ks of
                         [] \<Rightarrow> [wide_char]
                       | j # js \<Rightarrow> if is_cont j then wide_char # utf8_replace js
                                  else wide_char # utf8_replace ks))))"

fun unquote_to_bytes :: "string \<Rightarrow> nat list" where
  "unquote_to_bytes [] = []"
| "unquote_to_bytes (c # cs) =
     (case cs of
        a # b # r \<Rightarrow>
          if c = CHR ''%'' \<and> is_hex a \<and> is_hex b then (16 * hex_val a + hex_val b) # unquote_to_bytes r
          else of_char c # unquote_to_bytes cs
      | _ \<Rightarrow> of_char c # unquote_to_bytes cs)"

text \<open>\<open>unquote\<close> decodes each run of ASCII characters on its own and keeps the others.\<close>

fun unquote_run :: "string \<Rightarrow> string \<Rightarrow> string" where
  "unquote_run run [] = utf8_replace (unquote_to_bytes run)"
| "unquote_run run (c # cs) =
     (if (of_char c :: nat) < 128 then unquote_run (run @ [c]) cs
      else utf8_replace (unquote_to_bytes run) @ c # unquote_run [] cs)"

definition unquote :: "string \<Rightarrow> string" where
  "unquote s = unquote_run [] s"

text \<open>\<open>parse_qs\<close>: fields without a value, or with an empty one, are dropped.\<close>

definition qs_field :: "string \<Rightarrow> (string \<times> string) list" where
  "qs_field f =
     (case split_max (CHR ''='') 1 f of
        [k, v] \<Rightarrow>
          if v = [] then []
          else [(unquote (map (\<lambda>c. if c = CHR ''+'' then CHR '' '' else c) k),
                 unquote (map (\<lambda>c. if c = CHR ''+'' then CHR '' '' else c) v))]
      | _ \<Rightarrow> [])"

definition parse_qs :: "string \<Rightarrow> (string, string list) dict" where
  "parse_qs q =
     fold (\<lambda>(k, v) d. dset k (dget_or d k [] @ [v]) d) (concat (map qs_field (py_split (CHR ''&'') q))) []"

definition qs_first :: "(string, string list) dict \<Rightarrow> string \<Rightarrow> string option" where
  "qs_first qs k = (case dget qs k of Some (v # _) \<Rightarrow> Some v | _ \<Rightarrow> None)"

section \<open>Splitting and joining URLs\<close>

record split_url =
  us_scheme :: string
  us_netloc :: string
  us_path :: string
  us_params :: string
  us_query :: string
  us_fragment :: string

definition uses_params :: "string list" where
  "uses_params = ['''', ''ftp'', ''hdl'', ''prospero'', ''http'', ''https'', ''shttp'', ''rtsp'', ''rtsps'', ''rtspu'',
     ''sip'', ''sips'', ''mms'', ''sftp'', ''tel'']"

definition uses_relative :: "string list" where
  "uses_relative = ['''', ''ftp'', ''http'', ''gopher'', ''nntp'', ''imap'', ''wais'', ''file'', ''https'', ''shttp'',
     ''mms'', ''prospero'', ''rtsp'', ''rtsps'', ''rtspu'', ''sftp'', ''svn'', ''svn+ssh'', ''ws'', ''wss'']"

definition uses_netloc :: "string list" where
  "uses_netloc = ['''', ''ftp'', ''http'', ''gopher'', ''nntp'', ''telnet'', ''imap'', ''wais'', ''file'', ''mms'',
     ''https'', ''shttp'', ''snews'', ''prospero'', ''rtsp'', ''rtsps'', ''rtspu'', ''rsync'', ''svn'', ''svn+ssh'',
     ''sftp'', ''nfs'', ''git'', ''git+ssh'', ''ws'', ''wss'']"

text \<open>The text before and after the first occurrence of a character.\<close>

definition cut_at :: "char \<Rightarrow> string \<Rightarrow> string \<times> string" where
  "cut_at c s = (takeWhile (\<lambda>x. x \<noteq> c) s, drop 1 (dropWhile (\<lambda>x. x \<noteq> c) s))"

text \<open>The parameters of the last path segment.\<close>

definition split_params :: "string \<Rightarrow> string \<times> string" where
  "split_params p =
     (let seg = rev (takeWhile (\<lambda>c. c \<noteq> CHR ''/'') (rev p));
          before = take (length p - length seg) p
      in if CHR '';'' \<in> set seg then (before @ fst (cut_at (CHR '';'') seg), snd (cut_at (CHR '';'') seg))
         else (p, []))"

definition urlparse :: "string \<Rightarrow> string \<Rightarrow> split_url res" where
  "urlparse url default_scheme =
     (let u = url_clean url;
          r = after_scheme u;
          scheme = (if r = u then default_scheme else py_lower (take (length u - Suc (length r)) u))
      in res_bind (netloc url) (\<lambda>n.
         let r1 = (if prefix ''//'' r then drop (2 + length n) r else r);
             (r2, fragment) = cut_at (CHR ''#'') r1;
             (path, query) = cut_at (CHR ''?'') r2;
             (path', params) = (if scheme \<in> set uses_params then split_params path else (path, []))
         in Inr \<lparr>us_scheme = scheme, us_netloc = n, us_path = path', us_params = params,
                 us_query = query, us_fragment = fragment\<rparr>))"

definition urlunparse :: "split_url \<Rightarrow> string" where
  "urlunparse s =
     (let p = (if us_params s = [] then us_path s else us_path s @ CHR '';'' # us_params s);
          p1 = (if us_netloc s \<noteq> [] \<or> (us_scheme s \<noteq> [] \<and> us_scheme s \<in> set uses_netloc \<and> \<not> prefix ''//'' p)
                then ''//'' @ us_netloc s @ (if p \<noteq> [] \<and> hd p \<noteq> CHR ''/'' then CHR ''/'' # p else p)
                else p);
          p2 = (if us_scheme s = [] then p1 else us_scheme s @ CHR '':'' # p1);
          p3 = (if us_query s = [] then p2 else p2 @ CHR ''?'' # us_query s)
      in if us_fragment s = [] then p3 else p3 @ CHR ''#'' # us_fragment s)"

text \<open>
  \<open>urljoin\<close>: the segments of the base path without its last one, then those of the reference, with empty
  segments in between dropped and dot segments resolved.
\<close>

definition base_segments :: "string \<Rightarrow> string list" where
  "base_segments p =
     (let parts = py_split (CHR ''/'') p in if last parts \<noteq> [] then butlast parts else parts)"

definition join_segments :: "string \<Rightarrow> string \<Rightarrow> string list" where
  "join_segments bpath path =
     (if prefix ''/'' path then py_split (CHR ''/'') path
      else
        (let segs = base_segments bpath @ py_split (CHR ''/'') path
         in if length segs < 2 then segs
            else hd segs # filter (\<lambda>s. s \<noteq> []) (butlast (tl segs)) @ [last segs]))"

definition resolve_segment :: "string \<Rightarrow> string list \<Rightarrow> string list" where
  "resolve_segment seg acc =
     (if seg = ''..'' then butlast acc else if seg = ''.'' then acc else acc @ [seg])"

definition resolve_path :: "string list \<Rightarrow> string" where
  "resolve_path segs =
     (let acc = fold resolve_segment segs [];
          acc' = (if last segs = ''.'' \<or> last segs = ''..'' then acc @ [[]] else acc);
          p = py_join ''/'' acc'
      in if p = [] then ''/'' else p)"

definition urljoin :: "string \<Rightarrow> string \<Rightarrow> string res" where
  "urljoin base url =
     (if base = [] then Inr url else if url = [] then Inr base
      else
        res_bind (urlparse base []) (\<lambda>b.
        res_bind (urlparse url (us_scheme b)) (\<lambda>u.
        if us_scheme u \<noteq> us_scheme b \<or> us_scheme u \<notin> set uses_relative then Inr url
        else if us_scheme u \<in> set uses_netloc \<and> us_netloc u \<noteq> [] then Inr (urlunparse u)
        else
          let u1 = (if us_scheme u \<in> set uses_netloc then u\<lparr>us_netloc := us_netloc b\<rparr> else u)
          in if us_path u = [] \<and> us_params u = [] then
               Inr (urlunparse (u1\<lparr>us_path := us_path b, us_params := us_params b,
                                   us_query := if us_query u = [] then us_query b else us_query u\<rparr>))
             else Inr (urlunparse (u1\<lparr>us_path := resolve_path (join_segments (us_path b) (us_path u))\<rparr>)))))"

end
