(* ===== verification/Py_Html.thy ===== *)
theory Py_Html
  imports Py_Url
begin

text \<open>
  What \<open>verify/helpers.py\<close> reads out of a login page: \<open>html.unescape\<close>, with the table of named references
  (\<open>html.entities.html5\<close>) as a parameter, and the regular expressions that find input tags, attributes and
  the action of a form. Each expression is a search for its leftmost match, with the backtracking it does.
\<close>

section \<open>html.unescape\<close>

definition one_to_one_controls :: "nat list" where
  "one_to_one_controls = [0x81, 0x8D, 0x8F, 0x90, 0x9D]"

definition char_of_code :: "nat \<Rightarrow> char" where
  "char_of_code n = (if n < 256 then char_of n else wide_char)"

text \<open>
  A numeric reference: code points of Windows-1252 for 128 to 159, nothing for the other control characters
  and the noncharacters.
\<close>

definition invalid_code :: "nat \<Rightarrow> bool" where
  "invalid_code n \<longleftrightarrow>
     (1 \<le> n \<and> n \<le> 8) \<or> n = 11 \<or> (14 \<le> n \<and> n \<le> 31) \<or> (127 \<le> n \<and> n \<le> 159) \<or>
     (0xFDD0 \<le> n \<and> n \<le> 0xFDEF) \<or> (n mod 0x10000 = 0xFFFE \<or> n mod 0x10000 = 0xFFFF)"

definition numeric_ref :: "nat \<Rightarrow> string" where
  "numeric_ref n =
     (if n = 0 then [wide_char]
      else if n = 13 then [CHR 0x0D]
      else if 128 \<le> n \<and> n \<le> 159 then [if n \<in> set one_to_one_controls then char_of n else wide_char]
      else if (0xD800 \<le> n \<and> n \<le> 0xDFFF) \<or> n > 0x10FFFF then [wide_char]
      else if invalid_code n then []
      else [char_of_code n])"

text \<open>The longest prefix of at least two characters that names a reference, or the text as it was.\<close>

fun longest_name :: "(string \<Rightarrow> string option) \<Rightarrow> string \<Rightarrow> nat \<Rightarrow> string" where
  "longest_name tab s n =
     (if n < 2 then CHR ''&'' # s
      else case tab (take n s) of
             Some v \<Rightarrow> v @ drop n s
           | None \<Rightarrow> (case n of 0 \<Rightarrow> CHR ''&'' # s | Suc m \<Rightarrow> longest_name tab s m))"

definition named_ref :: "(string \<Rightarrow> string option) \<Rightarrow> string \<Rightarrow> string" where
  "named_ref tab s = (case tab s of Some v \<Rightarrow> v | None \<Rightarrow> longest_name tab s (length s - 1))"

definition hex_num :: "string \<Rightarrow> nat" where
  "hex_num ds = foldl (\<lambda>a c. 16 * a + hex_val c) 0 ds"

definition name_char :: "char \<Rightarrow> bool" where
  "name_char c \<longleftrightarrow> c \<notin> {CHR 0x09, newline, CHR 0x0C, CHR '' '', CHR ''<'', CHR ''&'', CHR ''#'', CHR '';''}"

definition skip_semi :: "string \<Rightarrow> string" where
  "skip_semi s = (case s of c # r \<Rightarrow> if c = CHR '';'' then r else s | [] \<Rightarrow> [])"

text \<open>What follows an ampersand: the replacement and the rest, when it is a reference.\<close>

definition charref :: "(string \<Rightarrow> string option) \<Rightarrow> string \<Rightarrow> (string \<times> string) option" where
  "charref tab s =
     (if prefix ''#'' s \<and> takeWhile is_digit (drop 1 s) \<noteq> [] then
        Some (numeric_ref (dec_val (takeWhile is_digit (drop 1 s))), skip_semi (dropWhile is_digit (drop 1 s)))
      else if (prefix ''#x'' s \<or> prefix ''#X'' s) \<and> takeWhile is_hex (drop 2 s) \<noteq> [] then
        Some (numeric_ref (hex_num (takeWhile is_hex (drop 2 s))), skip_semi (dropWhile is_hex (drop 2 s)))
      else
        (let name = take 32 (takeWhile name_char s); r = drop (length name) s
         in if name = [] then None
            else Some (named_ref tab (name @ take (length r - length (skip_semi r)) r), skip_semi r)))"

lemma length_skip_semi: "length (skip_semi s) \<le> length s"
  by (simp add: skip_semi_def split: list.split)

lemma charref_decreases: "charref tab s = Some (v, r) \<Longrightarrow> length r \<le> length s"
proof -
  assume c: "charref tab s = Some (v, r)"
  have "length (skip_semi (dropWhile p (drop k s))) \<le> length s" for p k
    using length_skip_semi [of "dropWhile p (drop k s)"] length_dropWhile_le [of p "drop k s"] by simp
  moreover have "length (skip_semi (drop k s)) \<le> length s" for k
    using length_skip_semi [of "drop k s"] by simp
  ultimately show ?thesis using c by (auto simp: charref_def Let_def split: if_splits)
qed

function html_unescape :: "(string \<Rightarrow> string option) \<Rightarrow> string \<Rightarrow> string" where
  "html_unescape tab [] = []"
| "html_unescape tab (c # cs) =
     (if c = CHR ''&'' then
        (case charref tab cs of
           None \<Rightarrow> c # html_unescape tab cs
         | Some (v, r) \<Rightarrow> v @ html_unescape tab r)
      else c # html_unescape tab cs)"
  by pat_completeness auto
termination
  by (relation "measure (\<lambda>(tab, s). length s)") (auto dest: charref_decreases)

lemma html_unescape_plain: "CHR ''&'' \<notin> set s \<Longrightarrow> html_unescape tab s = s"
  by (induction s) auto

section \<open>Tags and attributes\<close>

definition word_char :: "char \<Rightarrow> bool" where
  "word_char c \<longleftrightarrow>
     (let n = (of_char c :: nat) in
      is_alpha c \<or> is_digit c \<or> c = CHR ''_'' \<or> n \<in> {170, 178, 179, 181, 185, 186, 188, 189, 190} \<or>
      (192 \<le> n \<and> n \<noteq> 215 \<and> n \<noteq> 247))"

text \<open>The tags that \<open><input\b[^>]*>\<close> matches, one after the other.\<close>

definition input_tag :: "string \<Rightarrow> (string \<times> string) option" where
  "input_tag s =
     (let r = drop 6 s; body = takeWhile (\<lambda>c. c \<noteq> CHR ''>'') r in
      if prefix ''<input'' s \<and> \<not> (r \<noteq> [] \<and> word_char (hd r)) \<and> length body < length r
      then Some (''<input'' @ body @ ''>'', drop (Suc (length body)) r) else None)"

function input_tags :: "string \<Rightarrow> string list" where
  "input_tags [] = []"
| "input_tags (c # cs) =
     (case input_tag (c # cs) of
        Some (tag, r) \<Rightarrow> tag # input_tags r
      | None \<Rightarrow> input_tags cs)"
  by pat_completeness auto
termination
  by (relation "measure length") (auto simp: input_tag_def Let_def split: if_splits)

text \<open>
  A literal, then a value up to the next double quote: at a position, and at the leftmost position of a text
  (\<open>lit([^"]*)"\<close>).
\<close>

definition attr_at :: "string \<Rightarrow> (string \<Rightarrow> bool) \<Rightarrow> string \<Rightarrow> string option" where
  "attr_at lit ok s =
     (let u = drop (length lit) s; v = takeWhile (\<lambda>c. c \<noteq> dquote) u in
      if prefix lit s \<and> length v < length u \<and> ok v then Some v else None)"

fun search_attr :: "string \<Rightarrow> string \<Rightarrow> string option" where
  "search_attr lit [] = None"
| "search_attr lit (c # cs) =
     (case attr_at lit (\<lambda>_. True) (c # cs) of
        Some v \<Rightarrow> Some v
      | None \<Rightarrow> search_attr lit cs)"

text \<open>
  The leftmost match of a start, a greedy run of characters other than \<open>>\<close> (of at least the given length),
  a literal and a value: within a match of the start the last possible place of the literal counts.
\<close>

fun last_attr :: "string \<Rightarrow> (string \<Rightarrow> bool) \<Rightarrow> nat \<Rightarrow> string \<Rightarrow> nat \<Rightarrow> string option" where
  "last_attr lit ok least s k =
     (if k < least then None
      else case attr_at lit ok (drop k s) of
             Some v \<Rightarrow> Some v
           | None \<Rightarrow> (case k of 0 \<Rightarrow> None | Suc j \<Rightarrow> last_attr lit ok least s j))"

fun search_tag_attr :: "string \<Rightarrow> nat \<Rightarrow> string \<Rightarrow> (string \<Rightarrow> bool) \<Rightarrow> string \<Rightarrow> string option" where
  "search_tag_attr start least lit ok [] = None"
| "search_tag_attr start least lit ok (c # cs) =
     (let r = drop (length start) (c # cs) in
      case (if prefix start (c # cs)
            then last_attr lit ok least r (length (takeWhile (\<lambda>x. x \<noteq> CHR ''>'') r)) else None) of
        Some v \<Rightarrow> Some v
      | None \<Rightarrow> search_tag_attr start least lit ok cs)"

definition form_action :: "string \<Rightarrow> string option" where
  "form_action page = search_tag_attr ''<form'' 1 (''action='' @ [dquote]) (\<lambda>v. v \<noteq> []) page"

definition openid_form_action :: "string \<Rightarrow> string option" where
  "openid_form_action page =
     search_tag_attr ''<form'' 1 (''action='' @ [dquote]) (\<lambda>v. py_in ''openid_connect'' v) page"

definition authenticity_token :: "string \<Rightarrow> string option" where
  "authenticity_token page =
     search_tag_attr (''name='' @ dquote # ''authenticity_token'' @ [dquote]) 0 (''value='' @ [dquote]) (\<lambda>_. True) page"

section \<open>The title of a page\<close>

text \<open>\<open>s.split(sep, 1)\<close> with a separator of several characters: what is before and after it.\<close>

fun split_once :: "string \<Rightarrow> string \<Rightarrow> string \<times> string option" where
  "split_once sep [] = (if sep = [] then ([], Some []) else ([], None))"
| "split_once sep (c # cs) =
     (if prefix sep (c # cs) then ([], Some (drop (length sep) (c # cs)))
      else apfst ((#) c) (split_once sep cs))"

definition page_title :: "string \<Rightarrow> string" where
  "page_title page =
     (if py_in ''<title>'' page then
        fst (split_once ''</title>'' (case split_once ''<title>'' page of (_, Some r) \<Rightarrow> r | (b, None) \<Rightarrow> b))
      else [])"

end
