(* ===== verification/Verify_Web.thy ===== *)
theory Verify_Web
  imports Verify_Env Verify_Token Py_Html
begin

text \<open>
  The web flows of \<open>verify/helpers.py\<close>: the headless browser login at Keycloak, the token grants and the
  admin API, the single sign-on of Grafana and GitLab, the two proxied UIs (Hubble and the Traefik
  dashboard), and the OpenBao API. Sessions and responses come from \<open>requests\<close>; what the code reads out of
  them is modelled here.
\<close>

section \<open>Requests\<close>

definition plain_get :: "string \<Rightarrow> bool \<Rightarrow> int \<Rightarrow> web_request" where
  "plain_get url redirects timeout =
     \<lparr>wq_method = ''GET'', wq_url = url, wq_params = [], wq_form = [], wq_json = None, wq_headers = [],
      wq_redirects = redirects, wq_timeout = timeout\<rparr>"

definition session_get :: "'w platform \<Rightarrow> web_session \<Rightarrow> string \<Rightarrow> bool \<Rightarrow> int \<Rightarrow> ('w, web_response) io" where
  "session_get P s url redirects timeout = web P (Inr s) (plain_get url redirects timeout)"

definition header :: "web_response \<Rightarrow> string \<Rightarrow> string option" where
  "header r name = map_option snd (find (\<lambda>(k, v). py_lower k = py_lower name) (wr_headers r))"

definition location_of :: "web_response \<Rightarrow> string" where
  "location_of r = (case header r ''Location'' of None \<Rightarrow> [] | Some l \<Rightarrow> l)"

definition location_item :: "web_response \<Rightarrow> string res" where
  "location_item r = (case header r ''Location'' of None \<Rightarrow> throw KeyError ''location'' | Some l \<Rightarrow> Inr l)"

definition redirected :: "web_response \<Rightarrow> bool" where
  "redirected r \<longleftrightarrow> wr_status r \<in> {302, 303}"

definition raise_for_status :: "web_response \<Rightarrow> unit res" where
  "raise_for_status r =
     (if 400 \<le> wr_status r \<and> wr_status r < 600
      then throw OSError (int_str (wr_status r) @ '' Error for url: '' @ wr_url r) else Inr ())"

definition assert :: "bool \<Rightarrow> string \<Rightarrow> ('w, unit) io" where
  "assert b msg = (if b then ret () else raise (Exn AssertionError msg))"

section \<open>Keycloak\<close>

definition kc_base :: string where
  "kc_base = ''https://sso.k8s.dev.lo''"

definition kc_auth_url :: string where
  "kc_auth_url = kc_base @ ''/realms/dev-lo/protocol/openid-connect/auth''"

definition kc_token_url :: string where
  "kc_token_url = kc_base @ ''/realms/dev-lo/protocol/openid-connect/token''"

definition kc_admin_api :: string where
  "kc_admin_api = kc_base @ ''/admin/realms/dev-lo''"

definition spe :: "(string, string \<times> string) dict" where
  "spe =
     [(''grafana'', (''https://grafana.k8s.dev.lo/login/generic_oauth'', ''OIDC_CLIENT_SECRET_GRAFANA'')),
      (''longhorn'', (''https://longhorn.k8s.dev.lo/oauth2/callback'', ''OIDC_CLIENT_SECRET_LONGHORN'')),
      (''openbao'', (''http://localhost:8250/oidc/callback'', ''OIDC_CLIENT_SECRET_OPENBAO'')),
      (''hubble'', (''https://hubble.k8s.dev.lo/oauth2/callback'', ''OIDC_CLIENT_SECRET_HUBBLE'')),
      (''traefik'', (''https://traefik.k8s.dev.lo/oauth2/callback'', ''OIDC_CLIENT_SECRET_TRAEFIK''))]"

record keycloak_result =
  kr_ok :: bool
  kr_code :: "string option"
  kr_state :: "string option"
  kr_location :: "string option"
  kr_detail :: string

definition hidden_field :: "(string \<Rightarrow> string option) \<Rightarrow> string \<Rightarrow> (string, string) dict \<Rightarrow> (string, string) dict" where
  "hidden_field tab tag acc =
     (if \<not> py_in (''type='' @ dquote # ''hidden'' @ [dquote]) tag then acc
      else case search_attr (''name='' @ [dquote]) tag of
             None \<Rightarrow> acc
           | Some n \<Rightarrow>
               dset (html_unescape tab n)
                 (html_unescape tab (case search_attr (''value='' @ [dquote]) tag of None \<Rightarrow> [] | Some v \<Rightarrow> v)) acc)"

definition hidden_fields :: "(string \<Rightarrow> string option) \<Rightarrow> string \<Rightarrow> (string, string) dict" where
  "hidden_fields tab page = fold (hidden_field tab) (input_tags page) []"

definition parse_form :: "(string \<Rightarrow> string option) \<Rightarrow> web_response \<Rightarrow> string \<times> (string, string) dict" where
  "parse_form tab page =
     (case form_action (wr_text page) of Some a \<Rightarrow> html_unescape tab a | None \<Rightarrow> wr_url page,
      hidden_fields tab (wr_text page))"

text \<open>The code and the state that a redirect carries; an empty or missing code is \<open>None\<close>.\<close>

definition redirect_code :: "string \<Rightarrow> (string \<times> string option) option res" where
  "redirect_code loc =
     res_bind (urlparse loc []) (\<lambda>u.
     let qs = parse_qs (us_query u) in
     Inr (case qs_first qs ''code'' of
            Some (c # cs) \<Rightarrow> Some (c # cs, qs_first qs ''state'')
          | _ \<Rightarrow> None))"

definition redirect_result :: "string \<Rightarrow> string \<Rightarrow> keycloak_result res" where
  "redirect_result loc failure =
     res_bind (redirect_code loc) (\<lambda>found.
     Inr (case found of
            Some (code, state) \<Rightarrow>
              \<lparr>kr_ok = True, kr_code = Some code, kr_state = state, kr_location = Some loc, kr_detail = []\<rparr>
          | None \<Rightarrow>
              \<lparr>kr_ok = False, kr_code = None, kr_state = None, kr_location = Some loc, kr_detail = failure\<rparr>))"

definition login_form :: "(string, string) dict \<Rightarrow> string \<Rightarrow> string \<Rightarrow> (string, string) dict" where
  "login_form hidden username password =
     dset ''credentialId'' (dget_or hidden ''credentialId'' [])
       (dset ''password'' password (dset ''username'' username hidden))"

definition login_post :: "string \<Rightarrow> (string, string) dict \<Rightarrow> web_request" where
  "login_post target form =
     \<lparr>wq_method = ''POST'', wq_url = target, wq_params = [], wq_form = form, wq_json = None, wq_headers = [],
      wq_redirects = False, wq_timeout = 30\<rparr>"

text \<open>The result that ends the flow, or the next page.\<close>

definition submit_login_form ::
  "'w platform \<Rightarrow> web_session \<Rightarrow> web_response \<Rightarrow> string \<Rightarrow> string \<Rightarrow> ('w, keycloak_result + web_response) io" where
  "submit_login_form P s page username password =
     (let (action, hidden) = parse_form (p_html5 P) page in
      io_bind (lift (urljoin (wr_url page) action)) (\<lambda>target.
      io_bind (web P (Inr s) (login_post target (login_form hidden username password))) (\<lambda>nxt.
      if redirected nxt then
        (let loc = location_of nxt in
         if \<not> py_in ''login-actions'' loc then
           io_bind (lift (redirect_result loc ''redirect out of Keycloak without a code parameter'')) (\<lambda>r. ret (Inl r))
         else
           io_bind (lift (urljoin (wr_url page) loc)) (\<lambda>url.
           io_bind (session_get P s url False 30) (\<lambda>next_page. ret (Inr next_page))))
      else ret (Inr nxt))))"

definition login_query :: "string option \<Rightarrow> string option \<Rightarrow> web_request" where
  "login_query client_id redirect_uri =
     (plain_get kc_auth_url False 30)
       \<lparr>wq_params := [(''client_id'', client_id), (''response_type'', Some ''code''), (''redirect_uri'', redirect_uri),
          (''scope'', Some ''openid profile email''), (''state'', Some ''verify-state'')]\<rparr>"

definition hop_to_login :: "'w platform \<Rightarrow> web_session \<Rightarrow> web_response \<Rightarrow> ('w, web_response) io" where
  "hop_to_login P s resp =
     (if redirected resp then
        (let hop = location_of resp in
         if py_in ''login'' hop \<or> prefix ''/'' hop then
           io_bind (lift (if prefix ''/'' hop then urljoin kc_base hop else Inr hop)) (\<lambda>url.
           session_get P s url False 30)
         else ret resp)
      else ret resp)"

text \<open>The loop over the login form and the second challenge form, with the forms left as fuel.\<close>

fun login_forms :: "'w platform \<Rightarrow> web_session \<Rightarrow> string \<Rightarrow> string \<Rightarrow> nat \<Rightarrow> web_response \<Rightarrow> ('w, keycloak_result) io" where
  "login_forms P s username password 0 page =
     ret \<lparr>kr_ok = False, kr_code = None, kr_state = None, kr_location = Some (wr_url page),
          kr_detail = ''flow stayed on a Keycloak login page''\<rparr>"
| "login_forms P s username password (Suc n) page =
     io_bind (submit_login_form P s page username password) (\<lambda>r.
     case r of
       Inl result \<Rightarrow> ret result
     | Inr page' \<Rightarrow> login_forms P s username password n page')"

definition keycloak_login ::
  "'w platform \<Rightarrow> web_session \<Rightarrow> string \<Rightarrow> string \<Rightarrow> string option \<Rightarrow> string option \<Rightarrow> string option \<Rightarrow>
     ('w, keycloak_result) io" where
  "keycloak_login P s username password client_id redirect_uri auth_url =
     io_bind (case auth_url of
                Some url \<Rightarrow> session_get P s url False 30
              | None \<Rightarrow> web P (Inr s) (login_query client_id redirect_uri)) (\<lambda>resp0.
     io_bind (hop_to_login P s resp0) (\<lambda>resp.
     if redirected resp then
       lift (redirect_result (location_of resp) ''redirected away from the login flow without a code'')
     else login_forms P s username password 2 resp))"

text \<open>Token grants: a POST of its own, verified against the domain CA.\<close>

definition token_post :: "string \<Rightarrow> (string, string) dict \<Rightarrow> web_request" where
  "token_post url form = (login_post url form)\<lparr>wq_redirects := True\<rparr>"

definition exchange_code :: "'w platform \<Rightarrow> string \<Rightarrow> string \<Rightarrow> string \<Rightarrow> ('w, json) io" where
  "exchange_code P client_id code redirect_uri =
     io_bind (lift (ditem spe client_id)) (\<lambda>client.
     io_bind (lift (env_var P (snd client))) (\<lambda>secret.
     io_bind (web P (Inl (ca_path P)) (token_post kc_token_url
       [(''grant_type'', ''authorization_code''), (''code'', code), (''client_id'', client_id),
        (''client_secret'', secret), (''redirect_uri'', redirect_uri)])) (\<lambda>resp.
     if wr_status resp \<noteq> 200 then
       raise (Exn RuntimeError (''token exchange for '' @ client_id @ '' failed ('' @ int_str (wr_status resp) @ ''): '' @
         first_n 300 (wr_text resp)))
     else lift (wr_json resp))))"

definition keycloak_admin_token :: "'w platform \<Rightarrow> ('w, json) io" where
  "keycloak_admin_token P =
     io_bind (lift (env_var P ''KEYCLOAK_ADMIN_PASSWORD'')) (\<lambda>password.
     io_bind (web P (Inl (ca_path P)) (token_post (kc_base @ ''/realms/master/protocol/openid-connect/token'')
       [(''grant_type'', ''password''), (''client_id'', ''admin-cli''), (''username'', ''admin''),
        (''password'', password)])) (\<lambda>resp.
     if wr_status resp \<noteq> 200 then
       raise (Exn RuntimeError (''admin token grant failed ('' @ int_str (wr_status resp) @ ''): '' @
         first_n 300 (wr_text resp)))
     else io_bind (lift (wr_json resp)) (\<lambda>v. lift (jitem v ''access_token''))))"

definition bearer :: "json \<Rightarrow> (string, string) dict" where
  "bearer token = [(''Authorization'', ''Bearer '' @ py_str token)]"

definition keycloak_admin_get :: "'w platform \<Rightarrow> string \<Rightarrow> ('w, web_response) io" where
  "keycloak_admin_get P path =
     io_bind (make_session P) (\<lambda>s.
     io_bind (keycloak_admin_token P) (\<lambda>token.
     web P (Inr s) ((plain_get (kc_admin_api @ path) True 30)\<lparr>wq_headers := bearer token\<rparr>)))"

definition keycloak_clear_user_cache :: "'w platform \<Rightarrow> ('w, unit) io" where
  "keycloak_clear_user_cache P =
     io_bind (make_session P) (\<lambda>s.
     io_bind (keycloak_admin_token P) (\<lambda>token.
     io_bind (web P (Inr s) ((token_post (kc_admin_api @ ''/clear-user-cache'') [])\<lparr>wq_headers := bearer token\<rparr>)) (\<lambda>resp.
     assert (wr_status resp = 204) (''clear-user-cache gave '' @ int_str (wr_status resp) @ '': '' @
       first_n 200 (wr_text resp)))))"

section \<open>OpenBao\<close>

definition bao_base :: string where
  "bao_base = ''https://bao.k8s.dev.lo''"

definition bao_api ::
  "'w platform \<Rightarrow> string \<Rightarrow> string option \<Rightarrow> string \<Rightarrow> json option \<Rightarrow> int list \<Rightarrow> ('w, web_response) io" where
  "bao_api P path token meth json_body accepted =
     io_bind (make_session P) (\<lambda>s.
     io_bind (lift (case token of Some (c # cs) \<Rightarrow> Inr (c # cs) | _ \<Rightarrow> env_var P ''OPENBAO_ROOT_TOKEN'')) (\<lambda>tok.
     io_bind (web P (Inr s) ((plain_get (bao_base @ path) True 30)
       \<lparr>wq_method := meth, wq_headers := [(''X-Vault-Token'', tok)], wq_json := json_body\<rparr>)) (\<lambda>resp.
     if wr_status resp \<notin> set accepted then
       raise (Exn RuntimeError (''OpenBao '' @ meth @ '' '' @ path @ '' gave '' @ int_str (wr_status resp) @ '' ('' @
         first_n 200 (wr_text resp) @ '')''))
     else ret resp)))"

definition data_data :: "web_response \<Rightarrow> json res" where
  "data_data resp = res_bind (wr_json resp) (\<lambda>v. res_bind (jitem v ''data'') (\<lambda>d. jitem d ''data''))"

definition bao_kv_data :: "'w platform \<Rightarrow> string \<Rightarrow> ('w, json) io" where
  "bao_kv_data P path =
     io_bind (bao_api P (''/v1/kv/data/'' @ path) None ''GET'' None [200]) (\<lambda>resp. lift (data_data resp))"

text \<open>\<open>key in data\<close>, for the value the API answers.\<close>

definition json_has :: "json \<Rightarrow> string \<Rightarrow> bool res" where
  "json_has v k =
     (case v of
        JObj ms \<Rightarrow> Inr (k \<in> set (dkeys ms))
      | JStr s \<Rightarrow> Inr (py_in k s)
      | JList xs \<Rightarrow> Inr (list_ex (\<lambda>x. jeq x (JStr k)) xs)
      | _ \<Rightarrow> throw TypeError ''argument is not iterable'')"

definition missing_keys :: "string \<Rightarrow> json \<Rightarrow> string list \<Rightarrow> string list res" where
  "missing_keys path data ks =
     res_bind (res_filter (\<lambda>k. res_bind (json_has data k) (\<lambda>b. Inr (\<not> b))) ks) (\<lambda>absent.
     Inr (map (\<lambda>k. path @ '': missing key '' @ k) absent))"

definition kv_gaps :: "'w platform \<Rightarrow> string \<times> string list \<Rightarrow> ('w, string list) io" where
  "kv_gaps P expected =
     (case expected of (path, ks) \<Rightarrow>
        io_bind
          (io_except [RuntimeError] (io_bind (bao_kv_data P path) (\<lambda>data. ret (Inr data)))
             (\<lambda>exc. ret (Inl (path @ '': '' @ exn_msg exc)))) (\<lambda>r.
        case r of
          Inl gap \<Rightarrow> ret [gap]
        | Inr data \<Rightarrow> lift (missing_keys path data ks)))"

definition bao_kv_keys_present :: "'w platform \<Rightarrow> (string \<times> string list) list \<Rightarrow> ('w, unit) io" where
  "bao_kv_keys_present P expected =
     io_bind (io_map (kv_gaps P) expected) (\<lambda>gaps.
     assert (concat gaps = []) (''OpenBao KV gaps: '' @ py_join ''; '' (concat gaps)))"

section \<open>Grafana\<close>

definition grafana_base :: string where
  "grafana_base = ''https://grafana.k8s.dev.lo''"

definition grafana_credentials :: "'w platform \<Rightarrow> ('w, json \<times> json) io" where
  "grafana_credentials P =
     io_bind (lift (env_var P ''OPENBAO_ROOT_TOKEN'')) (\<lambda>root.
     io_bind (make_session P) (\<lambda>s.
     io_bind (web P (Inr s) ((plain_get (bao_base @ ''/v1/kv/data/grafana'') True 30)
       \<lparr>wq_headers := [(''X-Vault-Token'', root)]\<rparr>)) (\<lambda>resp.
     io_then (lift (raise_for_status resp))
     (io_bind (lift (data_data resp)) (\<lambda>data.
      io_bind (lift (jitem data ''username'')) (\<lambda>u.
      io_bind (lift (jitem data ''password'')) (\<lambda>p. ret (u, p))))))))"

definition login_failed :: "keycloak_result \<Rightarrow> string" where
  "login_failed r =
     ''Keycloak login failed: '' @ kr_detail r @ '' (loc='' @
       (case kr_location r of None \<Rightarrow> ''None'' | Some l \<Rightarrow> l) @ '')''"

text \<open>The login that rides the service's own authorization request, and the page it ends on.\<close>

definition ride_login :: "'w platform \<Rightarrow> web_session \<Rightarrow> web_response \<Rightarrow> string \<Rightarrow> string \<Rightarrow> ('w, unit) io" where
  "ride_login P s resp username password =
     io_bind (lift (location_item resp)) (\<lambda>loc.
     io_bind (lift (urljoin (wr_url resp) loc)) (\<lambda>auth_url.
     io_bind (keycloak_login P s username password None None (Some auth_url)) (\<lambda>result.
     io_then (assert (kr_ok result) (login_failed result))
     (io_bind (session_get P s (case kr_location result of None \<Rightarrow> [] | Some l \<Rightarrow> l) True 60) (\<lambda>final.
      assert (wr_status final = 200) (''post-login page gave '' @ int_str (wr_status final)))))))"

definition grafana_sso_session :: "'w platform \<Rightarrow> string \<Rightarrow> string \<Rightarrow> ('w, json \<times> web_session) io" where
  "grafana_sso_session P username password =
     io_bind (make_session P) (\<lambda>s.
     io_bind (session_get P s (grafana_base @ ''/login/generic_oauth'') False 30) (\<lambda>resp.
     io_then (assert (redirected resp) (''generic_oauth gave '' @ int_str (wr_status resp) @
       '', expected a redirect to Keycloak '' @ wide_char # '' Grafana's OAuth entry point is not configured''))
     (io_then (ride_login P s resp username password)
     (io_bind (session_get P s (grafana_base @ ''/api/user'') True 30) (\<lambda>api.
      if wr_status api = 401 then
        raise (Exn RuntimeError ''Grafana rejected the SSO session (grafana_session cookie not established or the OAuth callback misfired)'')
      else
        io_then (lift (raise_for_status api))
        (io_bind (lift (wr_json api)) (\<lambda>info. ret (info, s))))))))"

definition or_item :: "json \<Rightarrow> string \<Rightarrow> string \<Rightarrow> json res" where
  "or_item row a b =
     res_bind (jget row a JNull) (\<lambda>x. if truthy x then Inr x else jget row b JNull)"

fun find_role :: "string \<Rightarrow> json list \<Rightarrow> json option res" where
  "find_role target [] = Inr None"
| "find_role target (row # rows) =
     res_bind (or_item row ''userLogin'' ''login'') (\<lambda>login.
     res_bind (or_item row ''userEmail'' ''email'') (\<lambda>email.
     if jeq login (JStr target) \<or> jeq email (JStr target) then
       res_bind (jitem row ''role'') (\<lambda>role. Inr (Some role))
     else find_role target rows))"

definition members_text :: "json list \<Rightarrow> string res" where
  "members_text rows =
     res_bind (res_map (\<lambda>r. res_bind (or_item r ''userLogin'' ''login'') (\<lambda>l.
        res_bind (jitem r ''role'') (\<lambda>role. Inr (''('' @ py_repr l @ '', '' @ py_repr role @ '')'')))) rows) (\<lambda>ts.
     Inr (''['' @ py_join '', '' ts @ '']''))"

definition grafana_org_role :: "'w platform \<Rightarrow> string \<Rightarrow> string \<Rightarrow> string \<Rightarrow> ('w, json) io" where
  "grafana_org_role P admin_username admin_password target =
     io_bind (grafana_sso_session P admin_username admin_password) (\<lambda>(_, s).
     io_bind (session_get P s (grafana_base @ ''/api/org/users'') True 30) (\<lambda>members.
     if wr_status members = 403 then
       raise (Exn RuntimeError (admin_username @ '' cannot list /api/org/users (403) '' @ wide_char # '' the admin-tier SSO session did not map to the Admin org role''))
     else
       io_then (lift (raise_for_status members))
       (io_bind (lift (wr_json members)) (\<lambda>v.
        io_bind (lift (jiter v)) (\<lambda>rows.
        io_bind (lift (find_role target rows)) (\<lambda>found.
        case found of
          Some role \<Rightarrow> ret role
        | None \<Rightarrow>
            io_bind (lift (members_text rows)) (\<lambda>txt.
            raise (Exn RuntimeError (''no /api/org/users row for '' @ repr_str target @ ''; members: '' @ txt)))))))))"

section \<open>GitLab\<close>

definition gitlab_base :: string where
  "gitlab_base = ''https://gitlab.dev.lo''"

definition gitlab_sign_in :: "'w platform \<Rightarrow> web_session \<Rightarrow> ('w, web_response) io" where
  "gitlab_sign_in P s =
     io_bind (session_get P s (gitlab_base @ ''/users/sign_in'') False 30) (\<lambda>resp.
     if redirected resp then
       io_bind (lift (location_item resp)) (\<lambda>loc. session_get P s loc False 30)
     else ret resp)"

definition gitlab_sso_login :: "'w platform \<Rightarrow> string \<Rightarrow> string \<Rightarrow> ('w, json) io" where
  "gitlab_sso_login P username password =
     io_bind (make_session P) (\<lambda>s.
     io_bind (gitlab_sign_in P s) (\<lambda>resp.
     io_then (assert (wr_status resp = 200) (''sign_in gave '' @ int_str (wr_status resp)))
     (case (openid_form_action (wr_text resp), authenticity_token (wr_text resp)) of
        (Some form, Some token) \<Rightarrow>
          io_bind (lift (urljoin gitlab_base form)) (\<lambda>target.
          io_bind (web P (Inr s) (login_post target [(''authenticity_token'', html_unescape (p_html5 P) token)])) (\<lambda>resp2.
          io_then (assert (redirected resp2) (''openid_connect POST gave '' @ int_str (wr_status resp2) @ '': '' @
            first_n 200 (wr_text resp2)))
          (io_then (ride_login P s resp2 username password)
          (io_bind (session_get P s (gitlab_base @ ''/api/v4/user'') True 30) (\<lambda>api.
           io_then (lift (raise_for_status api)) (lift (wr_json api)))))))
      | _ \<Rightarrow> raise (Exn AssertionError ''GitLab sign-in form has no openid_connect form''))))"

section \<open>The proxied UIs\<close>

text \<open>The steps the two flows share: anonymous redirect, login, callback, page. \<open>Inl\<close> is an early report.\<close>

definition hubble_base :: string where
  "hubble_base = ''https://hubble.k8s.dev.lo''"

definition traefik_dash_base :: string where
  "traefik_dash_base = ''https://traefik.k8s.dev.lo''"

definition stopped :: "string \<Rightarrow> string \<Rightarrow> json" where
  "stopped stage detail =
     JObj [(''admitted'', JBool False), (''denied'', JBool False), (''stage'', JStr stage), (''detail'', JStr detail)]"

definition proxy_steps ::
  "'w platform \<Rightarrow> web_session \<Rightarrow> string \<Rightarrow> string \<Rightarrow> (int \<Rightarrow> string \<Rightarrow> string) \<Rightarrow> string \<Rightarrow> string \<Rightarrow>
     ('w, json + web_response \<times> web_response) io" where
  "proxy_steps P s url client unauthenticated username password =
     io_bind (session_get P s url False 30) (\<lambda>anon.
     let loc = location_of anon in
     if \<not> redirected anon \<or> \<not> py_in (''client_id='' @ client) loc then
       ret (Inl (stopped ''unauthenticated'' (unauthenticated (wr_status anon) (first_n 160 loc))))
     else
       io_bind (keycloak_login P s username password None None (Some loc)) (\<lambda>result.
       if \<not> kr_ok result then ret (Inl (stopped ''login'' (kr_detail result)))
       else
         io_bind (session_get P s (case kr_location result of None \<Rightarrow> [] | Some l \<Rightarrow> l) True 60) (\<lambda>callback.
         io_bind (session_get P s url False 30) (\<lambda>page. ret (Inr (callback, page))))))"

definition ui_admitted :: "web_response \<Rightarrow> web_response \<Rightarrow> bool" where
  "ui_admitted callback page \<longleftrightarrow> wr_status callback = 200 \<and> wr_status page = 200"

definition report_head :: "web_response \<Rightarrow> web_response \<Rightarrow> (string, json) dict" where
  "report_head callback page =
     [(''admitted'', JBool (ui_admitted callback page)), (''denied'', JBool (wr_status callback = 403)),
      (''stage'', JStr ''done''), (''callback_status'', JInt (wr_status callback)),
      (''page_status'', JInt (wr_status page)), (''page_title'', JStr (page_title (wr_text page)))]"

definition re_bounced :: "string \<Rightarrow> web_response \<Rightarrow> string \<times> json" where
  "re_bounced client page = (''re_bounced'', JBool (py_in (''client_id='' @ client) (location_of page)))"

definition hubble_unauthenticated :: "int \<Rightarrow> string \<Rightarrow> string" where
  "hubble_unauthenticated st loc =
     ''GET / gave '' @ int_str st @ '' loc='' @ loc @
     '': the proxy is not redirecting an anonymous request to the hubble Keycloak client''"

definition hubble_report :: "web_response \<Rightarrow> web_response \<Rightarrow> json" where
  "hubble_report callback page = JObj (report_head callback page @ [re_bounced ''hubble'' page])"

definition hubble_sso_flow :: "'w platform \<Rightarrow> string \<Rightarrow> string \<Rightarrow> ('w, json) io" where
  "hubble_sso_flow P username password =
     io_bind (make_session P) (\<lambda>s.
     io_bind (proxy_steps P s (hubble_base @ ''/'') ''hubble'' hubble_unauthenticated username password) (\<lambda>r.
     case r of
       Inl report \<Rightarrow> ret report
     | Inr (callback, page) \<Rightarrow> ret (hubble_report callback page)))"

definition traefik_unauthenticated :: "int \<Rightarrow> string \<Rightarrow> string" where
  "traefik_unauthenticated st loc =
     ''GET /dashboard/ gave '' @ int_str st @ '' loc='' @ loc @
     '': the proxy is not redirecting an anonymous request to the traefik Keycloak client''"

text \<open>\<open>data.get("http", {}).get(kind, {}).get("total", 0)\<close>.\<close>

definition overview_total :: "json \<Rightarrow> string \<Rightarrow> json res" where
  "overview_total data knd =
     res_bind (jget data ''http'' (JObj [])) (\<lambda>h.
     res_bind (jget h knd (JObj [])) (\<lambda>k. jget k ''total'' (JInt 0)))"

definition dashboard_totals :: "'w platform \<Rightarrow> web_session \<Rightarrow> bool \<Rightarrow> ('w, json \<times> json \<times> json) io" where
  "dashboard_totals P s admitted =
     (if \<not> admitted then ret (JNull, JInt 0, JInt 0)
      else
        io_bind (session_get P s (traefik_dash_base @ ''/api/overview'') False 30) (\<lambda>overview.
        if wr_status overview = 200 then
          io_bind (lift (wr_json overview)) (\<lambda>data.
          io_bind (lift (overview_total data ''routers'')) (\<lambda>routers.
          io_bind (lift (overview_total data ''services'')) (\<lambda>services.
          ret (JInt 200, routers, services))))
        else ret (JInt (wr_status overview), JInt 0, JInt 0)))"

definition traefik_report :: "'w platform \<Rightarrow> web_session \<Rightarrow> web_response \<Rightarrow> web_response \<Rightarrow> ('w, json) io" where
  "traefik_report P s callback page =
     io_bind (dashboard_totals P s (ui_admitted callback page)) (\<lambda>(st, routers, services).
     ret (JObj (report_head callback page @
       [(''api_status'', st), (''api_routers'', routers), (''api_services'', services), re_bounced ''traefik'' page])))"

definition traefik_sso_flow :: "'w platform \<Rightarrow> string \<Rightarrow> string \<Rightarrow> ('w, json) io" where
  "traefik_sso_flow P username password =
     io_bind (make_session P) (\<lambda>s.
     io_bind (proxy_steps P s (traefik_dash_base @ ''/dashboard/'') ''traefik'' traefik_unauthenticated username password) (\<lambda>r.
     case r of
       Inl report \<Rightarrow> ret report
     | Inr (callback, page) \<Rightarrow> traefik_report P s callback page))"

section \<open>The login flow over the trace\<close>

text \<open>
  A sequence of requests in which credentials follow forms: each one is made in the session and either is a
  GET without a form or posts the user's credentials, with the hidden fields of the page the last response
  showed, to the target of that page's own form.
\<close>

definition form_target :: "'w platform \<Rightarrow> web_response \<Rightarrow> string res" where
  "form_target P page = urljoin (wr_url page) (fst (parse_form (p_html5 P) page))"

definition credential_post :: "'w platform \<Rightarrow> string \<Rightarrow> string \<Rightarrow> web_response \<Rightarrow> string \<Rightarrow> web_request" where
  "credential_post P username password page target =
     login_post target (login_form (snd (parse_form (p_html5 P) page)) username password)"

fun credentials_follow :: "'w platform \<Rightarrow> web_session \<Rightarrow> string \<Rightarrow> string \<Rightarrow> web_response option \<Rightarrow> event list \<Rightarrow> bool" where
  "credentials_follow P s u p cur [] \<longleftrightarrow> True"
| "credentials_follow P s u p cur (e # es) \<longleftrightarrow>
     (case e of
        EWeb c req x \<Rightarrow>
          c = Inr s \<and>
          ((wq_method req = ''GET'' \<and> wq_form req = []) \<or>
           (\<exists>page target. cur = Some page \<and> form_target P page = Inr target \<and> req = credential_post P u p page target)) \<and>
          credentials_follow P s u p (case x of Inr resp \<Rightarrow> Some resp | Inl _ \<Rightarrow> None) es
      | _ \<Rightarrow> False)"

text \<open>A result that is ok carries the non-empty code of the redirect the last response was.\<close>

definition carries :: "web_response \<Rightarrow> keycloak_result \<Rightarrow> bool" where
  "carries resp res \<longleftrightarrow>
     redirected resp \<and> kr_location res = Some (location_of resp) \<and>
     (\<exists>code. kr_code res = Some code \<and> code \<noteq> [] \<and>
        redirect_code (location_of resp) = Inr (Some (code, kr_state res)))"

definition ended_with :: "web_session \<Rightarrow> event list \<Rightarrow> keycloak_result res \<Rightarrow> bool" where
  "ended_with s es r \<longleftrightarrow>
     (\<forall>res. r = Inr res \<longrightarrow> kr_ok res \<longrightarrow>
        (\<exists>pre req resp. es = pre @ [EWeb (Inr s) req (Inr resp)] \<and> carries resp res))"

lemma redirect_code_nonempty: "redirect_code loc = Inr (Some (c, st)) \<Longrightarrow> c \<noteq> []"
proof -
  assume "redirect_code loc = Inr (Some (c, st))"
  then obtain u :: split_url where u: "(case qs_first (parse_qs (us_query u)) ''code'' of
      Some (d # ds) \<Rightarrow> Some (d # ds, qs_first (parse_qs (us_query u)) ''state'') | _ \<Rightarrow> None) = Some (c, st)"
    by (auto simp: redirect_code_def Let_def)
  then obtain y where "qs_first (parse_qs (us_query u)) ''code'' = Some y" by (auto split: option.splits)
  with u show ?thesis by (cases y) auto
qed

lemma redirect_result_carries:
  "redirected resp \<Longrightarrow> redirect_result (location_of resp) msg = Inr res \<Longrightarrow> kr_ok res \<Longrightarrow> carries resp res"
  by (auto simp: redirect_result_def carries_def split: option.splits dest: redirect_code_nonempty)

lemma spec_session_get:
  "spec (session_get P s url b t) (\<lambda>es r. es = [EWeb (Inr s) (plain_get url b t) r])"
  unfolding session_get_def by (rule spec_web)

definition submitted ::
  "'w platform \<Rightarrow> web_session \<Rightarrow> string \<Rightarrow> string \<Rightarrow> web_response \<Rightarrow> event list \<Rightarrow> (keycloak_result + web_response) res \<Rightarrow> bool" where
  "submitted P s u p page es r \<longleftrightarrow>
     (es = [] \<and> (\<exists>e. r = Inl e)) \<or>
     (\<exists>target x. form_target P page = Inr target \<and>
        (let post = EWeb (Inr s) (credential_post P u p page target) x in
         (es = [post] \<and> (\<exists>e. r = Inl e)) \<or>
         (\<exists>res resp. es = [post] \<and> x = Inr resp \<and> r = Inr (Inl res) \<and> (kr_ok res \<longrightarrow> carries resp res)) \<or>
         (\<exists>resp. es = [post] \<and> x = Inr resp \<and> r = Inr (Inr resp)) \<or>
         (\<exists>url y. es = [post, EWeb (Inr s) (plain_get url False 30) y] \<and>
            (case y of Inl e \<Rightarrow> r = Inl e | Inr pg \<Rightarrow> r = Inr (Inr pg)))))"

text \<open>The steps that \<open>submit_login_form\<close> takes after the answer to its form.\<close>

abbreviation after_post :: "'w platform \<Rightarrow> web_session \<Rightarrow> web_response \<Rightarrow> web_response \<Rightarrow> ('w, keycloak_result + web_response) io" where
  "after_post P s page nxt \<equiv>
     (if redirected nxt then
        if \<not> py_in ''login-actions'' (location_of nxt) then
          io_bind (lift (redirect_result (location_of nxt) ''redirect out of Keycloak without a code parameter''))
            (\<lambda>r. ret (Inl r))
        else io_bind (lift (urljoin (wr_url page) (location_of nxt)))
          (\<lambda>url. io_bind (session_get P s url False 30) (\<lambda>next_page. ret (Inr next_page)))
      else ret (Inr nxt))"

lemma spec_after_post:
  assumes e: "es = [EWeb (Inr s) (credential_post P u p page target) (Inr nxt)]" and t: "form_target P page = Inr target"
  shows "spec (after_post P s page nxt) (\<lambda>es' r. submitted P s u p page (es @ es') r)"
proof -
  have fails: "submitted P s u p page es (Inl x)" for x using e t by (auto simp: submitted_def Let_def)
  have ends: "submitted P s u p page es (Inr (Inl res))"
    if "redirected nxt" "redirect_result (location_of nxt) msg = Inr res" for res msg
    using e t redirect_result_carries [OF that] by (auto simp: submitted_def Let_def)
  have again: "submitted P s u p page (es @ [EWeb (Inr s) (plain_get url False 30) y])
      (case y of Inl x \<Rightarrow> Inl x | Inr pg \<Rightarrow> Inr (Inr pg))" for url y
    using e t by (auto simp: submitted_def Let_def split: sum.split)
  have here: "submitted P s u p page es (Inr (Inr nxt))"
    using e t by (auto simp: submitted_def Let_def)
  show ?thesis
  proof (intro spec_if)
    assume "redirected nxt"
    then show "spec (io_bind (lift (redirect_result (location_of nxt) ''redirect out of Keycloak without a code parameter''))
        (\<lambda>r. ret (Inl r))) (\<lambda>es' r. submitted P s u p page (es @ es') r)"
      using fails ends
      by (cases "redirect_result (location_of nxt) ''redirect out of Keycloak without a code parameter''")
        (auto intro!: spec_ret spec_raise)
  next
    show "spec (io_bind (lift (urljoin (wr_url page) (location_of nxt)))
        (\<lambda>url. io_bind (session_get P s url False 30) (\<lambda>next_page. ret (Inr next_page))))
        (\<lambda>es' r. submitted P s u p page (es @ es') r)"
    proof (cases "urljoin (wr_url page) (location_of nxt)")
      case (Inr url)
      show ?thesis
        unfolding Inr io_bind_simps
        by (rule spec_bind [OF spec_session_get])
          (use again [of url "Inl _"] again [of url "Inr _"] in \<open>simp_all add: spec_ret\<close>)
    qed (simp add: spec_raise fails)
  qed (simp add: spec_ret here)
qed

lemma spec_submit: "spec (submit_login_form P s page u p) (submitted P s u p page)"
proof -
  obtain action hidden where form: "parse_form (p_html5 P) page = (action, hidden)"
    by (cases "parse_form (p_html5 P) page")
  show ?thesis
    unfolding submit_login_form_def form Let_def prod.case
  proof (rule spec_bind [OF spec_lift [where R = "\<lambda>es r. es = [] \<and> r = urljoin (wr_url page) action"]], simp)
    fix es :: "event list" and e
    assume "es = [] \<and> Inl e = urljoin (wr_url page) action"
    then show "submitted P s u p page es (Inl e)" by (simp add: submitted_def)
  next
    fix es :: "event list" and target
    assume "es = [] \<and> Inr target = urljoin (wr_url page) action"
    then have es: "es = []" and t: "form_target P page = Inr target" by (auto simp: form_target_def form)
    have req: "login_post target (login_form hidden u p) = credential_post P u p page target"
      by (simp add: credential_post_def form)
    show "spec (io_bind (web P (Inr s) (login_post target (login_form hidden u p))) (after_post P s page))
        (\<lambda>es' r. submitted P s u p page (es @ es') r)"
      unfolding es req append_Nil
    proof (rule spec_bind [OF spec_web])
      show "submitted P s u p page es (Inl e)"
        if "es = [EWeb (Inr s) (credential_post P u p page target) (Inl e)]" for es e
        using that t by (auto simp: submitted_def Let_def)
    qed (rule spec_after_post [OF _ t])
  qed
qed

definition stays :: "web_session \<Rightarrow> nat \<Rightarrow> event list \<Rightarrow> keycloak_result res \<Rightarrow> bool" where
  "stays s n es r \<longleftrightarrow> length es \<le> n \<and> ended_with s es r"

lemma ended_with_Cons: "ended_with s es r \<Longrightarrow> ended_with s (pre @ es) r"
  unfolding ended_with_def by (metis append.assoc)

lemma plain_get_simps [simp]:
  "wq_method (plain_get url b t) = ''GET''" "wq_form (plain_get url b t) = []"
  by (simp_all add: plain_get_def)

lemma follows_post:
  "form_target P page = Inr target \<Longrightarrow>
     credentials_follow P s u p (Some page) (EWeb (Inr s) (credential_post P u p page target) x # es) \<longleftrightarrow>
     credentials_follow P s u p (case x of Inr resp \<Rightarrow> Some resp | Inl _ \<Rightarrow> None) es"
  by (auto split: sum.split)

lemma follows_get:
  "credentials_follow P s u p cur (EWeb (Inr s) (plain_get url b t) x # es) \<longleftrightarrow>
     credentials_follow P s u p (case x of Inr resp \<Rightarrow> Some resp | Inl _ \<Rightarrow> None) es"
  by (auto split: sum.split)

lemma spec_login_forms:
  "spec (login_forms P s u p n page)
     (\<lambda>es r. credentials_follow P s u p (Some page) es \<and> stays s (2 * n) es r)"
proof (induction n arbitrary: page)
  case 0
  show ?case by (simp add: spec_ret stays_def ended_with_def)
next
  case (Suc n)
  let ?Q = "\<lambda>es r. credentials_follow P s u p (Some page) es \<and> stays s (2 * Suc n) es r"
  show ?case
    unfolding login_forms.simps
  proof (rule spec_bind [OF spec_submit])
    fix es e
    assume "submitted P s u p page es (Inl e)"
    then show "?Q es (Inl e)"
      unfolding submitted_def Let_def
      by (elim disjE exE conjE) (simp_all add: follows_post follows_get stays_def ended_with_def split: sum.splits)
  next
    fix es :: "event list" and x :: "keycloak_result + web_response"
    assume sub: "submitted P s u p page es (Inr x)"
    show "spec (case x of Inl result \<Rightarrow> ret result | Inr page' \<Rightarrow> login_forms P s u p n page')
        (\<lambda>es' r. ?Q (es @ es') r)"
    proof (cases x)
      case (Inl res)
      with sub have "?Q es (Inr res)"
        unfolding submitted_def Let_def
        by (elim disjE exE conjE)
          (auto simp: follows_post follows_get stays_def ended_with_def split: sum.splits)
      with Inl show ?thesis by (simp add: spec_ret)
    next
      case (Inr page')
      have "?Q (es @ es') r"
        if "credentials_follow P s u p (Some page') es' \<and> stays s (2 * n) es' r" for es' r
        using sub that unfolding Inr submitted_def Let_def
        by (elim disjE exE conjE)
          (auto simp: follows_post follows_get stays_def ended_with_Cons ended_with_Cons [of s es' r "[_]", simplified]
             ended_with_Cons [of s es' r "[_, _]", simplified] split: sum.splits)
      then show ?thesis unfolding Inr sum.case by (rule spec_weaken [OF Suc.IH])
    qed
  qed
qed

lemma spec_hop:
  "spec (hop_to_login P s resp)
     (\<lambda>es r. (es = [] \<and> (r = Inr resp \<or> (\<exists>e. r = Inl e))) \<or>
        (redirected resp \<and> (\<exists>url. es = [EWeb (Inr s) (plain_get url False 30) r])))"
  unfolding hop_to_login_def Let_def
  by (intro spec_if spec_bind [OF spec_lift [where R = "\<lambda>es r. es = []"]] spec_ret
      spec_weaken [OF spec_session_get]) auto

text \<open>The run of the whole flow: at most six requests, the last one carrying what an ok result reports.\<close>

lemma login_query_simps [simp]:
  "wq_method (login_query c ruri) = ''GET''" "wq_form (login_query c ruri) = []"
  by (simp_all add: login_query_def)

lemma spec_keycloak_login:
  "spec (keycloak_login P s u p client_id redirect_uri auth_url)
     (\<lambda>es r. credentials_follow P s u p None es \<and> stays s 6 es r)"
proof -
  let ?Q = "\<lambda>es r. credentials_follow P s u p None es \<and> stays s 6 es r"
  have first: "spec (case auth_url of Some url \<Rightarrow> session_get P s url False 30
        | None \<Rightarrow> web P (Inr s) (login_query client_id redirect_uri))
      (\<lambda>es r. \<exists>req. es = [EWeb (Inr s) req r] \<and> wq_method req = ''GET'' \<and> wq_form req = [])"
    by (cases auth_url) (auto intro: spec_weaken [OF spec_web] spec_weaken [OF spec_session_get])
  show ?thesis
    unfolding keycloak_login_def
  proof (rule spec_bind [OF first])
    fix es0 and resp0 :: web_response
    assume "\<exists>req. es0 = [EWeb (Inr s) req (Inr resp0)] \<and> wq_method req = ''GET'' \<and> wq_form req = []"
    then obtain req where es0: "es0 = [EWeb (Inr s) req (Inr resp0)]" "wq_method req = ''GET''" "wq_form req = []"
      by blast
    show "spec (io_bind (hop_to_login P s resp0) (\<lambda>resp. if redirected resp
          then lift (redirect_result (location_of resp) ''redirected away from the login flow without a code'')
          else login_forms P s u p 2 resp)) (\<lambda>es' r. ?Q (es0 @ es') r)"
    proof (rule spec_bind [OF spec_hop])
      fix es e
      assume "(es = [] \<and> (Inl e = Inr resp0 \<or> (\<exists>e'. Inl e = Inl e'))) \<or>
        (redirected resp0 \<and> (\<exists>url. es = [EWeb (Inr s) (plain_get url False 30) (Inl e)]))"
      then show "?Q (es0 @ es) (Inl e)" by (auto simp: es0 stays_def ended_with_def)
    next
      fix es resp
      assume "(es = [] \<and> (Inr resp = Inr resp0 \<or> (\<exists>e'. Inr resp = Inl e'))) \<or>
        (redirected resp0 \<and> (\<exists>url. es = [EWeb (Inr s) (plain_get url False 30) (Inr resp)]))"
      then obtain pre req' where pre: "es0 @ es = pre @ [EWeb (Inr s) req' (Inr resp)]" "length (es0 @ es) \<le> 2"
        and follow: "\<And>es'. credentials_follow P s u p None ((es0 @ es) @ es') \<longleftrightarrow> credentials_follow P s u p (Some resp) es'"
        by (auto simp: es0)
      show "spec (if redirected resp
          then lift (redirect_result (location_of resp) ''redirected away from the login flow without a code'')
          else login_forms P s u p 2 resp) (\<lambda>es' r. ?Q (es0 @ es @ es') r)"
      proof (rule spec_if)
        assume red: "redirected resp"
        have "?Q (es0 @ es) (redirect_result (location_of resp) msg)" for msg
          using follow [of "[]"] pre redirect_result_carries [OF red, of msg]
          by (auto simp: stays_def ended_with_def)
        then show "spec (lift (redirect_result (location_of resp) ''redirected away from the login flow without a code''))
            (\<lambda>es' r. ?Q (es0 @ es @ es') r)"
          by (intro spec_lift) simp
      next
        have "?Q (es0 @ es @ es') r" if "credentials_follow P s u p (Some resp) es' \<and> stays s (2 * 2) es' r" for es' r
          using that follow [of es'] pre(2) ended_with_Cons [of s es' r "es0 @ es"] by (simp add: stays_def)
        then show "spec (login_forms P s u p 2 resp) (\<lambda>es' r. ?Q (es0 @ es @ es') r)"
          by (rule spec_weaken [OF spec_login_forms])
      qed
    qed
  qed (auto simp: stays_def ended_with_def)
qed

section \<open>Properties\<close>


subsection \<open>Witnesses\<close>

definition kc_page :: string where
  "kc_page = ''<form method=post action='' @ dquote # ''/realms/dev-lo/login-actions/authenticate?x=1&amp;y=2'' @ dquote #
     ''><input type='' @ dquote # ''hidden'' @ dquote # '' name='' @ dquote # ''credentialId'' @ dquote # ''></form>''"

text \<open>A platform that answers web requests from a recording, and a world that holds the CA file.\<close>

definition replay :: "(string \<Rightarrow> string option) \<Rightarrow> web_response list platform" where
  "replay env =
     \<lparr>p_urlopen = \<lambda>r x. (HttpFail (Exn OSError []), x), p_pexpect = False, p_spawn = \<lambda>argv t x. (Inr (), x),
      p_expect = \<lambda>ps x. (Matched 0 None, x), p_sendline = \<lambda>s x. (Inr (), x), p_close = \<lambda>x. (Inr (), x),
      p_exitstatus = \<lambda>x. None, p_time = \<lambda>x. 0, p_sleep = \<lambda>n x. x, p_environ = env, p_expanduser = \<lambda>p. p,
      p_write_error = \<lambda>p. None, p_dry_run = False,
      p_run = \<lambda>r x. (Inr \<lparr>pr_returncode = 0, pr_stdout = [], pr_stderr = []\<rparr>, x), p_which = \<lambda>n. None,
      p_token_urlsafe = \<lambda>n x. (''token'', x), p_repo_root = ''/repo'', p_popen = \<lambda>r x. (Inr (), x),
      p_new_session = \<lambda>x. (0, x),
      p_web = \<lambda>c r x. (case x of [] \<Rightarrow> (Inl (Exn OSError ''no answer''), []) | y # ys \<Rightarrow> (Inr y, ys)),
      p_html5 = \<lambda>n. if n = ''amp;'' then Some ''&'' else None\<rparr>"

definition recorded :: "web_response list \<Rightarrow> web_response list world" where
  "recorded rs = \<lparr>ext = rs, files = \<lambda>p. Some (Text []), trace = []\<rparr>"

definition answer :: "int \<Rightarrow> string \<Rightarrow> (string, string) dict \<Rightarrow> string \<Rightarrow> json \<Rightarrow> web_response" where
  "answer st url hs txt v = \<lparr>wr_status = st, wr_url = url, wr_headers = hs, wr_text = txt, wr_json = Inr v\<rparr>"

definition kc_answers :: "web_response list" where
  "kc_answers =
     [answer 200 kc_auth_url [] kc_page JNull,
      answer 302 kc_auth_url [(''location'', ''https://grafana.k8s.dev.lo/cb?state=s1&code=abc'')] [] JNull]"

definition kc_session :: web_session where
  "kc_session = \<lparr>ws_id = 0, ws_verify = ''/ca.crt''\<rparr>"

definition kc_posts :: "event list \<Rightarrow> (string \<times> (string, string) dict) list" where
  "kc_posts es = concat (map (\<lambda>e. case e of EWeb _ req _ \<Rightarrow>
     if wq_method req = ''POST'' then [(wq_url req, wq_form req)] else [] | _ \<Rightarrow> []) es)"

lemma kc_run:
  "(case keycloak_login (replay (\<lambda>k. None)) kc_session ''test'' ''pw'' None None (Some (kc_auth_url @ ''?client_id=grafana'')) (recorded kc_answers) of
      (Inr res, w') \<Rightarrow> kr_ok res \<and> kr_code res = Some ''abc'' \<and> kr_state res = Some ''s1'' \<and>
        kc_posts (trace w') = [(''https://sso.k8s.dev.lo/realms/dev-lo/login-actions/authenticate?x=1&y=2'',
          [(''credentialId'', []), (''username'', ''test''), (''password'', ''pw'')])]
    | (Inl e, w') \<Rightarrow> False)"
  by code_simp


section \<open>The proxied UIs\<close>

text \<open>What a report says of its events: the early stops, and a run to the end with its callback and page.\<close>

definition flag :: "json \<Rightarrow> string \<Rightarrow> bool" where
  "flag report k \<longleftrightarrow> dget (members report) k = Some (JBool True)"

lemma flag_stopped [simp]: "\<not> flag (stopped stage detail) ''admitted''" "\<not> flag (stopped stage detail) ''denied''"
  by (simp_all add: flag_def stopped_def)

lemma flag_report [simp]:
  "flag (JObj (report_head callback page @ rest)) ''admitted'' \<longleftrightarrow> ui_admitted callback page"
  "flag (JObj (report_head callback page @ rest)) ''denied'' \<longleftrightarrow> wr_status callback = 403"
  by (auto simp: flag_def report_head_def)

definition reached ::
  "web_session \<Rightarrow> string \<Rightarrow> string \<Rightarrow> event list \<Rightarrow> web_response \<Rightarrow> web_response \<Rightarrow> bool" where
  "reached s url client es callback page \<longleftrightarrow>
     (\<exists>anon pre req resp found. es = EWeb (Inr s) (plain_get url False 30) (Inr anon) # pre @
        [EWeb (Inr s) req (Inr resp), EWeb (Inr s) (plain_get (location_of resp) True 60) (Inr callback),
         EWeb (Inr s) (plain_get url False 30) (Inr page)] \<and>
        redirected anon \<and> py_in (''client_id='' @ client) (location_of anon) \<and>
        redirected resp \<and> redirect_code (location_of resp) = Inr (Some found))"

lemma spec_proxy_steps:
  "spec (proxy_steps P s url client msg u p)
     (\<lambda>es r. (\<forall>report. r = Inr (Inl report) \<longrightarrow> \<not> flag report ''admitted'' \<and> \<not> flag report ''denied'') \<and>
        (\<forall>callback page. r = Inr (Inr (callback, page)) \<longrightarrow> reached s url client es callback page))"
proof -
  let ?Q = "\<lambda>es r. (\<forall>report. r = Inr (Inl report) \<longrightarrow> \<not> flag report ''admitted'' \<and> \<not> flag report ''denied'') \<and>
        (\<forall>callback page. r = Inr (Inr (callback, page)) \<longrightarrow> reached s url client es callback page)"
  show ?thesis
    unfolding proxy_steps_def Let_def
  proof (rule spec_bind [OF spec_session_get], simp, rule spec_if, goal_cases)
    case (1 es anon)
    then show ?case by (intro spec_ret) simp
  next
    case (2 es anon)
    then have anon: "es = [EWeb (Inr s) (plain_get url False 30) (Inr anon)]" "redirected anon"
      "py_in (''client_id='' @ client) (location_of anon)" by simp_all
    show ?case
    proof (rule spec_bind [OF spec_keycloak_login], simp, rule spec_if, goal_cases)
      case (1 les res)
      then show ?case by (intro spec_ret) simp
    next
      case (2 les res)
      then have "ended_with s les (Inr res)" "kr_ok res" by (simp_all add: stays_def)
      then obtain pre req resp where les: "les = pre @ [EWeb (Inr s) req (Inr resp)]" and c: "carries resp res"
        unfolding ended_with_def by blast
      from c obtain code where loc: "kr_location res = Some (location_of resp)" and red: "redirected resp"
        and code: "redirect_code (location_of resp) = Inr (Some (code, kr_state res))"
        unfolding carries_def by blast
      show ?case
        unfolding loc option.case
      proof (rule spec_bind [OF spec_session_get], simp, rule spec_bind [OF spec_session_get], simp, rule spec_ret, goal_cases)
        case (1 es1 callback es2 page)
        then show ?case
          using anon les red code unfolding reached_def
          by (auto intro!: exI [of _ anon] exI [of _ pre] exI [of _ req] exI [of _ resp])
      qed
    qed
  qed
qed

definition ui_facts :: "web_session \<Rightarrow> string \<Rightarrow> string \<Rightarrow> event list \<Rightarrow> json res \<Rightarrow> bool" where
  "ui_facts s url client es r \<longleftrightarrow>
     (\<forall>report. r = Inr report \<longrightarrow> flag report ''admitted'' \<or> flag report ''denied'' \<longrightarrow>
        (\<exists>es1 es2 callback page. es = es1 @ es2 \<and> reached s url client es1 callback page \<and>
           (flag report ''admitted'' \<longleftrightarrow> wr_status callback = 200 \<and> wr_status page = 200) \<and>
           (flag report ''denied'' \<longleftrightarrow> wr_status callback = 403)))"

lemma ui_facts_done:
  "reached s url client es1 callback page \<Longrightarrow>
     ui_facts s url client (es1 @ es2) (Inr (JObj (report_head callback page @ rest)))"
  unfolding ui_facts_def
  by (intro allI impI exI [of _ es1] exI [of _ es2] exI [of _ callback] exI [of _ page]) (auto simp: ui_admitted_def)

lemma ui_facts_Inl: "ui_facts s url client es (Inl e)"
  by (simp add: ui_facts_def)

lemma ui_facts_report:
  "\<not> flag report ''admitted'' \<and> \<not> flag report ''denied'' \<Longrightarrow> ui_facts s url client es (Inr report)"
  by (simp add: ui_facts_def)

definition pinned :: "'w platform \<Rightarrow> string \<Rightarrow> string \<Rightarrow> event list \<Rightarrow> json res \<Rightarrow> bool" where
  "pinned P url client es r \<longleftrightarrow> (\<exists>s. ws_verify s = ca_path P \<and> ui_facts s url client es r)"

lemma pinned_Inl: "pinned P url client es (Inl e)"
  unfolding pinned_def by (rule exI [of _ "\<lparr>ws_id = 0, ws_verify = ca_path P\<rparr>"]) (simp add: ui_facts_Inl)

text \<open>
  The interface the two flows rest on: what a flow does after the shared steps may fail, but a report it gives
  begins with the head that states the callback and the page.
\<close>

locale proxied_ui =
  fixes rest :: "web_session \<Rightarrow> web_response \<Rightarrow> web_response \<Rightarrow> ('w, json) io"
  assumes rest_reports: "spec (rest s callback page)
      (\<lambda>es r. (\<exists>e. r = Inl e) \<or> (\<exists>more. r = Inr (JObj (report_head callback page @ more))))"
begin

lemma flow_pinned:
  "spec (io_bind (make_session P) (\<lambda>s. io_bind (proxy_steps P s url client msg u p) (\<lambda>r.
      case r of Inl report \<Rightarrow> ret report | Inr (callback, page) \<Rightarrow> rest s callback page))) (pinned P url client)"
proof (rule spec_bind [OF spec_make_session], simp add: pinned_Inl)
  fix es :: "event list" and s :: web_session
  assume "es = [] \<and> (\<forall>s'. Inr s = Inr s' \<longrightarrow> ws_verify s' = ca_path P)"
  then have es: "es = []" and v: "ws_verify s = ca_path P" by auto
  show "spec (io_bind (proxy_steps P s url client msg u p) (\<lambda>r.
      case r of Inl report \<Rightarrow> ret report | Inr (callback, page) \<Rightarrow> rest s callback page))
      (\<lambda>es' r. pinned P url client (es @ es') r)"
    unfolding es append_Nil
  proof (rule spec_bind [OF spec_proxy_steps], simp add: pinned_Inl, goal_cases)
    case (1 es x)
    show ?case
    proof (cases x)
      case (Inl report)
      with 1 v show ?thesis by (auto simp: pinned_def intro!: spec_ret ui_facts_report)
    next
      case (Inr cp)
      obtain callback page where cp: "cp = (callback, page)" by (cases cp)
      with 1 Inr have "reached s url client es callback page" by simp
      with v have "pinned P url client (es @ es') r"
        if "(\<exists>e. r = Inl e) \<or> (\<exists>more. r = Inr (JObj (report_head callback page @ more)))" for es' r
        using that pinned_Inl ui_facts_done unfolding pinned_def by blast
      then show ?thesis
        unfolding Inr cp sum.case prod.case by (rule spec_weaken [OF rest_reports])
    qed
  qed
qed

end

interpretation hubble_ui: proxied_ui "\<lambda>s callback page. ret (hubble_report callback page)"
  by unfold_locales (auto simp: hubble_report_def intro: spec_ret)

lemma only_dashboard_totals: "only (\<lambda>_. True) (dashboard_totals P s admitted)"
  unfolding dashboard_totals_def session_get_def by (intro only_intros) simp_all

interpretation traefik_ui: proxied_ui "traefik_report P" for P
  unfolding traefik_report_def
  by (unfold_locales, rule spec_bind [OF spec_only [OF only_dashboard_totals]]) (auto intro: spec_ret split: prod.split)

lemma spec_hubble: "spec (hubble_sso_flow P u p) (pinned P ''https://hubble.k8s.dev.lo/'' ''hubble'')"
proof -
  have url: "hubble_base @ ''/'' = ''https://hubble.k8s.dev.lo/''" by (simp add: hubble_base_def)
  show ?thesis unfolding hubble_sso_flow_def url by (rule hubble_ui.flow_pinned)
qed

lemma spec_traefik: "spec (traefik_sso_flow P u p) (pinned P ''https://traefik.k8s.dev.lo/dashboard/'' ''traefik'')"
proof -
  have url: "traefik_dash_base @ ''/dashboard/'' = ''https://traefik.k8s.dev.lo/dashboard/''"
    by (simp add: traefik_dash_base_def)
  show ?thesis unfolding traefik_sso_flow_def url by (rule traefik_ui.flow_pinned)
qed


definition hubble_answers :: "web_response list" where
  "hubble_answers =
     [answer 302 ''https://hubble.k8s.dev.lo/'' [(''Location'', kc_auth_url @ ''?client_id=hubble'')] [] JNull,
      answer 200 kc_auth_url [] kc_page JNull,
      answer 302 kc_auth_url [(''Location'', ''https://hubble.k8s.dev.lo/oauth2/callback?code=abc'')] [] JNull,
      answer 200 ''https://hubble.k8s.dev.lo/'' [] ''<title>Hubble UI</title>'' JNull,
      answer 200 ''https://hubble.k8s.dev.lo/'' [] ''<title>Hubble UI</title>'' JNull]"

lemma hubble_run:
  "(case hubble_sso_flow (replay (\<lambda>k. None)) ''test'' ''pw'' (recorded hubble_answers) of
      (Inr report, w') \<Rightarrow> flag report ''admitted'' \<and> length (trace w') = 5
    | (Inl e, w') \<Rightarrow> False)"
  by code_simp


section \<open>The check of the key-value paths\<close>

definition kv_answer :: "'w platform \<Rightarrow> string \<times> string list \<Rightarrow> event list \<Rightarrow> bool" where
  "kv_answer P expected es \<longleftrightarrow>
     (\<exists>s req resp data. es = [EWeb (Inr s) req (Inr resp)] \<and> ws_verify s = ca_path P \<and>
        wq_method req = ''GET'' \<and> wq_url req = ''https://bao.k8s.dev.lo/v1/kv/data/'' @ fst expected \<and>
        (\<exists>tok. p_environ P ''OPENBAO_ROOT_TOKEN'' = Some tok \<and> wq_headers req = [(''X-Vault-Token'', tok)]) \<and>
        wr_status resp = 200 \<and> data_data resp = Inr data \<and> (\<forall>k \<in> set (snd expected). json_has data k = Inr True))"

lemma spec_bao_get:
  "spec (bao_api P path None ''GET'' None [200])
     (\<lambda>es r. \<forall>resp. r = Inr resp \<longrightarrow>
        (\<exists>s req tok. es = [EWeb (Inr s) req (Inr resp)] \<and> ws_verify s = ca_path P \<and> wq_method req = ''GET'' \<and>
           wq_url req = bao_base @ path \<and> p_environ P ''OPENBAO_ROOT_TOKEN'' = Some tok \<and>
           wq_headers req = [(''X-Vault-Token'', tok)] \<and> wr_status resp = 200))"
proof -
  let ?Q = "\<lambda>es r. \<forall>resp. r = Inr resp \<longrightarrow>
        (\<exists>s req tok. es = [EWeb (Inr s) req (Inr resp)] \<and> ws_verify s = ca_path P \<and> wq_method req = ''GET'' \<and>
           wq_url req = bao_base @ path \<and> p_environ P ''OPENBAO_ROOT_TOKEN'' = Some tok \<and>
           wq_headers req = [(''X-Vault-Token'', tok)] \<and> wr_status resp = 200)"
  show ?thesis
    unfolding bao_api_def option.case
  proof (rule spec_bind [OF spec_make_session], simp)
    fix es :: "event list" and s :: web_session
    assume "es = [] \<and> (\<forall>s'. Inr s = Inr s' \<longrightarrow> ws_verify s' = ca_path P)"
    then have es: "es = []" and v: "ws_verify s = ca_path P" by auto
    show "spec (io_bind (lift (env_var P ''OPENBAO_ROOT_TOKEN'')) (\<lambda>tok.
        io_bind (web P (Inr s) ((plain_get (bao_base @ path) True 30)
          \<lparr>wq_method := ''GET'', wq_headers := [(''X-Vault-Token'', tok)], wq_json := None\<rparr>)) (\<lambda>resp.
        if wr_status resp \<notin> set [200] then
          raise (Exn RuntimeError (''OpenBao '' @ ''GET'' @ '' '' @ path @ '' gave '' @ int_str (wr_status resp) @ '' ('' @
            first_n 200 (wr_text resp) @ '')''))
        else ret resp))) (\<lambda>es' r. ?Q (es @ es') r)"
    proof (cases "env_var P ''OPENBAO_ROOT_TOKEN''")
      case (Inr tok)
      then have "p_environ P ''OPENBAO_ROOT_TOKEN'' = Some tok" by (simp add: env_var_Inr)
      with v show ?thesis
        unfolding Inr io_bind_simps es append_Nil
        by (intro spec_bind [OF spec_web] spec_if spec_raise spec_ret) (auto simp: plain_get_def)
    qed (simp add: spec_raise)
  qed
qed

lemma missing_keys_none: "missing_keys path data ks = Inr [] \<Longrightarrow> \<forall>k \<in> set ks. json_has data k = Inr True"
proof
  fix k
  assume m: "missing_keys path data ks = Inr []" and k: "k \<in> set ks"
  let ?f = "\<lambda>k. res_bind (json_has data k) (\<lambda>b. Inr (\<not> b)) :: bool res"
  from m have f: "res_filter ?f ks = Inr []" by (auto simp: missing_keys_def)
  have "\<exists>b. ?f k = Inr b" using f k
    by (induction ks) (auto split: if_splits)
  moreover have "?f k \<noteq> Inr True" using res_filter_Inr [OF f, of k] k by auto
  ultimately show "json_has data k = Inr True" by auto
qed

lemma spec_kv_gaps: "spec (kv_gaps P expected) (\<lambda>es r. r = Inr [] \<longrightarrow> kv_answer P expected es)"
proof -
  obtain path ks where e: "expected = (path, ks)" by (cases expected)
  have inner: "spec (io_except [RuntimeError] (io_bind (bao_kv_data P path) (\<lambda>data. ret (Inr data)))
      (\<lambda>exc. ret (Inl (path @ '': '' @ exn_msg exc))))
      (\<lambda>es r. \<forall>data. r = Inr (Inr data) \<longrightarrow> (\<forall>ks. (\<forall>k \<in> set ks. json_has data k = Inr True) \<longrightarrow> kv_answer P (path, ks) es))"
    (is "spec _ ?R")
  proof (rule spec_except)
    show "spec (io_bind (bao_kv_data P path) (\<lambda>data. ret (Inr data))) ?R"
      unfolding bao_kv_data_def io_bind_assoc
    proof (rule spec_bind [OF spec_bao_get], simp)
      fix es :: "event list" and resp :: web_response
      assume "\<forall>resp'. Inr resp = Inr resp' \<longrightarrow>
        (\<exists>s req tok. es = [EWeb (Inr s) req (Inr resp')] \<and> ws_verify s = ca_path P \<and> wq_method req = ''GET'' \<and>
           wq_url req = bao_base @ ''/v1/kv/data/'' @ path \<and> p_environ P ''OPENBAO_ROOT_TOKEN'' = Some tok \<and>
           wq_headers req = [(''X-Vault-Token'', tok)] \<and> wr_status resp' = 200)"
      then have "kv_answer P (path, ks) es"
        if "data_data resp = Inr data" "\<forall>k \<in> set ks. json_has data k = Inr True" for data ks
        using that by (auto simp: kv_answer_def bao_base_def)
      then show "spec (io_bind (lift (data_data resp)) (\<lambda>data. ret (Inr data))) (\<lambda>es' r. ?R (es @ es') r)"
        by (cases "data_data resp") (auto intro!: spec_ret spec_raise)
    qed
  qed (auto intro!: spec_ret)
  show ?thesis
    unfolding kv_gaps_def e prod.case
  proof (rule spec_bind [OF inner], simp)
    fix es and x :: "string + json"
    assume a: "?R es (Inr x)"
    show "spec (case x of Inl gap \<Rightarrow> ret [gap] | Inr data \<Rightarrow> lift (missing_keys path data ks))
        (\<lambda>es' r. r = Inr [] \<longrightarrow> kv_answer P (path, ks) (es @ es'))"
      using a missing_keys_none by (cases x) (auto intro!: spec_ret spec_lift)
  qed
qed

text \<open>
  C32: the check of the key-value paths passes only if each listed path was asked for, once and in
  order, with the root token over a session pinned to the domain CA, was answered with 200, and the data of
  that answer has every key listed for the path.
\<close>

theorem kv_check_sound:
  assumes "bao_kv_keys_present P expected w = (Inr (), w')"
  shows "\<exists>ess. trace w' = trace w @ concat ess \<and> list_all2 (kv_answer P) expected ess"
proof -
  have "spec (bao_kv_keys_present P expected)
      (\<lambda>es r. \<forall>u. r = Inr u \<longrightarrow> (\<exists>ess. es = concat ess \<and> list_all2 (kv_answer P) expected ess))"
    unfolding bao_kv_keys_present_def
  proof (rule spec_bind [OF spec_map [OF spec_kv_gaps]], simp)
    fix es :: "event list" and gaps :: "string list list"
    assume "\<forall>ys. Inr gaps = Inr ys \<longrightarrow>
      (\<exists>ess. es = concat ess \<and> list_all2 (\<lambda>x (es, y). Inr y = Inr [] \<longrightarrow> kv_answer P x es) expected (zip ess ys) \<and>
        length ess = length ys)"
    then obtain ess where ess: "es = concat ess" "length ess = length gaps"
      "list_all2 (\<lambda>x (es, y). y = [] \<longrightarrow> kv_answer P x es) expected (zip ess gaps)" by auto
    have "list_all2 (kv_answer P) expected ess" if g: "\<forall>g \<in> set gaps. g = []"
    proof (rule list_all2_all_nthI)
      show l: "length expected = length ess" using ess(2,3) by (auto dest: list_all2_lengthD)
      fix i
      assume i: "i < length expected"
      then have "gaps ! i = []" using g l ess(2) by auto
      with i list_all2_nthD [OF ess(3) i] l ess(2) show "kv_answer P (expected ! i) (ess ! i)" by simp
    qed
    with ess(1) show "spec (assert (concat gaps = []) (''OpenBao KV gaps: '' @ py_join ''; '' (concat gaps)))
        (\<lambda>es' r. \<forall>u. r = Inr u \<longrightarrow> (\<exists>ess. es @ es' = concat ess \<and> list_all2 (kv_answer P) expected ess))"
      by (auto simp: assert_def intro!: spec_ret spec_raise)
  qed
  from specD [OF this assms] show ?thesis by auto
qed

definition kv_answers :: "web_response list" where
  "kv_answers =
     [answer 200 [] [] [] (JObj [(''data'', JObj [(''data'', JObj [(''username'', JStr ''admin''), (''password'', JStr ''x'')])])])]"

lemma kv_run:
  "(case bao_kv_keys_present (replay (\<lambda>k. Some ''root'')) [(''grafana'', [''username'', ''password''])] (recorded kv_answers) of
      (r, w') \<Rightarrow> r = Inr ())"
  by code_simp

lemma kv_check_sound_witness:
  "\<exists>w' es. bao_kv_keys_present (replay (\<lambda>k. Some ''root'')) [(''grafana'', [''username'', ''password''])] (recorded kv_answers) = (Inr (), w') \<and>
     trace w' = es \<and> kv_answer (replay (\<lambda>k. Some ''root'')) (''grafana'', [''username'', ''password'']) es"
proof -
  obtain w' where run: "bao_kv_keys_present (replay (\<lambda>k. Some ''root'')) [(''grafana'', [''username'', ''password''])] (recorded kv_answers) = (Inr (), w')"
    using kv_run by (auto split: prod.splits)
  from kv_check_sound [OF run] run show ?thesis by (auto simp: recorded_def list_all2_Cons1)
qed

end
