(* ===== verification/Verify_Sso.thy ===== *)
theory Verify_Sso
  imports Verify_Web
begin

text \<open>
  What the answers of Grafana and GitLab rest on. Both services are reached through a Keycloak login that rides the
  service's own authorization request; the lemmas follow a successful run through its requests.
\<close>

section \<open>Runs of the parts\<close>

lemma session_get_run:
  "session_get P s url b t w = (r, w') \<Longrightarrow> trace w' = trace w @ [EWeb (Inr s) (plain_get url b t) r]"
  by (erule specD [OF spec_session_get]) simp

lemma web_run: "web P c req w = (r, w') \<Longrightarrow> trace w' = trace w @ [EWeb c req r]"
  by (erule specD [OF spec_web]) simp

lemma make_session_run: "make_session P w = (Inr s, w') \<Longrightarrow> trace w' = trace w \<and> ws_verify s = ca_path P"
  by (erule specD [OF spec_make_session]) simp

lemma assert_Inr [simp]: "assert b msg w = (Inr u, w') \<longleftrightarrow> b \<and> w' = w"
  by (simp add: assert_def)

lemma raise_for_status_Inr [simp]: "raise_for_status r = Inr u \<longleftrightarrow> \<not> (400 \<le> wr_status r \<and> wr_status r < 600)"
  by (simp add: raise_for_status_def)

text \<open>A login that is given an authorization URL starts there.\<close>

lemma login_starts:
  "spec (keycloak_login P s u p None None (Some url)) (\<lambda>es r. \<exists>x rest. es = EWeb (Inr s) (plain_get url False 30) x # rest)"
proof -
  have "only (\<lambda>_. True) (login_forms P s u p n page)" for n page
    by (simp only: only_def, rule spec_weaken [OF spec_login_forms]) simp
  moreover have "only (\<lambda>_. True) (hop_to_login P s resp)" for resp
    by (simp only: only_def, rule spec_weaken [OF spec_hop]) simp
  ultimately have "only (\<lambda>_. True) (io_bind (hop_to_login P s resp0) (\<lambda>resp. if redirected resp
          then lift (redirect_result (location_of resp) ''redirected away from the login flow without a code'')
          else login_forms P s u p 2 resp))" for resp0
    by (intro only_intros)
  then show ?thesis
    unfolding keycloak_login_def option.case
    by (intro spec_bind [OF spec_session_get]) (simp, rule spec_weaken [OF spec_only], auto)
qed

section \<open>Signed in\<close>

text \<open>
  The requests of a login that began at the redirect \<open>entry\<close> and signed its session in: it starts at the URL that
  the redirect names, the credentials follow forms, it ends with a redirect that carries a code, and that
  redirect is followed to a page with status 200.
\<close>

definition signed_in :: "'w platform \<Rightarrow> web_session \<Rightarrow> web_response \<Rightarrow> string \<Rightarrow> string \<Rightarrow> event list \<Rightarrow> bool" where
  "signed_in P s entry u p es \<longleftrightarrow>
     (\<exists>loc auth login resp found final. location_item entry = Inr loc \<and> urljoin (wr_url entry) loc = Inr auth
        \<and> es = login @ [EWeb (Inr s) (plain_get (location_of resp) True 60) (Inr final)]
        \<and> (\<exists>x rest. login = EWeb (Inr s) (plain_get auth False 30) x # rest)
        \<and> (\<exists>pre req. login = pre @ [EWeb (Inr s) req (Inr resp)])
        \<and> credentials_follow P s u p None login
        \<and> redirected resp \<and> redirect_code (location_of resp) = Inr (Some found) \<and> wr_status final = 200)"

lemma ride_login_run:
  assumes "ride_login P s entry u p w = (Inr x, w')"
  shows "\<exists>es. trace w' = trace w @ es \<and> signed_in P s entry u p es"
proof -
  from assms obtain loc auth res w1 final where loc: "location_item entry = Inr loc" "urljoin (wr_url entry) loc = Inr auth"
    and login: "keycloak_login P s u p None None (Some auth) w = (Inr res, w1)" and ok: "kr_ok res"
    and final: "session_get P s (case kr_location res of None \<Rightarrow> [] | Some l \<Rightarrow> l) True 60 w1 = (Inr final, w')"
      "wr_status final = 200"
    by (auto simp: ride_login_def io_bind_Inr io_then_Inr)
  from specD [OF spec_conj [OF spec_keycloak_login login_starts] login] obtain es where
    es: "trace w1 = trace w @ es"
      "(credentials_follow P s u p None es \<and> stays s 6 es (Inr res)) \<and> (\<exists>x rest. es = EWeb (Inr s) (plain_get auth False 30) x # rest)" .
  then have "ended_with s es (Inr res)" by (simp add: stays_def)
  with ok obtain pre req resp where r: "es = pre @ [EWeb (Inr s) req (Inr resp)]" "carries resp res"
    unfolding ended_with_def by blast
  from r(2) obtain code where c: "kr_location res = Some (location_of resp)" "redirected resp"
    "redirect_code (location_of resp) = Inr (Some (code, kr_state res))"
    unfolding carries_def by blast
  from session_get_run [OF final(1)] c(1) es(1)
  have "trace w' = trace w @ es @ [EWeb (Inr s) (plain_get (location_of resp) True 60) (Inr final)]" by simp
  moreover have "signed_in P s entry u p (es @ [EWeb (Inr s) (plain_get (location_of resp) True 60) (Inr final)])"
    unfolding signed_in_def
    by (intro exI [of _ loc] exI [of _ auth] exI [of _ es] exI [of _ resp] exI [of _ "(code, kr_state res)"] exI [of _ final])
      (use loc es(2) r(1) c final(2) in blast)
  ultimately show ?thesis by blast
qed

lemma grafana_session_run:
  assumes "grafana_sso_session P u p w = (Inr (info, s), w')"
  shows "\<exists>entry es api. ws_verify s = ca_path P
     \<and> trace w' = trace w @ EWeb (Inr s) (plain_get (grafana_base @ ''/login/generic_oauth'') False 30) (Inr entry) # es @
         [EWeb (Inr s) (plain_get (grafana_base @ ''/api/user'') True 30) (Inr api)]
     \<and> redirected entry \<and> signed_in P s entry u p es \<and> \<not> (400 \<le> wr_status api \<and> wr_status api < 600) \<and> wr_json api = Inr info"
proof -
  from assms obtain w1 entry w2 x w3 api where s: "make_session P w = (Inr s, w1)"
    and entry: "session_get P s (grafana_base @ ''/login/generic_oauth'') False 30 w1 = (Inr entry, w2)" "redirected entry"
    and ride: "ride_login P s entry u p w2 = (Inr x, w3)"
    and api: "session_get P s (grafana_base @ ''/api/user'') True 30 w3 = (Inr api, w')"
      "\<not> (400 \<le> wr_status api \<and> wr_status api < 600)" "wr_json api = Inr info"
    by (auto simp: grafana_sso_session_def io_bind_Inr io_then_Inr split: if_splits)
  from ride_login_run [OF ride] obtain es where es: "trace w3 = trace w2 @ es" "signed_in P s entry u p es" by blast
  show ?thesis
    using make_session_run [OF s] session_get_run [OF entry(1)] es session_get_run [OF api(1)] entry(2) api(2,3)
    by (intro exI [of _ entry] exI [of _ es] exI [of _ api]) simp
qed

section \<open>The role of a user\<close>

text \<open>Whether a row of the list of users is the target's, when both of its names can be read.\<close>

definition row_of :: "string \<Rightarrow> json \<Rightarrow> bool option" where
  "row_of target row =
     (case (or_item row ''userLogin'' ''login'', or_item row ''userEmail'' ''email'') of
        (Inr l, Inr e) \<Rightarrow> Some (jeq l (JStr target) \<or> jeq e (JStr target))
      | _ \<Rightarrow> None)"

lemma first_such_Cons:
  "(\<exists>pre x post. r # rs = pre @ x # post \<and> (\<forall>y \<in> set pre. F y) \<and> T x) \<longleftrightarrow>
     T r \<or> (F r \<and> (\<exists>pre x post. rs = pre @ x # post \<and> (\<forall>y \<in> set pre. F y) \<and> T x))" (is "?l \<longleftrightarrow> ?r")
proof
  show "?r" if ?l
    using that by (auto simp: Cons_eq_append_conv) blast
  show "?l" if ?r
    using that
  proof (elim disjE conjE exE)
    fix pre x post
    assume "F r" "rs = pre @ x # post" "\<forall>y \<in> set pre. F y" "T x"
    then show ?l by (intro exI [of _ "r # pre"] exI [of _ x] exI [of _ post]) simp
  qed (intro exI [of _ "[]"] exI [of _ r] exI [of _ rs], simp)
qed

lemma find_role_Some:
  "find_role target rows = Inr (Some role) \<longleftrightarrow>
     (\<exists>pre row post. rows = pre @ row # post \<and> (\<forall>r \<in> set pre. row_of target r = Some False)
        \<and> (row_of target row = Some True \<and> jitem row ''role'' = Inr role))"
proof (induction rows)
  case (Cons r rows)
  show ?case
    unfolding first_such_Cons Cons.IH [symmetric]
    by (cases "or_item r ''userLogin'' ''login''"; cases "or_item r ''userEmail'' ''email''"; cases "jitem r ''role''")
      (auto simp: row_of_def)
qed simp

text \<open>
  C25: a role that the lookup returns is the one Grafana lists for the target. In one session pinned to
  the domain CA the admin signed in at Keycloak, from Grafana's own redirect and through the code that
  it redirected back with; the list of the organisation's users was then read without an error status; and the
  role is that of its first row whose login or email is the target, every row before it being another user's.
\<close>

theorem org_role_sound:
  assumes "grafana_org_role P admin password target w = (Inr role, w')"
  shows "\<exists>s entry es api members v rows pre row post. ws_verify s = ca_path P
     \<and> trace w' = trace w @ EWeb (Inr s) (plain_get (grafana_base @ ''/login/generic_oauth'') False 30) (Inr entry) # es @
         [EWeb (Inr s) (plain_get (grafana_base @ ''/api/user'') True 30) (Inr api),
          EWeb (Inr s) (plain_get (grafana_base @ ''/api/org/users'') True 30) (Inr members)]
     \<and> redirected entry \<and> signed_in P s entry admin password es
     \<and> \<not> (400 \<le> wr_status members \<and> wr_status members < 600) \<and> wr_json members = Inr v \<and> jiter v = Inr rows
     \<and> rows = pre @ row # post \<and> row_of target row = Some True \<and> jitem row ''role'' = Inr role
     \<and> (\<forall>r \<in> set pre. row_of target r = Some False)"
proof -
  from assms obtain info s w1 members v rows where session: "grafana_sso_session P admin password w = (Inr (info, s), w1)"
    and members: "session_get P s (grafana_base @ ''/api/org/users'') True 30 w1 = (Inr members, w')"
    and v: "\<not> (400 \<le> wr_status members \<and> wr_status members < 600)" "wr_json members = Inr v" "jiter v = Inr rows"
    and role: "find_role target rows = Inr (Some role)"
    by (auto simp: grafana_org_role_def io_bind_Inr io_then_Inr split: if_splits option.splits)
  from role obtain pre row post where rows: "rows = pre @ row # post" "row_of target row = Some True" "jitem row ''role'' = Inr role"
    "\<forall>r \<in> set pre. row_of target r = Some False"
    unfolding find_role_Some by blast
  from grafana_session_run [OF session] obtain entry es api where "ws_verify s = ca_path P" "redirected entry"
    "signed_in P s entry admin password es"
    "trace w1 = trace w @ EWeb (Inr s) (plain_get (grafana_base @ ''/login/generic_oauth'') False 30) (Inr entry) # es @
         [EWeb (Inr s) (plain_get (grafana_base @ ''/api/user'') True 30) (Inr api)]"
    by blast
  then show ?thesis
    using session_get_run [OF members] v rows
    by (intro exI [of _ s] exI [of _ entry] exI [of _ es] exI [of _ api] exI [of _ members] exI [of _ v] exI [of _ rows]
        exI [of _ pre] exI [of _ row] exI [of _ post]) simp
qed


section \<open>GitLab\<close>

lemma sign_in_run:
  assumes "gitlab_sign_in P s w = (Inr page, w')"
  shows "\<exists>pre url. trace w' = trace w @ pre @ [EWeb (Inr s) (plain_get url False 30) (Inr page)]
     \<and> pre @ [EWeb (Inr s) (plain_get url False 30) (Inr page)] \<noteq> []
     \<and> (\<exists>x rest. pre @ [EWeb (Inr s) (plain_get url False 30) (Inr page)] =
          EWeb (Inr s) (plain_get (gitlab_base @ ''/users/sign_in'') False 30) x # rest \<and> length rest \<le> 1)"
proof -
  from assms obtain resp w1 where first: "session_get P s (gitlab_base @ ''/users/sign_in'') False 30 w = (Inr resp, w1)"
    and more: "(if redirected resp then io_bind (lift (location_item resp)) (\<lambda>loc. session_get P s loc False 30) else ret resp) w1 = (Inr page, w')"
    by (auto simp: gitlab_sign_in_def io_bind_Inr)
  show ?thesis
  proof (cases "redirected resp")
    case True
    with more obtain loc where "session_get P s loc False 30 w1 = (Inr page, w')" by (auto simp: io_bind_Inr)
    with session_get_run [OF first] session_get_run [OF this] show ?thesis
      by (intro exI [of _ "[EWeb (Inr s) (plain_get (gitlab_base @ ''/users/sign_in'') False 30) (Inr resp)]"] exI [of _ loc]) simp
  next
    case False
    with more have "resp = page" "w' = w1" by auto
    with session_get_run [OF first] show ?thesis
      by (intro exI [of _ "[]"] exI [of _ "gitlab_base @ ''/users/sign_in''"]) simp
  qed
qed


section \<open>The properties at work\<close>

definition grafana_answers :: "web_response list" where
  "grafana_answers =
     [answer 302 (grafana_base @ ''/login/generic_oauth'') [(''Location'', kc_auth_url @ ''?client_id=grafana'')] [] JNull,
      answer 200 kc_auth_url [] kc_page JNull,
      answer 302 kc_auth_url [(''Location'', grafana_base @ ''/login/generic_oauth?code=abc'')] [] JNull,
      answer 200 grafana_base [] [] JNull,
      answer 200 (grafana_base @ ''/api/user'') [] [] (JObj [(''login'', JStr ''adm'')]),
      answer 200 (grafana_base @ ''/api/org/users'') [] []
        (JList [JObj [(''login'', JStr ''adm''), (''role'', JStr ''Admin'')],
                JObj [(''userLogin'', JStr ''user''), (''email'', JStr ''user@dev.lo''), (''role'', JStr ''Viewer'')]])]"

lemma grafana_run:
  "(case grafana_org_role (replay (\<lambda>k. None)) ''adm'' ''pw'' ''user@dev.lo'' (recorded grafana_answers) of
      (Inr role, w') \<Rightarrow> role = JStr ''Viewer''
    | (Inl e, w') \<Rightarrow> False)"
  by code_simp

lemma org_role_sound_witness:
  "\<exists>w' entry es. grafana_org_role (replay (\<lambda>k. None)) ''adm'' ''pw'' ''user@dev.lo'' (recorded grafana_answers) = (Inr (JStr ''Viewer''), w')
     \<and> (\<exists>s. signed_in (replay (\<lambda>k. None)) s entry ''adm'' ''pw'' es)"
proof -
  obtain w' where run: "grafana_org_role (replay (\<lambda>k. None)) ''adm'' ''pw'' ''user@dev.lo'' (recorded grafana_answers) = (Inr (JStr ''Viewer''), w')"
    using grafana_run by (auto split: prod.splits sum.splits)
  from org_role_sound [OF run] run show ?thesis by blast
qed

definition gitlab_page :: string where
  "gitlab_page = ''<form class=x action='' @ dquote # ''/users/auth/openid_connect'' @ dquote # ''><input name='' @ dquote #
     ''authenticity_token'' @ dquote # '' value='' @ dquote # ''t1&amp;t2'' @ dquote # ''></form>''"

definition gitlab_answers :: "web_response list" where
  "gitlab_answers =
     [answer 200 (gitlab_base @ ''/users/sign_in'') [] gitlab_page JNull,
      answer 302 (gitlab_base @ ''/users/auth/openid_connect'') [(''Location'', kc_auth_url @ ''?client_id=gitlab'')] [] JNull,
      answer 200 kc_auth_url [] kc_page JNull,
      answer 302 kc_auth_url [(''Location'', gitlab_base @ ''/users/auth/openid_connect/callback?code=abc'')] [] JNull,
      answer 200 gitlab_base [] [] JNull,
      answer 200 (gitlab_base @ ''/api/v4/user'') [] [] (JObj [(''username'', JStr ''test'')])]"

lemma gitlab_run:
  "(case gitlab_sso_login (replay (\<lambda>k. None)) ''test'' ''pw'' (recorded gitlab_answers) of
      (Inr info, w') \<Rightarrow> info = JObj [(''username'', JStr ''test'')]
    | (Inl e, w') \<Rightarrow> False)"
  by code_simp


end
