(* ===== verification/Verify_Secrets.thy ===== *)
theory Verify_Secrets
  imports Verify_Sso
begin

text \<open>
  Where the harness sends what it must keep: the OpenBao root token, the admin's bearer token, the admin password
  and the client secrets. One predicate on requests says what may leave, and every web flow is shown to
  make only such requests, whatever the services answer.
\<close>

definition master_token_url :: string where
  "master_token_url = kc_base @ ''/realms/master/protocol/openid-connect/token''"

definition well_sent :: "'w platform \<Rightarrow> event \<Rightarrow> bool" where
  "well_sent P e \<longleftrightarrow>
     (case e of
        EWeb c req _ \<Rightarrow>
          (case c of
             Inl ca \<Rightarrow> ca = ca_path P \<and> wq_headers req = [] \<and> wq_url req \<in> {kc_token_url, master_token_url}
           | Inr s \<Rightarrow> ws_verify s = ca_path P \<and>
               (wq_headers req = []
                \<or> map fst (wq_headers req) = [''X-Vault-Token''] \<and> prefix bao_base (wq_url req)
                \<or> map fst (wq_headers req) = [''Authorization''] \<and> prefix kc_admin_api (wq_url req)))
      | _ \<Rightarrow> False)"

lemma request_fields [simp]:
  "wq_headers (plain_get url b t) = []" "wq_url (plain_get url b t) = url"
  "wq_headers (login_post url f) = []" "wq_url (login_post url f) = url"
  "wq_headers (token_post url f) = []" "wq_url (token_post url f) = url"
  "wq_headers (login_query c ruri) = []"
  by (simp_all add: plain_get_def login_post_def token_post_def login_query_def)

lemma well_sent_simps [simp]:
  "well_sent P (EWeb (Inl ca) req x) \<longleftrightarrow> ca = ca_path P \<and> wq_headers req = [] \<and> wq_url req \<in> {kc_token_url, master_token_url}"
  "well_sent P (EWeb (Inr s) req x) \<longleftrightarrow> ws_verify s = ca_path P \<and>
     (wq_headers req = [] \<or> map fst (wq_headers req) = [''X-Vault-Token''] \<and> prefix bao_base (wq_url req)
      \<or> map fst (wq_headers req) = [''Authorization''] \<and> prefix kc_admin_api (wq_url req))"
  by (simp_all add: well_sent_def)

text \<open>Every session of a flow is one that \<open>make_session\<close> pinned to the CA file.\<close>

lemma only_with_session:
  assumes "\<And>s. ws_verify s = ca_path P \<Longrightarrow> only Q (k s)"
  shows "only Q (io_bind (make_session P) k)"
  unfolding only_def
proof (rule spec_bind [OF spec_make_session], simp)
  fix es :: "event list" and s :: web_session
  assume "es = [] \<and> (\<forall>s'. Inr s = Inr s' \<longrightarrow> ws_verify s' = ca_path P)"
  then show "spec (k s) (\<lambda>es' _. \<forall>e \<in> set (es @ es'). Q e)" using assms [of s] by (auto simp: only_def)
qed

lemma only_assert [only_intros]: "only Q (assert b msg)"
  unfolding assert_def by (intro only_intros)

lemma get_well_sent: "ws_verify s = ca_path P \<Longrightarrow> only (well_sent P) (session_get P s url b t)"
  unfolding session_get_def by (intro only_intros) simp

lemma login_well_sent:
  assumes s: "ws_verify s = ca_path P"
  shows "only (well_sent P) (keycloak_login P s u p c ruri a)"
proof -
  have submit: "only (well_sent P) (submit_login_form P s page u p)" for page
    unfolding submit_login_form_def Let_def by (intro only_intros get_well_sent [OF s]) (simp add: s)
  have "only (well_sent P) (login_forms P s u p n page)" for n page
    by (induction n arbitrary: page) (auto intro!: only_intros submit)
  then show ?thesis
    unfolding keycloak_login_def hop_to_login_def Let_def by (intro only_intros get_well_sent [OF s]) (simp_all add: s)
qed

lemma ride_well_sent: "ws_verify s = ca_path P \<Longrightarrow> only (well_sent P) (ride_login P s e u p)"
  unfolding ride_login_def by (intro only_intros get_well_sent login_well_sent)

lemma admin_token_well_sent: "only (well_sent P) (keycloak_admin_token P)"
  unfolding keycloak_admin_token_def by (intro only_intros) (simp add: master_token_url_def)

lemma bao_well_sent: "only (well_sent P) (bao_api P path token meth body accepted)"
  unfolding bao_api_def by (intro only_with_session only_intros) simp

lemma proxy_well_sent: "ws_verify s = ca_path P \<Longrightarrow> only (well_sent P) (proxy_steps P s url client msg u p)"
  unfolding proxy_steps_def Let_def by (intro only_intros get_well_sent login_well_sent)

lemma grafana_session_well_sent: "only (well_sent P) (grafana_sso_session P u p)"
  unfolding grafana_sso_session_def by (intro only_with_session only_intros get_well_sent ride_well_sent)


lemma org_role_well_sent: "only (well_sent P) (grafana_org_role P admin password target)"
  unfolding grafana_org_role_def
proof (rule only_bind_result [OF grafana_session_well_sent], goal_cases)
  case (1 w found w')
  obtain info s where found: "found = (info, s)" by (cases found)
  with grafana_session_run [of P admin password w info s w'] 1 have s: "ws_verify s = ca_path P" by auto
  show ?case unfolding found prod.case by (intro only_intros get_well_sent [OF s])
qed

lemma hubble_well_sent: "only (well_sent P) (hubble_sso_flow P u p)"
  unfolding hubble_sso_flow_def by (intro only_with_session only_intros proxy_well_sent)

lemma traefik_well_sent: "only (well_sent P) (traefik_sso_flow P u p)"
  unfolding traefik_sso_flow_def traefik_report_def dashboard_totals_def
  by (intro only_with_session only_intros proxy_well_sent get_well_sent)


end
