(* ===== verification/Verify_Ipa.thy ===== *)
theory Verify_Ipa
  imports Verify_Env
begin

text \<open>
  The FreeIPA admin channel of \<open>verify/helpers.py\<close> and the users it provisions: the shell line that ansible
  runs on \<open>core01\<close>, its outcome, the retry of a group addition, and the life of a test user. The shells that
  read the line are modelled as far as the line needs them (commands, pipelines, words), so that what
  reaches the container is a statement about the text the code builds.
\<close>

section \<open>The admin channel\<close>

definition path_join :: "string \<Rightarrow> string \<Rightarrow> string" where
  "path_join a b = (if a = [] \<or> last a = CHR ''/'' then a @ b else a @ CHR ''/'' # b)"

definition ansible_dir :: "'w platform \<Rightarrow> string" where
  "ansible_dir P = path_join (p_repo_root P) ''ansible''"

definition ansible_cfg :: "'w platform \<Rightarrow> string" where
  "ansible_cfg P = path_join (ansible_dir P) ''ansible.cfg''"

definition ipa_script :: "bool \<Rightarrow> string list \<Rightarrow> string" where
  "ipa_script strict cmds =
     (if strict then ''set -e; cat|base64 -d|kinit admin >/dev/null; '' @ py_join ''; '' cmds
      else ''cat|base64 -d|kinit admin >/dev/null; '' @ py_join ''; '' (map (\<lambda>c. c @ '' || true'') cmds))"

definition ipa_remote :: "string \<Rightarrow> string \<Rightarrow> string" where
  "ipa_remote pwd_b64 inner =
     ''printf '' @ [squote] @ ''%s'' @ [squote] @ '' '' @ [squote] @ pwd_b64 @ [squote] @
     '' | docker exec -i freeipa-server bash -c '' @ [squote] @ inner @ [squote]"

definition ipa_request :: "'w platform \<Rightarrow> string \<Rightarrow> string list \<Rightarrow> bool \<Rightarrow> process_request" where
  "ipa_request P pwd_b64 cmds strict =
     \<lparr>pr_argv = [''ansible'', ''core01'', ''-m'', ''shell'', ''-a'', ipa_remote pwd_b64 (ipa_script strict cmds)],
      pr_input = None, pr_cwd = Some (ansible_dir P), pr_env = [(''ANSIBLE_CONFIG'', ansible_cfg P)]\<rparr>"

definition ipa_failure :: "string \<Rightarrow> process_result \<Rightarrow> exn" where
  "ipa_failure pwd_b64 p =
     Exn RuntimeError (''ipa admin channel failed:'' @ newline #
       first_n 1500 (py_replace pwd_b64 ''<redacted>'' (pr_stdout p @ pr_stderr p)))"

definition ipa_admin :: "'w platform \<Rightarrow> string list \<Rightarrow> bool \<Rightarrow> ('w, unit) io" where
  "ipa_admin P cmds strict =
     io_bind (lift (env_var P ''FREEIPA_ADMIN_PASSWORD'')) (\<lambda>pwd.
     let pwd_b64 = b64_text pwd in
     io_bind (run_process P (ipa_request P pwd_b64 cmds strict)) (\<lambda>p.
     if pr_returncode p \<noteq> 0 then raise (ipa_failure pwd_b64 p) else ret ()))"

section \<open>Users and groups\<close>

definition user_add_commands :: "string \<Rightarrow> string \<Rightarrow> string \<Rightarrow> string list" where
  "user_add_commands name email password =
     [''ipa user-add '' @ name @ '' --first=Verify --last=Test --email='' @ email,
      ''echo '' @ [squote] @ password @ [squote] @ '' | ipa passwd '' @ name]"

definition ipa_user_add :: "'w platform \<Rightarrow> string \<Rightarrow> string \<Rightarrow> string \<Rightarrow> ('w, unit) io" where
  "ipa_user_add P name email password = ipa_admin P (user_add_commands name email password) True"

definition ipa_group_settle_s :: int where
  "ipa_group_settle_s = 5"

definition ipa_group_settle_retries :: nat where
  "ipa_group_settle_retries = 3"

definition group_add_commands :: "string \<Rightarrow> string \<Rightarrow> string list" where
  "group_add_commands grp user = [''ipa group-add-member '' @ grp @ '' --users='' @ user]"

definition unsettled :: "exn \<Rightarrow> bool" where
  "unsettled e \<longleftrightarrow> py_in ''no such entry'' (exn_msg e)"

text \<open>The loop over the attempts; a result \<open>True\<close> of the body is the \<open>return\<close> out of it.\<close>

fun group_add_attempts :: "'w platform \<Rightarrow> string \<Rightarrow> string \<Rightarrow> nat list \<Rightarrow> ('w, unit) io" where
  "group_add_attempts P grp user [] = ret ()"
| "group_add_attempts P grp user (attempt # attempts) =
     io_bind
       (io_except [RuntimeError]
          (io_then (ipa_admin P (group_add_commands grp user) True) (ret True))
          (\<lambda>exc. if \<not> unsettled exc \<or> attempt = ipa_group_settle_retries then raise exc
                 else io_then (sleep P ipa_group_settle_s) (ret False)))
       (\<lambda>returned. if returned then ret () else group_add_attempts P grp user attempts)"

definition ipa_group_add_member :: "'w platform \<Rightarrow> string \<Rightarrow> string \<Rightarrow> ('w, unit) io" where
  "ipa_group_add_member P grp user = group_add_attempts P grp user [0 ..< ipa_group_settle_retries + 1]"

definition group_remove_commands :: "string \<Rightarrow> string \<Rightarrow> string list" where
  "group_remove_commands grp user = [''ipa group-remove-member '' @ grp @ '' --users='' @ user]"

definition ipa_group_remove_member :: "'w platform \<Rightarrow> string \<Rightarrow> string \<Rightarrow> ('w, unit) io" where
  "ipa_group_remove_member P grp user = ipa_admin P (group_remove_commands grp user) False"

definition user_del_commands :: "string \<Rightarrow> string list" where
  "user_del_commands name = [''ipa user-del '' @ name]"

definition ipa_user_del :: "'w platform \<Rightarrow> string \<Rightarrow> ('w, unit) io" where
  "ipa_user_del P name = ipa_admin P (user_del_commands name) False"

record test_user =
  tu_name :: string
  tu_email :: string
  tu_password :: string
  tu_groups :: "string list"

text \<open>\<open>extend\<close> consumes the generator item by item, so each group is tested against the list so far.\<close>

definition add_groups :: "string list \<Rightarrow> test_user \<Rightarrow> test_user" where
  "add_groups gs u = u\<lparr>tu_groups := fold (\<lambda>g acc. if g \<in> set acc then acc else acc @ [g]) gs (tu_groups u)\<rparr>"

definition user_groups :: "string list" where
  "user_groups = [''gitlab-users'', ''grafana-users'', ''longhorn-users'', ''openbao-users'', ''hubble-users'', ''traefik-users'']"

definition admin_groups :: "string list" where
  "admin_groups = [''gitlab-admins'', ''grafana-admins'', ''longhorn-admins'', ''openbao-admins'', ''hubble-admins'',
     ''traefik-admins'', ''keycloak-admins'']"

definition make_test_users :: "'w platform \<Rightarrow> ('w, test_user \<times> test_user) io" where
  "make_test_users P =
     io_bind (token_urlsafe P 24) (\<lambda>p1.
     let user = add_groups user_groups
           \<lparr>tu_name = ''test'', tu_email = ''verify-test@dev.lo'', tu_password = p1, tu_groups = []\<rparr> in
     io_bind (token_urlsafe P 24) (\<lambda>p2.
     let adm = add_groups admin_groups
           \<lparr>tu_name = ''test.adm'', tu_email = ''verify-test-adm@dev.lo'', tu_password = p2, tu_groups = []\<rparr> in
     ret (user, adm)))"

definition provision_user :: "'w platform \<Rightarrow> test_user \<Rightarrow> ('w, unit) io" where
  "provision_user P u =
     io_then (ipa_user_del P (tu_name u))
     (io_then (ipa_user_add P (tu_name u) (tu_email u) (tu_password u))
     (io_fold (\<lambda>grp _. ipa_group_add_member P grp (tu_name u)) (tu_groups u) ()))"

definition remove_user :: "'w platform \<Rightarrow> test_user \<Rightarrow> ('w, unit) io" where
  "remove_user P u =
     io_then (io_fold (\<lambda>grp _. ipa_group_remove_member P grp (tu_name u)) (tu_groups u) ())
     (ipa_user_del P (tu_name u))"

definition ipa_sync_settle_s :: int where
  "ipa_sync_settle_s = 80"

definition wait_for_keycloak_sync :: "'w platform \<Rightarrow> ('w, unit) io" where
  "wait_for_keycloak_sync P = sleep P ipa_sync_settle_s"

section \<open>The shells that read the line\<close>

text \<open>
  A text is cut at a separator that stands outside quotes; a pipeline is a text cut at \<open>|\<close>, each piece read
  as words.
\<close>

fun cons_head :: "char \<Rightarrow> string list \<Rightarrow> string list" where
  "cons_head c [] = [[c]]"
| "cons_head c (x # xs) = (c # x) # xs"

fun sh_split :: "char \<Rightarrow> quoting \<Rightarrow> string \<Rightarrow> string list" where
  "sh_split sep q [] = [[]]"
| "sh_split sep Bare (c # cs) =
     (if c = sep then [] # sh_split sep Bare cs
      else cons_head c (sh_split sep (if c = squote then InSingle else if c = dquote then InDouble else Bare) cs))"
| "sh_split sep InSingle (c # cs) = cons_head c (sh_split sep (if c = squote then Bare else InSingle) cs)"
| "sh_split sep InDouble (c # cs) = cons_head c (sh_split sep (if c = dquote then Bare else InDouble) cs)"

definition sh_pipeline :: "string \<Rightarrow> string list list option" where
  "sh_pipeline s = those (map sh_words (sh_split (CHR ''|'') Bare s))"

definition sh_commands :: "string \<Rightarrow> string list" where
  "sh_commands s = sh_split (CHR '';'') Bare s"


lemma cons_head_append: "xs \<noteq> [] \<Longrightarrow> cons_head c (xs @ ys) = cons_head c xs @ ys"
  by (cases xs) simp_all

text \<open>Text without the separator and without quotes joins the first piece of what follows it.\<close>

definition onto_head :: "string \<Rightarrow> string list \<Rightarrow> string list" where
  "onto_head x ps = (x @ hd ps) # tl ps"

lemma sh_split_not_Nil [simp]: "sh_split sep q s \<noteq> []"
proof -
  have c: "cons_head c xs \<noteq> []" for c xs by (cases xs) simp_all
  show ?thesis by (cases "(sep, q, s)" rule: sh_split.cases) (simp_all add: c)
qed

lemma onto_head_Cons: "ps \<noteq> [] \<Longrightarrow> cons_head c (onto_head x ps) = onto_head (c # x) ps"
  by (simp add: onto_head_def)

lemma cons_head_onto: "ps \<noteq> [] \<Longrightarrow> cons_head c ps = onto_head [c] ps"
  by (cases ps) (simp_all add: onto_head_def)

lemma onto_head_onto [simp]: "onto_head x (onto_head y ps) = onto_head (x @ y) ps"
  by (simp add: onto_head_def)

lemma onto_head_Nil [simp]: "ps \<noteq> [] \<Longrightarrow> onto_head [] ps = ps"
  by (simp add: onto_head_def)

lemma onto_head_single [simp]: "onto_head x (y # ys) = (x @ y) # ys"
  by (simp add: onto_head_def)

definition plain_for :: "char \<Rightarrow> string \<Rightarrow> bool" where
  "plain_for sep x \<longleftrightarrow> list_all (\<lambda>c. c \<noteq> sep \<and> c \<noteq> squote \<and> c \<noteq> dquote) x"

lemma sh_split_plain: "plain_for sep x \<Longrightarrow> sh_split sep Bare (x @ r) = onto_head x (sh_split sep Bare r)"
  by (induction x) (auto simp: plain_for_def onto_head_Cons)

lemma sh_split_all: "plain_for sep x \<Longrightarrow> sh_split sep Bare x = [x]"
  using sh_split_plain [of sep x "[]"] by simp

lemma sh_split_sep: "sh_split sep Bare (sep # r) = [] # sh_split sep Bare r"
  by simp

lemma sh_split_quoted:
  assumes "squote \<notin> set x" and "sep \<noteq> squote"
  shows "sh_split sep Bare (squote # x @ squote # r) = onto_head (squote # x @ [squote]) (sh_split sep Bare r)"
proof -
  have "sh_split sep InSingle (x @ squote # r) = onto_head (x @ [squote]) (sh_split sep Bare r)"
    using assms(1) by (induction x) (auto simp: onto_head_Cons cons_head_onto)
  then show ?thesis using assms(2) by (simp add: onto_head_Cons)
qed

lemma sh_read_quoted: "squote \<notin> set x \<Longrightarrow> sh_read InSingle (Some v) (x @ squote # r) = sh_read Bare (Some (v @ x)) r"
  by (induction x arbitrary: v) auto

definition safe_word :: "string \<Rightarrow> bool" where
  "safe_word w \<longleftrightarrow> w \<noteq> [] \<and> list_all shell_safe w"

lemma safe_word_quote: "safe_word w \<Longrightarrow> shlex_quote w = w"
  by (simp add: safe_word_def shlex_quote_def)

lemma sh_words_safe_Cons: "safe_word w \<Longrightarrow> sh_words (w @ CHR '' '' # r) = map_option ((#) w) (sh_words r)"
  using sh_words_quote_Cons [of w r] by (simp add: safe_word_quote)

lemma sh_words_safe: "safe_word w \<Longrightarrow> sh_words w = Some [w]"
  using sh_words_quote [of w] by (simp add: safe_word_quote)

lemma sh_words_quoted_Cons:
  "squote \<notin> set x \<Longrightarrow> sh_words (squote # x @ squote # CHR '' '' # r) = map_option ((#) x) (sh_words r)"
  by (simp add: sh_words_def sh_read_quoted append_one)

lemma sh_words_blank: "sh_words (CHR '' '' # s) = sh_words s"
  by (cases "sh_read Bare None s") (simp_all add: sh_words_def)

lemma sh_words_Nil: "sh_words [] = Some []"
  by (simp add: sh_words_def)

text \<open>Shell-safe words with blanks between them are read as they are.\<close>

lemma sh_words_join: "\<forall>w \<in> set ws. safe_word w \<Longrightarrow> sh_words (py_join '' '' ws) = Some ws"
  by (induction "'' ''" ws rule: py_join.induct) (simp_all add: sh_words_Nil sh_words_safe sh_words_safe_Cons)

lemma sh_words_join_blank: "\<forall>w \<in> set ws. safe_word w \<Longrightarrow> sh_words (py_join '' '' ws @ '' '') = Some ws"
proof (induction "'' ''" ws rule: py_join.induct)
  case 1
  show ?case by (simp add: sh_words_blank sh_words_Nil)
qed (simp_all add: sh_words_Nil sh_words_safe_Cons)

lemma shell_safe_neq:
  "shell_safe c \<Longrightarrow> c \<noteq> squote \<and> c \<noteq> dquote \<and> c \<noteq> CHR '' '' \<and> c \<noteq> CHR ''|'' \<and> c \<noteq> CHR '';''"
proof -
  have "\<not> shell_safe (CHR ''|'')" "\<not> shell_safe (CHR '';'')" by code_simp+
  then show "shell_safe c \<Longrightarrow> ?thesis" using shell_safe_not by auto
qed

lemma plain_for_safe: "list_all shell_safe w \<Longrightarrow> sep = CHR ''|'' \<or> sep = CHR '';'' \<Longrightarrow> plain_for sep w"
  unfolding plain_for_def list_all_iff using shell_safe_neq by blast

lemma plain_for_append [simp]: "plain_for sep (x @ y) \<longleftrightarrow> plain_for sep x \<and> plain_for sep y"
  by (simp add: plain_for_def)

lemma b64_safe_shell: "b64_safe c \<Longrightarrow> shell_safe c"
  by (auto simp: b64_safe_def b64_val_def shell_safe_def is_alpha_def is_digit_def Let_def split: if_splits)

lemma b64_text_safe: "list_all shell_safe (b64_text s)"
  using b64encode_safe [of "utf8 s"] utf8_bytes b64_safe_shell by (auto simp: b64_text_def list_all_iff)

section \<open>What reaches the container\<close>

text \<open>
  The word that a quoted inner script is read as, when the script has a password in quotes of its own: the
  quotes around it end and begin the outer ones, so they are gone.
\<close>

lemma sh_words_requoted:
  assumes "squote \<notin> set a" and "squote \<notin> set b" and "list_all shell_safe pw"
  shows "sh_words (squote # a @ squote # pw @ squote # b @ [squote]) = Some [a @ pw @ b]"
proof -
  have "sh_read Bare None (squote # a @ squote # pw @ squote # b @ [squote]) =
      sh_read Bare (Some a) (pw @ squote # b @ [squote])"
    using sh_read_quoted [OF assms(1), of "[]"] by simp
  also have "\<dots> = sh_read Bare (Some (a @ pw)) (squote # b @ [squote])"
    using sh_read_safe [OF assms(3), of "Some a"] by simp
  also have "\<dots> = sh_read InSingle (Some (a @ pw)) (b @ [squote])" by simp
  also have "\<dots> = Some [a @ pw @ b]"
    using sh_read_quoted [OF assms(2), of "a @ pw" "[]"] by simp
  finally show ?thesis by (simp add: sh_words_def)
qed

lemma sh_words_one_quoted: "squote \<notin> set x \<Longrightarrow> sh_words (squote # x @ [squote]) = Some [x]"
  using sh_read_quoted [of x "[]" "[]"] by (simp add: sh_words_def)

text \<open>The docker half of the line, and the whole line, for any quoted script that is one word.\<close>

definition docker_words :: "string list" where
  "docker_words = [''docker'', ''exec'', ''-i'', ''freeipa-server'', ''bash'', ''-c'']"

lemma docker_words_safe: "\<forall>w \<in> set docker_words. safe_word w"
  by code_simp

lemma sh_words_safe_list:
  "\<forall>w \<in> set ws. safe_word w \<Longrightarrow>
     sh_words (concat (map (\<lambda>w. w @ '' '') ws) @ r) = map_option ((@) ws) (sh_words r)"
proof (induction ws)
  case Nil
  show ?case by (cases "sh_words r") simp_all
next
  case (Cons w ws)
  then show ?case by (cases "sh_words r") (simp_all add: sh_words_safe_Cons)
qed

lemma docker_text:
  "'' docker exec -i freeipa-server bash -c '' = CHR '' '' # concat (map (\<lambda>w. w @ '' '') docker_words)"
  by (simp add: docker_words_def)

lemma plain_docker: "plain_for (CHR ''|'') '' docker exec -i freeipa-server bash -c ''"
  by code_simp

lemma ipa_remote_shape:
  "ipa_remote b inner =
     ''printf '' @ squote # ''%s'' @ squote # CHR '' '' # squote # b @ squote # CHR '' '' # CHR ''|'' #
     '' docker exec -i freeipa-server bash -c '' @ squote # inner @ [squote]"
  by (simp add: ipa_remote_def)

lemma sh_pipeline_remote:
  assumes b: "list_all shell_safe b"
    and one: "sh_split (CHR ''|'') Bare (squote # inner @ [squote]) = [squote # inner @ [squote]]"
    and word: "sh_words (squote # inner @ [squote]) = Some [script]"
  shows "sh_pipeline (ipa_remote b inner) = Some [[''printf'', ''%s'', b], docker_words @ [script]]"
proof -
  have nb: "squote \<notin> set b" using b shell_safe_neq by (auto simp: list_all_iff)
  have np: "squote \<notin> set ''%s''" "CHR ''|'' \<noteq> squote" "plain_for (CHR ''|'') ''printf ''" "plain_for (CHR ''|'') '' ''"
    by code_simp+
  have "sh_split (CHR ''|'') Bare (ipa_remote b inner) =
      onto_head ''printf '' (sh_split (CHR ''|'') Bare
        (squote # ''%s'' @ squote # '' '' @ squote # b @ squote # '' '' @ CHR ''|'' #
         '' docker exec -i freeipa-server bash -c '' @ squote # inner @ [squote]))"
    unfolding ipa_remote_shape by (subst sh_split_plain [OF np(3)]) simp
  also have "\<dots> = [''printf '' @ squote # ''%s'' @ squote # CHR '' '' # squote # b @ squote # '' '',
      '' docker exec -i freeipa-server bash -c '' @ squote # inner @ [squote]]"
    by (simp only: sh_split_quoted [OF np(1,2)] sh_split_quoted [OF nb np(2)] sh_split_plain [OF np(4)]
        sh_split_sep sh_split_plain [OF plain_docker] one onto_head_single) simp
  finally have split: "sh_split (CHR ''|'') Bare (ipa_remote b inner) = \<dots>" .
  have "safe_word ''printf''" by code_simp
  then have "sh_words (''printf'' @ CHR '' '' # squote # ''%s'' @ squote # CHR '' '' # squote # b @ squote # '' '') =
      Some [''printf'', ''%s'', b]"
    by (simp only: sh_words_safe_Cons sh_words_quoted_Cons [OF np(1)] sh_words_quoted_Cons [OF nb] sh_words_Nil) simp
  moreover have "sh_words ('' docker exec -i freeipa-server bash -c '' @ squote # inner @ [squote]) =
      Some (docker_words @ [script])"
    unfolding docker_text append.simps sh_words_blank sh_words_safe_list [OF docker_words_safe] word by simp
  ultimately show ?thesis
    unfolding sh_pipeline_def split by simp
qed

definition safe_user :: "string \<Rightarrow> string \<Rightarrow> string \<Rightarrow> bool" where
  "safe_user name email pw \<longleftrightarrow> safe_word name \<and> safe_word email \<and> safe_word pw"

definition kinit_text :: string where
  "kinit_text = ''set -e; cat|base64 -d|kinit admin >/dev/null; ''"

definition add_text :: "string \<Rightarrow> string \<Rightarrow> string" where
  "add_text name email = py_join '' '' [''ipa'', ''user-add'', name, ''--first=Verify'', ''--last=Test'', ''--email='' @ email]"

lemma add_text_plain:
  assumes "safe_word name" and "safe_word email" and "sep = CHR ''|'' \<or> sep = CHR '';''"
  shows "plain_for sep (add_text name email)"
proof -
  have "plain_for sep ''ipa user-add ''" "plain_for sep '' --first=Verify --last=Test --email=''"
    using assms(3) by (elim disjE; simp only:; code_simp)+
  moreover have e: "add_text name email = ''ipa user-add '' @ name @ '' --first=Verify --last=Test --email='' @ email"
    by (simp add: add_text_def)
  moreover have "plain_for sep name" "plain_for sep email"
    using assms plain_for_safe by (auto simp: safe_word_def)
  ultimately show ?thesis unfolding e plain_for_append by blast
qed

lemma add_text_words:
  assumes "safe_word name" and "safe_word email"
  shows "sh_words (add_text name email) = Some [''ipa'', ''user-add'', name, ''--first=Verify'', ''--last=Test'', ''--email='' @ email]"
proof -
  have "safe_word ''ipa''" "safe_word ''user-add''" "safe_word ''--first=Verify''" "safe_word ''--last=Test''"
    "list_all shell_safe ''--email=''"
    by code_simp+
  then show ?thesis
    unfolding add_text_def using assms by (intro sh_words_join) (simp add: safe_word_def)
qed

text \<open>The script the container's shell is given, and its commands.\<close>

definition container_script :: "string \<Rightarrow> string \<Rightarrow> string \<Rightarrow> string" where
  "container_script name email pw = kinit_text @ add_text name email @ ''; echo '' @ pw @ '' | ipa passwd '' @ name"

lemma user_add_script:
  "ipa_script True (user_add_commands name email pw) =
     (kinit_text @ add_text name email @ ''; echo '') @ squote # pw @ squote # ('' | ipa passwd '' @ name)"
  by (simp add: ipa_script_def user_add_commands_def kinit_text_def add_text_def)

lemma no_squote_plain: "plain_for sep x \<Longrightarrow> squote \<notin> set x"
  by (auto simp: plain_for_def list_all_iff)

lemma kinit_no_squote: "squote \<notin> set kinit_text" "squote \<notin> set ''; echo ''" "squote \<notin> set '' | ipa passwd ''"
  by code_simp+

lemma user_add_pipeline:
  assumes "safe_user name email pw" and "list_all shell_safe b"
  shows "sh_pipeline (ipa_remote b (ipa_script True (user_add_commands name email pw))) =
    Some [[''printf'', ''%s'', b], docker_words @ [container_script name email pw]]"
proof (rule sh_pipeline_remote [OF assms(2)])
  have n: "safe_word name" "safe_word email" "safe_word pw" using assms(1) by (simp_all add: safe_user_def)
  have pw: "list_all shell_safe pw" "plain_for (CHR ''|'') pw"
    using n(3) plain_for_safe by (auto simp: safe_word_def)
  have nm: "squote \<notin> set name"
    using n(1) plain_for_safe no_squote_plain by (metis safe_word_def)
  have at: "squote \<notin> set (add_text name email)"
    using add_text_plain [OF n(1,2), of "CHR ''|''"] no_squote_plain by blast
  have a: "squote \<notin> set (kinit_text @ add_text name email @ ''; echo '')"
    and b: "squote \<notin> set ('' | ipa passwd '' @ name)"
    using kinit_no_squote at nm by simp_all
  have ne: "CHR ''|'' \<noteq> squote" by code_simp
  show "sh_words (squote # ipa_script True (user_add_commands name email pw) @ [squote]) =
      Some [container_script name email pw]"
    unfolding user_add_script using sh_words_requoted [OF a b pw(1)] by (simp add: container_script_def)
  have "sh_split (CHR ''|'') Bare (squote # ipa_script True (user_add_commands name email pw) @ [squote]) =
      onto_head (squote # (kinit_text @ add_text name email @ ''; echo '') @ [squote])
        (onto_head pw (onto_head (squote # ('' | ipa passwd '' @ name) @ [squote]) [[]]))"
    unfolding user_add_script
    using sh_split_quoted [OF a ne, of "pw @ squote # ('' | ipa passwd '' @ name) @ [squote]"]
      sh_split_plain [OF pw(2), of "squote # ('' | ipa passwd '' @ name) @ [squote]"]
      sh_split_quoted [OF b ne, of "[]"]
    by simp
  then show "sh_split (CHR ''|'') Bare (squote # ipa_script True (user_add_commands name email pw) @ [squote]) =
      [squote # ipa_script True (user_add_commands name email pw) @ [squote]]"
    unfolding user_add_script by simp
qed

lemma container_commands:
  assumes "safe_user name email pw"
  shows "sh_commands (container_script name email pw) =
    [''set -e'', '' cat|base64 -d|kinit admin >/dev/null'', CHR '' '' # add_text name email,
     '' echo '' @ pw @ '' | ipa passwd '' @ name]"
proof -
  have n: "safe_word name" "safe_word email" "safe_word pw" using assms by (simp_all add: safe_user_def)
  have lits: "plain_for (CHR '';'') ''set -e''" "plain_for (CHR '';'') '' cat|base64 -d|kinit admin >/dev/null''"
    "plain_for (CHR '';'') '' ''" "plain_for (CHR '';'') '' echo ''" "plain_for (CHR '';'') '' | ipa passwd ''"
    by code_simp+
  have c1: "plain_for (CHR '';'') ('' '' @ add_text name email)"
    using lits(3) add_text_plain [OF n(1,2), of "CHR '';''"] unfolding plain_for_append by blast
  have c2: "plain_for (CHR '';'') ('' echo '' @ pw @ '' | ipa passwd '' @ name)"
    using n lits plain_for_safe [of _ "CHR '';''"] unfolding plain_for_append safe_word_def by blast
  have eq: "container_script name email pw =
      ''set -e'' @ CHR '';'' # '' cat|base64 -d|kinit admin >/dev/null'' @ CHR '';'' # ('' '' @ add_text name email) @
      CHR '';'' # ('' echo '' @ pw @ '' | ipa passwd '' @ name)"
    by (simp add: container_script_def kinit_text_def)
  show ?thesis
    unfolding sh_commands_def eq
    by (simp only: sh_split_plain [OF lits(1)] sh_split_plain [OF lits(2)] sh_split_plain [OF c1]
        sh_split_all [OF c2] sh_split_sep onto_head_single append_Nil2) simp
qed

lemma container_pipelines:
  assumes "safe_user name email pw"
  shows "sh_pipeline (CHR '' '' # add_text name email) =
      Some [[''ipa'', ''user-add'', name, ''--first=Verify'', ''--last=Test'', ''--email='' @ email]]"
    and "sh_pipeline ('' echo '' @ pw @ '' | ipa passwd '' @ name) = Some [[''echo'', pw], [''ipa'', ''passwd'', name]]"
proof -
  have n: "safe_word name" "safe_word email" "safe_word pw" using assms by (simp_all add: safe_user_def)
  have lits: "plain_for (CHR ''|'') '' ''" "plain_for (CHR ''|'') '' echo ''" "plain_for (CHR ''|'') '' ipa passwd ''"
    "safe_word ''echo''" "safe_word ''ipa''" "safe_word ''passwd''"
    by code_simp+
  have c1: "plain_for (CHR ''|'') ('' '' @ add_text name email)"
    using lits(1) add_text_plain [OF n(1,2), of "CHR ''|''"] unfolding plain_for_append by blast
  show "sh_pipeline (CHR '' '' # add_text name email) =
      Some [[''ipa'', ''user-add'', name, ''--first=Verify'', ''--last=Test'', ''--email='' @ email]]"
    using sh_split_all [OF c1] add_text_words [OF n(1,2)]
    by (simp add: sh_pipeline_def sh_words_blank)
  have p1: "plain_for (CHR ''|'') ('' echo '' @ pw @ '' '')" and p2: "plain_for (CHR ''|'') ('' ipa passwd '' @ name)"
    using n lits plain_for_safe [of _ "CHR ''|''"] unfolding plain_for_append safe_word_def by blast+
  have "'' echo '' @ pw @ '' | ipa passwd '' @ name =
      ('' echo '' @ pw @ '' '') @ CHR ''|'' # ('' ipa passwd '' @ name)" by simp
  then have s: "sh_split (CHR ''|'') Bare ('' echo '' @ pw @ '' | ipa passwd '' @ name) =
      ['' echo '' @ pw @ '' '', '' ipa passwd '' @ name]"
    by (simp only: sh_split_plain [OF p1] sh_split_all [OF p2] sh_split_sep onto_head_single append_Nil2)
  have "sh_words (CHR '' '' # ''echo'' @ CHR '' '' # pw @ CHR '' '' # []) = Some [''echo'', pw]"
    by (simp only: sh_words_blank sh_words_safe_Cons [OF lits(4)] sh_words_safe_Cons [OF n(3)] sh_words_Nil
        option.map)
  moreover have "sh_words (CHR '' '' # ''ipa'' @ CHR '' '' # ''passwd'' @ CHR '' '' # name) = Some [''ipa'', ''passwd'', name]"
    by (simp only: sh_words_blank sh_words_safe_Cons [OF lits(5)] sh_words_safe_Cons [OF lits(6)]
        sh_words_safe [OF n(1)] option.map)
  ultimately show "sh_pipeline ('' echo '' @ pw @ '' | ipa passwd '' @ name) = Some [[''echo'', pw], [''ipa'', ''passwd'', name]]"
    unfolding sh_pipeline_def s by simp
qed

section \<open>What the channel does\<close>

definition admin_password :: "'w platform \<Rightarrow> string" where
  "admin_password P = (case p_environ P ''FREEIPA_ADMIN_PASSWORD'' of None \<Rightarrow> [] | Some v \<Rightarrow> v)"

definition ipa_run :: "'w platform \<Rightarrow> string list \<Rightarrow> bool \<Rightarrow> process_result res \<Rightarrow> event" where
  "ipa_run P cmds strict x = ERun (ipa_request P (b64_text (admin_password P)) cmds strict) x"

definition ipa_outcome :: "'w platform \<Rightarrow> process_result res \<Rightarrow> unit res" where
  "ipa_outcome P x =
     (case x of
        Inl e \<Rightarrow> Inl e
      | Inr p \<Rightarrow> if pr_returncode p = 0 then Inr () else Inl (ipa_failure (b64_text (admin_password P)) p))"

lemma spec_ipa_admin:
  assumes "admin_password P \<noteq> []"
  shows "spec (ipa_admin P cmds strict) (\<lambda>es r. \<exists>x. es = [ipa_run P cmds strict x] \<and> r = ipa_outcome P x)"
proof -
  have "env_var P ''FREEIPA_ADMIN_PASSWORD'' = Inr (admin_password P)"
    using assms by (auto simp: env_var_Inr admin_password_def split: option.splits)
  then show ?thesis
    unfolding ipa_admin_def Let_def
    by (simp, intro spec_bind [OF spec_run_process] spec_intros) (auto simp: ipa_run_def ipa_outcome_def)
qed

lemma ipa_admin_unset: "admin_password P = [] \<Longrightarrow> \<exists>e. ipa_admin P cmds strict = raise e"
  by (auto simp: ipa_admin_def env_var_def admin_password_def split: option.splits)

lemma spec_ipa_user_add:
  "admin_password P \<noteq> [] \<Longrightarrow> spec (ipa_user_add P name email pw)
     (\<lambda>es r. \<exists>x. es = [ipa_run P (user_add_commands name email pw) True x] \<and> r = ipa_outcome P x)"
  unfolding ipa_user_add_def by (rule spec_ipa_admin)

lemma spec_ipa_user_del:
  "admin_password P \<noteq> [] \<Longrightarrow> spec (ipa_user_del P name)
     (\<lambda>es r. \<exists>x. es = [ipa_run P (user_del_commands name) False x] \<and> r = ipa_outcome P x)"
  unfolding ipa_user_del_def by (rule spec_ipa_admin)

lemma spec_ipa_group_remove:
  "admin_password P \<noteq> [] \<Longrightarrow> spec (ipa_group_remove_member P grp user)
     (\<lambda>es r. \<exists>x. es = [ipa_run P (group_remove_commands grp user) False x] \<and> r = ipa_outcome P x)"
  unfolding ipa_group_remove_member_def by (rule spec_ipa_admin)

section \<open>The retry of a group addition\<close>

text \<open>
  A run of the addition: attempts that failed because the entry has not settled, each followed by the pause,
  and the attempt that ended it.
\<close>

definition transient :: "'w platform \<Rightarrow> process_result res \<Rightarrow> bool" where
  "transient P x \<longleftrightarrow>
     (case ipa_outcome P x of
        Inl e \<Rightarrow> catches [RuntimeError] e \<and> unsettled e
      | Inr _ \<Rightarrow> False)"

definition add_attempt :: "'w platform \<Rightarrow> string \<Rightarrow> string \<Rightarrow> process_result res \<Rightarrow> event" where
  "add_attempt P grp user x = ipa_run P (group_add_commands grp user) True x"

definition failed_attempts :: "'w platform \<Rightarrow> string \<Rightarrow> string \<Rightarrow> process_result res list \<Rightarrow> event list" where
  "failed_attempts P grp user xs = concat (map (\<lambda>x. [add_attempt P grp user x, ESleep 5]) xs)"

definition retried :: "'w platform \<Rightarrow> string \<Rightarrow> string \<Rightarrow> nat \<Rightarrow> event list \<Rightarrow> unit res \<Rightarrow> bool" where
  "retried P grp user n es r \<longleftrightarrow>
     (\<exists>xs x. es = failed_attempts P grp user xs @ [add_attempt P grp user x] \<and> list_all (transient P) xs \<and>
        length xs \<le> n \<and> r = ipa_outcome P x \<and> (transient P x \<longrightarrow> length xs = n))"

lemma retried_one: "\<not> transient P x \<or> n = 0 \<Longrightarrow> retried P grp user n [add_attempt P grp user x] (ipa_outcome P x)"
  unfolding retried_def by (rule exI [of _ "[]"]) (auto simp: failed_attempts_def)

lemma retried_more:
  "transient P x \<Longrightarrow> retried P grp user n es r \<Longrightarrow>
     retried P grp user (Suc n) (add_attempt P grp user x # ESleep 5 # es) r"
  unfolding retried_def
  by (elim exE conjE, rule_tac x = "x # xs" in exI, rule_tac x = xa in exI) (simp add: failed_attempts_def)

definition attempt_ends :: "'w platform \<Rightarrow> string \<Rightarrow> string \<Rightarrow> nat \<Rightarrow> event list \<Rightarrow> bool res \<Rightarrow> bool" where
  "attempt_ends P grp user a es r \<longleftrightarrow>
     (\<exists>x. (r = Inr True \<and> es = [add_attempt P grp user x] \<and> ipa_outcome P x = Inr ()) \<or>
          (r = Inr False \<and> es = [add_attempt P grp user x, ESleep 5] \<and> transient P x \<and> a \<noteq> 3) \<or>
          (\<exists>e. r = Inl e \<and> es = [add_attempt P grp user x] \<and> ipa_outcome P x = Inl e \<and> (transient P x \<longrightarrow> a = 3)))"

lemma spec_attempt:
  assumes "admin_password P \<noteq> []"
  shows "spec (io_except [RuntimeError]
      (io_then (ipa_admin P (group_add_commands grp user) True) (ret True))
      (\<lambda>exc. if \<not> unsettled exc \<or> a = ipa_group_settle_retries then raise exc
             else io_then (sleep P ipa_group_settle_s) (ret False))) (attempt_ends P grp user a)"
proof (rule spec_except)
  let ?R = "\<lambda>es r. \<exists>x. es = [add_attempt P grp user x] \<and>
    (case r of Inl e \<Rightarrow> ipa_outcome P x = Inl e | Inr b \<Rightarrow> b \<and> ipa_outcome P x = Inr ())"
  show "spec (io_then (ipa_admin P (group_add_commands grp user) True) (ret True)) ?R"
    unfolding io_then_def
    by (rule spec_bind [OF spec_ipa_admin [OF assms]]) (auto intro!: spec_ret simp: add_attempt_def)
  fix es e
  assume "?R es (Inl e)"
  then obtain x where x: "es = [add_attempt P grp user x]" "ipa_outcome P x = Inl e" by auto
  show "attempt_ends P grp user a es (Inl e)" if "\<not> catches [RuntimeError] e"
    using x that by (auto simp: attempt_ends_def transient_def)
  show "spec (if \<not> unsettled e \<or> a = ipa_group_settle_retries then raise e
      else io_then (sleep P ipa_group_settle_s) (ret False)) (\<lambda>es' r. attempt_ends P grp user a (es @ es') r)"
    if c: "catches [RuntimeError] e"
  proof (rule spec_if)
    assume "\<not> unsettled e \<or> a = ipa_group_settle_retries"
    then show "spec (raise e) (\<lambda>es' r. attempt_ends P grp user a (es @ es') r)"
      using x by (intro spec_raise) (auto simp: attempt_ends_def transient_def ipa_group_settle_retries_def)
  next
    assume "\<not> (\<not> unsettled e \<or> a = ipa_group_settle_retries)"
    with x c have "attempt_ends P grp user a (es @ [ESleep 5]) (Inr False)"
      by (auto simp: attempt_ends_def transient_def ipa_group_settle_retries_def)
    then show "spec (io_then (sleep P ipa_group_settle_s) (ret False))
        (\<lambda>es' r. attempt_ends P grp user a (es @ es') r)"
      unfolding io_then_def
      by (intro spec_bind [OF spec_sleep] spec_ret) (simp_all add: ipa_group_settle_s_def)
  qed
qed (auto simp: attempt_ends_def)

lemma spec_attempts_step:
  assumes "admin_password P \<noteq> []" and "a = 3 \<Longrightarrow> n = 0"
    and "a \<noteq> 3 \<Longrightarrow> \<exists>m. n = Suc m \<and> spec (group_add_attempts P grp user as) (retried P grp user m)"
  shows "spec (group_add_attempts P grp user (a # as)) (retried P grp user n)"
  unfolding group_add_attempts.simps
proof (rule spec_bind [OF spec_attempt [OF assms(1)]])
  fix es e
  assume "attempt_ends P grp user a es (Inl e)"
  then obtain x where "es = [add_attempt P grp user x]" "ipa_outcome P x = Inl e" "transient P x \<longrightarrow> a = 3"
    by (auto simp: attempt_ends_def)
  then show "retried P grp user n es (Inl e)"
    using retried_one [of P x n grp user] assms(2) by auto
next
  fix es b
  assume "attempt_ends P grp user a es (Inr b)"
  then consider (over) x where "b" "es = [add_attempt P grp user x]" "ipa_outcome P x = Inr ()"
    | (again) x where "\<not> b" "es = [add_attempt P grp user x, ESleep 5]" "transient P x" "a \<noteq> 3"
    by (auto simp: attempt_ends_def)
  then show "spec (if b then ret () else group_add_attempts P grp user as)
      (\<lambda>es' r. retried P grp user n (es @ es') r)"
  proof cases
    case over
    then have "\<not> transient P x" by (simp add: transient_def)
    with over retried_one [of P x n grp user] show ?thesis by (simp add: spec_ret)
  next
    case again
    then obtain m where m: "n = Suc m" "spec (group_add_attempts P grp user as) (retried P grp user m)"
      using assms(3) by blast
    show ?thesis
      using again spec_weaken [OF m(2)] retried_more [OF again(3)] by (simp add: m(1))
  qed
qed

lemma spec_ipa_group_add:
  assumes "admin_password P \<noteq> []"
  shows "spec (ipa_group_add_member P grp user) (retried P grp user 3)"
proof -
  have l: "[0 ..< ipa_group_settle_retries + 1] = [0, 1, 2, 3]"
    by (simp add: ipa_group_settle_retries_def upt_rec)
  have s3: "spec (group_add_attempts P grp user [3]) (retried P grp user 0)"
    by (rule spec_attempts_step [OF assms]) simp_all
  have s2: "spec (group_add_attempts P grp user [2, 3]) (retried P grp user 1)"
    by (rule spec_attempts_step [OF assms]) (use s3 in simp_all)
  have s1: "spec (group_add_attempts P grp user [1, 2, 3]) (retried P grp user 2)"
    by (rule spec_attempts_step [OF assms]) (use s2 in \<open>simp_all add: numeral_2_eq_2\<close>)
  have "spec (group_add_attempts P grp user [0, 1, 2, 3]) (retried P grp user 3)"
    by (rule spec_attempts_step [OF assms]) (use s1 in \<open>simp_all add: numeral_3_eq_3 numeral_2_eq_2\<close>)
  then show ?thesis unfolding ipa_group_add_member_def l .
qed

section \<open>Sequences of channel runs\<close>

text \<open>A loop of operations that stops at the first one that raises.\<close>

fun runs :: "('a \<Rightarrow> event list \<Rightarrow> unit res \<Rightarrow> bool) \<Rightarrow> 'a list \<Rightarrow> event list \<Rightarrow> unit res \<Rightarrow> bool" where
  "runs R [] es r \<longleftrightarrow> es = [] \<and> r = Inr ()"
| "runs R (x # xs) es r \<longleftrightarrow>
     (\<exists>e. r = Inl e \<and> R x es (Inl e)) \<or> (\<exists>es1 es2. es = es1 @ es2 \<and> R x es1 (Inr ()) \<and> runs R xs es2 r)"

lemma spec_runs:
  assumes "\<And>x. spec (f x) (R x)"
  shows "spec (io_fold (\<lambda>x _. f x) xs ()) (runs R xs)"
proof (induction xs)
  case (Cons x xs)
  show ?case
    unfolding io_fold.simps
  proof (rule spec_bind [OF assms])
    fix es :: "event list" and u :: unit
    assume "R x es (Inr u)"
    then show "spec (io_fold (\<lambda>x _. f x) xs u) (\<lambda>es' r. runs R (x # xs) (es @ es') r)"
      using Cons.IH by (cases u, auto intro: spec_weaken)
  qed simp
qed (simp add: spec_ret)

lemma runs_success: "runs R xs es (Inr ()) \<Longrightarrow> \<exists>ess. es = concat ess \<and> list_all2 (\<lambda>x es. R x es (Inr ())) xs ess"
proof (induction xs arbitrary: es)
  case Nil
  then show ?case by simp
next
  case (Cons x xs)
  then obtain es1 es2 where s: "es = es1 @ es2" "R x es1 (Inr ())" "runs R xs es2 (Inr ())" by auto
  from Cons.IH [OF s(3)] obtain ess where "es2 = concat ess" "list_all2 (\<lambda>x es. R x es (Inr ())) xs ess"
    by blast
  with s show ?case by (intro exI [of _ "es1 # ess"]) simp
qed

definition channel :: "'w platform \<Rightarrow> string list \<Rightarrow> bool \<Rightarrow> event list \<Rightarrow> unit res \<Rightarrow> bool" where
  "channel P cmds strict es r \<longleftrightarrow> (\<exists>x. es = [ipa_run P cmds strict x] \<and> r = ipa_outcome P x)"

text \<open>The life of a user, as the runs of the channel: provisioning and removal.\<close>

definition provisioning :: "'w platform \<Rightarrow> test_user \<Rightarrow> event list \<Rightarrow> unit res \<Rightarrow> bool" where
  "provisioning P u =
     runs (\<lambda>R. R)
       (channel P (user_del_commands (tu_name u)) False #
        channel P (user_add_commands (tu_name u) (tu_email u) (tu_password u)) True #
        map (\<lambda>g. retried P g (tu_name u) 3) (tu_groups u))"

definition removal :: "'w platform \<Rightarrow> test_user \<Rightarrow> event list \<Rightarrow> unit res \<Rightarrow> bool" where
  "removal P u =
     runs (\<lambda>R. R)
       (map (\<lambda>g. channel P (group_remove_commands g (tu_name u)) False) (tu_groups u) @
        [channel P (user_del_commands (tu_name u)) False])"

lemma runs_map: "runs (\<lambda>R. R) (map R xs) = runs R xs"
proof (induction xs)
  case (Cons x xs)
  then show ?case by (simp add: fun_eq_iff)
qed (simp add: fun_eq_iff)

lemma runs_append:
  "runs R xs es1 (Inr ()) \<Longrightarrow> runs R ys es2 r \<Longrightarrow> runs R (xs @ ys) (es1 @ es2) r"
  "runs R xs es1 (Inl e) \<Longrightarrow> runs R (xs @ ys) es1 (Inl e)"
proof (induction xs arbitrary: es1)
  case (Cons x xs)
  {
    case 1
    then obtain a b where "es1 = a @ b" "R x a (Inr ())" "runs R xs b (Inr ())" by auto
    with Cons.IH(1) [of b] 1 show ?case
      unfolding append_Cons runs.simps by (intro disjI2 exI [of _ a] exI [of _ "b @ es2"]) simp
  next
    case 2
    with Cons.IH(2) show ?case by fastforce
  }
qed simp_all

lemma spec_provision_user:
  assumes "admin_password P \<noteq> []"
  shows "spec (provision_user P u) (provisioning P u)"
  unfolding provision_user_def io_then_def
proof (rule spec_bind [OF spec_ipa_user_del [OF assms]])
  fix es and z :: unit
  assume "\<exists>x. es = [ipa_run P (user_del_commands (tu_name u)) False x] \<and> Inr z = ipa_outcome P x"
  then have d: "channel P (user_del_commands (tu_name u)) False es (Inr ())" by (auto simp: channel_def)
  show "spec (io_bind (ipa_user_add P (tu_name u) (tu_email u) (tu_password u))
      (\<lambda>_. io_fold (\<lambda>grp _. ipa_group_add_member P grp (tu_name u)) (tu_groups u) ()))
      (\<lambda>es' r. provisioning P u (es @ es') r)"
  proof (rule spec_bind [OF spec_ipa_user_add [OF assms]])
    fix es' e
    assume "\<exists>x. es' = [ipa_run P (user_add_commands (tu_name u) (tu_email u) (tu_password u)) True x] \<and>
      Inl e = ipa_outcome P x"
    then have "channel P (user_add_commands (tu_name u) (tu_email u) (tu_password u)) True es' (Inl e)"
      by (auto simp: channel_def)
    with d show "provisioning P u (es @ es') (Inl e)" by (auto simp: provisioning_def)
  next
    fix es' and z :: unit
    assume "\<exists>x. es' = [ipa_run P (user_add_commands (tu_name u) (tu_email u) (tu_password u)) True x] \<and>
      Inr z = ipa_outcome P x"
    then have a: "channel P (user_add_commands (tu_name u) (tu_email u) (tu_password u)) True es' (Inr ())"
      by (auto simp: channel_def)
    show "spec (io_fold (\<lambda>grp _. ipa_group_add_member P grp (tu_name u)) (tu_groups u) ())
        (\<lambda>es'' r. provisioning P u (es @ es' @ es'') r)"
      using d a by (intro spec_weaken [OF spec_runs [OF spec_ipa_group_add [OF assms]]])
        (auto simp: provisioning_def runs_map)
  qed
qed (auto simp: provisioning_def channel_def)

lemma spec_remove_user:
  assumes "admin_password P \<noteq> []"
  shows "spec (remove_user P u) (removal P u)"
proof -
  have c: "spec (ipa_group_remove_member P g (tu_name u)) (channel P (group_remove_commands g (tu_name u)) False)" for g
    using spec_ipa_group_remove [OF assms] by (rule spec_weaken) (simp add: channel_def)
  show ?thesis
    unfolding remove_user_def io_then_def
  proof (rule spec_bind [OF spec_runs [OF c]])
    fix es and z :: unit
    assume "runs (\<lambda>x. channel P (group_remove_commands x (tu_name u)) False) (tu_groups u) es (Inr z)"
    then show "spec (ipa_user_del P (tu_name u)) (\<lambda>es' r. removal P u (es @ es') r)"
      unfolding removal_def
      by (intro spec_weaken [OF spec_ipa_user_del [OF assms]] runs_append(1))
        (simp_all add: runs_map channel_def, metis old.sum.exhaust old.unit.exhaust)
  qed (auto simp: removal_def runs_map intro!: runs_append(2))
qed

section \<open>The directory\<close>

text \<open>
  An abstract FreeIPA directory: the password and the groups of each user. A successful channel run is
  replayed on it by reading its argument the way the shells do and giving each \<open>ipa\<close> command its
  documented effect; a command the directory does not know, and a run that failed, have none.
\<close>

record dir_user =
  du_password :: "string option"
  du_groups :: "string set"

type_synonym directory = "string \<Rightarrow> dir_user option"

definition dir_pipeline :: "string list list \<Rightarrow> directory \<Rightarrow> directory" where
  "dir_pipeline pl d =
     (case pl of
        [a # b # args] \<Rightarrow>
          if a = ''ipa'' \<and> b = ''user-add'' \<and> args \<noteq> [] then
            d(hd args \<mapsto> \<lparr>du_password = None, du_groups = {}\<rparr>)
          else if a = ''ipa'' \<and> b = ''group-add-member'' \<and> length args = 2 \<and> prefix ''--users='' (args ! 1) then
            (let user = drop 8 (args ! 1) in
             d(user := map_option (\<lambda>u. u\<lparr>du_groups := insert (args ! 0) (du_groups u)\<rparr>) (d user)))
          else d
      | [[a, v], [b, c, user]] \<Rightarrow>
          if a = ''echo'' \<and> b = ''ipa'' \<and> c = ''passwd''
          then d(user := map_option (\<lambda>u. u\<lparr>du_password := Some v\<rparr>) (d user)) else d
      | [[a, b, user], [], [c]] \<Rightarrow>
          if a = ''ipa'' \<and> b = ''user-del'' \<and> c = ''true'' then d(user := None) else d
      | _ \<Rightarrow> d)"

definition dir_command :: "string \<Rightarrow> directory \<Rightarrow> directory" where
  "dir_command c d = (case sh_pipeline c of None \<Rightarrow> d | Some pl \<Rightarrow> dir_pipeline pl d)"

definition script_of :: "process_request \<Rightarrow> string option" where
  "script_of req =
     (if length (pr_argv req) = 6 \<and> take 5 (pr_argv req) = [''ansible'', ''core01'', ''-m'', ''shell'', ''-a''] then
        (case sh_pipeline (pr_argv req ! 5) of
           Some [feed, words] \<Rightarrow>
             if length words = 7 \<and> take 6 words = docker_words then Some (words ! 6) else None
         | _ \<Rightarrow> None)
      else None)"

definition dir_event :: "event \<Rightarrow> directory \<Rightarrow> directory" where
  "dir_event e d =
     (case e of
        ERun req (Inr p) \<Rightarrow>
          if pr_returncode p = 0 then
            (case script_of req of None \<Rightarrow> d | Some s \<Rightarrow> fold dir_command (sh_commands s) d)
          else d
      | _ \<Rightarrow> d)"

text \<open>Scripts without quotes reach the container as they are.\<close>

lemma plain_pipeline:
  assumes "squote \<notin> set (ipa_script strict cmds)" and "list_all shell_safe b"
  shows "sh_pipeline (ipa_remote b (ipa_script strict cmds)) =
    Some [[''printf'', ''%s'', b], docker_words @ [ipa_script strict cmds]]"
proof (rule sh_pipeline_remote [OF assms(2)])
  have ne: "CHR ''|'' \<noteq> squote" by code_simp
  show "sh_split (CHR ''|'') Bare (squote # ipa_script strict cmds @ [squote]) = [squote # ipa_script strict cmds @ [squote]]"
    using sh_split_quoted [OF assms(1) ne, of "[]"] by simp
qed (rule sh_words_one_quoted [OF assms(1)])

lemma script_of_request:
  "sh_pipeline (ipa_remote b (ipa_script strict cmds)) = Some [feed, docker_words @ [s]] \<Longrightarrow>
     script_of (ipa_request P b cmds strict) = Some s"
  by (simp add: script_of_def ipa_request_def docker_words_def)

lemma dir_run:
  "script_of (ipa_request P b cmds strict) = Some s \<Longrightarrow> b = b64_text (admin_password P) \<Longrightarrow>
     ipa_outcome P x = Inr () \<Longrightarrow> dir_event (ipa_run P cmds strict x) d = fold dir_command (sh_commands s) d"
  by (auto simp: dir_event_def ipa_run_def ipa_outcome_def split: sum.splits if_splits)

lemma dir_failed: "ipa_outcome P x = Inl e \<Longrightarrow> dir_event (ipa_run P cmds strict x) d = d"
  by (auto simp: dir_event_def ipa_run_def ipa_outcome_def split: sum.splits if_splits)

text \<open>The commands of the three scripts, as pipelines.\<close>

lemma set_e_pipeline: "sh_pipeline ''set -e'' = Some [[''set'', ''-e'']]"
  by code_simp

lemma kinit_pipeline: "sh_pipeline '' cat|base64 -d|kinit admin >/dev/null'' = None"
  "sh_pipeline ''cat|base64 -d|kinit admin >/dev/null'' = None"
  by code_simp+

lemma dir_ignored:
  "dir_command ''set -e'' d = d"
  "dir_command '' cat|base64 -d|kinit admin >/dev/null'' d = d"
  "dir_command ''cat|base64 -d|kinit admin >/dev/null'' d = d"
  by (simp_all only: dir_command_def set_e_pipeline kinit_pipeline option.case) (simp add: dir_pipeline_def)

lemma kinit_pieces:
  "plain_for (CHR '';'') ''cat|base64 -d|kinit admin >/dev/null''" "plain_for (CHR '';'') ''set -e''"
  "plain_for (CHR '';'') '' cat|base64 -d|kinit admin >/dev/null''" "plain_for (CHR '';'') '' ''"
  by code_simp+

lemma script_commands:
  assumes "plain_for (CHR '';'') c"
  shows "sh_commands (ipa_script True [c]) = [''set -e'', '' cat|base64 -d|kinit admin >/dev/null'', CHR '' '' # c]"
    and "sh_commands (ipa_script False [c]) = [''cat|base64 -d|kinit admin >/dev/null'', CHR '' '' # c @ '' || true'']"
proof -
  have c: "plain_for (CHR '';'') ('' '' @ c)" using assms kinit_pieces(4) by (simp only: plain_for_append)
  have "plain_for (CHR '';'') '' || true''" by code_simp
  with c have c': "plain_for (CHR '';'') ('' '' @ c @ '' || true'')" by (simp only: plain_for_append)
  have e: "ipa_script True [c] = ''set -e'' @ CHR '';'' # '' cat|base64 -d|kinit admin >/dev/null'' @ CHR '';'' # ('' '' @ c)"
    by (simp add: ipa_script_def)
  show "sh_commands (ipa_script True [c]) = [''set -e'', '' cat|base64 -d|kinit admin >/dev/null'', CHR '' '' # c]"
    unfolding sh_commands_def e
    by (simp only: sh_split_plain [OF kinit_pieces(2)] sh_split_plain [OF kinit_pieces(3)] sh_split_all [OF c]
        sh_split_sep onto_head_single append_Nil2) simp
  have e': "ipa_script False [c] = ''cat|base64 -d|kinit admin >/dev/null'' @ CHR '';'' # ('' '' @ c @ '' || true'')"
    by (simp add: ipa_script_def)
  show "sh_commands (ipa_script False [c]) = [''cat|base64 -d|kinit admin >/dev/null'', CHR '' '' # c @ '' || true'']"
    unfolding sh_commands_def e'
    by (simp only: sh_split_plain [OF kinit_pieces(1)] sh_split_all [OF c'] sh_split_sep onto_head_single append_Nil2) simp
qed

lemma script_no_squote:
  assumes "squote \<notin> set c"
  shows "squote \<notin> set (ipa_script strict [c])"
proof -
  have "squote \<notin> set ''set -e; cat|base64 -d|kinit admin >/dev/null; ''"
    "squote \<notin> set ''cat|base64 -d|kinit admin >/dev/null; ''" "squote \<notin> set '' || true''"
    by code_simp+
  with assms show ?thesis unfolding ipa_script_def by (cases strict) simp_all
qed

text \<open>One plain command of shell-safe words, as the directory sees it.\<close>

lemma plain_join:
  assumes "\<forall>w \<in> set ws. safe_word w" and "sep = CHR ''|'' \<or> sep = CHR '';''"
  shows "plain_for sep (py_join '' '' ws)"
  using assms(1)
proof (induction "'' ''" ws rule: py_join.induct)
  case (2 x)
  then show ?case using plain_for_safe [OF _ assms(2)] by (simp add: safe_word_def)
next
  case (3 x y ys)
  have "plain_for sep '' ''" using assms(2) by (elim disjE; simp only:; code_simp)
  with 3 show ?case using plain_for_safe [OF _ assms(2)] unfolding py_join.simps plain_for_append
    by (simp add: safe_word_def)
qed (simp add: plain_for_def)

lemma dir_plain_run:
  assumes ws: "\<forall>w \<in> set ws. safe_word w" and c: "c = py_join '' '' ws"
    and out: "ipa_outcome P x = Inr ()"
  shows "dir_event (ipa_run P [c] True x) d = dir_pipeline [ws] d"
    and "dir_event (ipa_run P [c] False x) d = dir_pipeline [ws, [], [''true'']] d"
proof -
  have p: "plain_for (CHR ''|'') c" "plain_for (CHR '';'') c" using plain_join [OF ws] by (simp_all add: c)
  have nq: "squote \<notin> set c" by (rule no_squote_plain [OF p(1)])
  have s: "script_of (ipa_request P (b64_text (admin_password P)) [c] strict) = Some (ipa_script strict [c])" for strict
    by (rule script_of_request [OF plain_pipeline [OF script_no_squote [OF nq] b64_text_safe]])
  have lits: "plain_for (CHR ''|'') '' ''" "plain_for (CHR ''|'') '' true''" by code_simp+
  have c1: "plain_for (CHR ''|'') ('' '' @ c)" using lits p by (simp only: plain_for_append)
  have "sh_pipeline (CHR '' '' # c) = Some [ws]"
    using sh_split_all [OF c1] sh_words_join [OF ws] by (simp add: sh_pipeline_def sh_words_blank c)
  then show "dir_event (ipa_run P [c] True x) d = dir_pipeline [ws] d"
    unfolding dir_run [OF s refl out] script_commands [OF p(2)]
    by (simp only: fold.simps comp_def id_def dir_ignored) (simp add: dir_command_def)
  have c2: "plain_for (CHR ''|'') ('' '' @ c @ '' '')" using lits p by (simp only: plain_for_append)
  have e: "CHR '' '' # c @ '' || true'' = ('' '' @ c @ '' '') @ CHR ''|'' # CHR ''|'' # '' true''" by simp
  have "sh_split (CHR ''|'') Bare (CHR '' '' # c @ '' || true'') = ['' '' @ c @ '' '', [], '' true'']"
    unfolding e
    by (simp only: sh_split_plain [OF c2] sh_split_sep sh_split_all [OF lits(2)] onto_head_single append_Nil2)
  moreover have "sh_words ('' '' @ c @ '' '') = Some ws"
    using sh_words_join_blank [OF ws] by (simp add: sh_words_blank c)
  moreover have "sh_words '' true'' = Some [''true'']" by code_simp
  ultimately have "sh_pipeline (CHR '' '' # c @ '' || true'') = Some [ws, [], [''true'']]"
    unfolding sh_pipeline_def by (simp add: sh_words_Nil)
  then show "dir_event (ipa_run P [c] False x) d = dir_pipeline [ws, [], [''true'']] d"
    unfolding dir_run [OF s refl out] script_commands [OF p(2)]
    by (simp only: fold.simps comp_def id_def dir_ignored) (simp add: dir_command_def)
qed

definition safe_test_user :: "test_user \<Rightarrow> bool" where
  "safe_test_user u \<longleftrightarrow>
     safe_user (tu_name u) (tu_email u) (tu_password u) \<and> (\<forall>g \<in> set (tu_groups u). safe_word g)"

lemma dir_user_del:
  assumes "safe_word name" and "ipa_outcome P x = Inr ()"
  shows "dir_event (ipa_run P (user_del_commands name) False x) d = d(name := None)"
proof -
  have "safe_word ''ipa''" "safe_word ''user-del''" by code_simp+
  with assms(1) have ws: "\<forall>w \<in> set [''ipa'', ''user-del'', name]. safe_word w" by simp
  have "user_del_commands name = [py_join '' '' [''ipa'', ''user-del'', name]]" by (simp add: user_del_commands_def)
  then show ?thesis
    using dir_plain_run(2) [OF ws refl assms(2)] by (simp add: dir_pipeline_def)
qed

lemma dir_group_add:
  assumes "safe_word name" and "safe_word g" and "ipa_outcome P x = Inr ()"
  shows "dir_event (add_attempt P g name x) d =
    d(name := map_option (\<lambda>u. u\<lparr>du_groups := insert g (du_groups u)\<rparr>) (d name))"
proof -
  have "safe_word ''ipa''" "safe_word ''group-add-member''" "list_all shell_safe ''--users=''" by code_simp+
  with assms(1,2) have ws: "\<forall>w \<in> set [''ipa'', ''group-add-member'', g, ''--users='' @ name]. safe_word w"
    by (simp add: safe_word_def)
  have "group_add_commands g name = [py_join '' '' [''ipa'', ''group-add-member'', g, ''--users='' @ name]]"
    by (simp add: group_add_commands_def)
  then show ?thesis
    using dir_plain_run(1) [OF ws refl assms(3)] by (simp add: dir_pipeline_def add_attempt_def Let_def)
qed

lemma dir_user_add:
  assumes u: "safe_user name email pw" and out: "ipa_outcome P x = Inr ()"
  shows "dir_event (ipa_run P (user_add_commands name email pw) True x) d =
    d(name \<mapsto> \<lparr>du_password = Some pw, du_groups = {}\<rparr>)"
proof -
  have s: "script_of (ipa_request P (b64_text (admin_password P)) (user_add_commands name email pw) True) =
      Some (container_script name email pw)"
    by (rule script_of_request [OF user_add_pipeline [OF u b64_text_safe]])
  have add: "dir_command (CHR '' '' # add_text name email) d = d(name \<mapsto> \<lparr>du_password = None, du_groups = {}\<rparr>)" for d
    unfolding dir_command_def container_pipelines [OF u] by (simp add: dir_pipeline_def)
  have pass: "dir_command ('' echo '' @ pw @ '' | ipa passwd '' @ name) d =
      d(name := map_option (\<lambda>u. u\<lparr>du_password := Some pw\<rparr>) (d name))" for d
    unfolding dir_command_def container_pipelines [OF u] by (simp add: dir_pipeline_def)
  show ?thesis
    unfolding dir_run [OF s refl out] container_commands [OF u]
    by (simp only: fold.simps comp_def id_def dir_ignored add pass) simp
qed

lemma dir_transient: "list_all (transient P) xs \<Longrightarrow> fold dir_event (failed_attempts P g name xs) d = d"
proof (induction xs)
  case (Cons x xs)
  then obtain e where "ipa_outcome P x = Inl e" by (auto simp: transient_def split: sum.splits)
  then have "dir_event (add_attempt P g name x) d = d" by (simp add: add_attempt_def dir_failed)
  with Cons show ?case by (simp add: failed_attempts_def dir_event_def)
qed (simp add: failed_attempts_def)

lemma dir_retried:
  assumes "safe_word name" and "safe_word g" and "retried P g name n es (Inr ())"
  shows "fold dir_event es d = d(name := map_option (\<lambda>u. u\<lparr>du_groups := insert g (du_groups u)\<rparr>) (d name))"
  using assms unfolding retried_def by (auto simp: dir_transient dir_group_add)

lemma dir_groups:
  assumes "safe_word name" and "\<forall>g \<in> set gs. safe_word g" and "d name = Some u"
    and "runs (\<lambda>g. retried P g name 3) gs es (Inr ())"
  shows "fold dir_event es d = d(name \<mapsto> u\<lparr>du_groups := du_groups u \<union> set gs\<rparr>)"
  using assms(2-)
proof (induction gs arbitrary: es d u)
  case Nil
  then show ?case by (simp add: fun_upd_idem)
next
  case (Cons g gs)
  then obtain es1 es2 where es: "es = es1 @ es2" "retried P g name 3 es1 (Inr ())"
    "runs (\<lambda>g. retried P g name 3) gs es2 (Inr ())" by auto
  let ?u = "u\<lparr>du_groups := insert g (du_groups u)\<rparr>"
  have "fold dir_event es1 d = d(name \<mapsto> ?u)"
    using dir_retried [OF assms(1) _ es(2)] Cons.prems by simp
  moreover have "fold dir_event es2 (d(name \<mapsto> ?u)) = (d(name \<mapsto> ?u))(name \<mapsto> ?u\<lparr>du_groups := du_groups ?u \<union> set gs\<rparr>)"
    by (rule Cons.IH) (use Cons.prems es(3) in simp_all)
  ultimately show ?case unfolding es(1) fold_append comp_def by simp
qed

lemma dir_provisioning:
  assumes "safe_test_user u" and "provisioning P u es (Inr ())"
  shows "fold dir_event es d = d(tu_name u \<mapsto> \<lparr>du_password = Some (tu_password u), du_groups = set (tu_groups u)\<rparr>)"
proof -
  have s: "safe_user (tu_name u) (tu_email u) (tu_password u)" "\<forall>g \<in> set (tu_groups u). safe_word g"
    "safe_word (tu_name u)"
    using assms(1) by (auto simp: safe_test_user_def safe_user_def)
  from assms(2) obtain x y es' where
    es: "es = ipa_run P (user_del_commands (tu_name u)) False x #
        ipa_run P (user_add_commands (tu_name u) (tu_email u) (tu_password u)) True y # es'"
    and out: "ipa_outcome P x = Inr ()" "ipa_outcome P y = Inr ()"
    and gs: "runs (\<lambda>g. retried P g (tu_name u) 3) (tu_groups u) es' (Inr ())"
    by (auto simp: provisioning_def channel_def runs_map)
  show ?thesis
    unfolding es fold.simps comp_def dir_user_del [OF s(3) out(1)] dir_user_add [OF s(1) out(2)]
    using dir_groups [OF s(3,2) _ gs, of _ "\<lparr>du_password = Some (tu_password u), du_groups = {}\<rparr>"] by simp
qed

section \<open>Properties\<close>

text \<open>
  C23: creating a user is one ansible run, with the suite's own configuration; of its
  argument the remote shell makes a pipeline that feeds the base64 of the admin password to the container's
  \<open>bash -c\<close>, whose script logs in from it and then, for a shell-safe name, address and password, runs
  \<open>ipa user-add\<close> and pipes exactly the password to \<open>ipa passwd\<close> of that user, although the quotes the code
  puts around the password end the ones around the script. The call succeeds exactly when that run does.
\<close>

theorem user_add_delivers:
  assumes "safe_user name email pw" and "p_environ P ''FREEIPA_ADMIN_PASSWORD'' = Some admin" and "admin \<noteq> []"
    and "ipa_user_add P name email pw w = (r, w')"
  shows "\<exists>req x line b script add passwd. trace w' = trace w @ [ERun req x] \<and>
    pr_argv req = [''ansible'', ''core01'', ''-m'', ''shell'', ''-a'', line] \<and>
    pr_cwd req = Some (ansible_dir P) \<and> pr_env req = [(''ANSIBLE_CONFIG'', ansible_cfg P)] \<and>
    sh_pipeline line = Some [[''printf'', ''%s'', b],
      [''docker'', ''exec'', ''-i'', ''freeipa-server'', ''bash'', ''-c'', script]] \<and>
    unb64_text b = Some admin \<and>
    sh_commands script = [''set -e'', '' cat|base64 -d|kinit admin >/dev/null'', add, passwd] \<and>
    sh_pipeline add = Some [[''ipa'', ''user-add'', name, ''--first=Verify'', ''--last=Test'', ''--email='' @ email]] \<and>
    sh_pipeline passwd = Some [[''echo'', pw], [''ipa'', ''passwd'', name]] \<and>
    (r = Inr () \<longleftrightarrow> (\<exists>p. x = Inr p \<and> pr_returncode p = 0))"
proof -
  have adm: "admin_password P = admin" using assms(2) by (simp add: admin_password_def)
  then have ne: "admin_password P \<noteq> []" using assms(3) by simp
  from specD [OF spec_ipa_user_add [OF ne] assms(4)] obtain x where
    x: "trace w' = trace w @ [ipa_run P (user_add_commands name email pw) True x]" "r = ipa_outcome P x" by blast
  have ok: "r = Inr () \<longleftrightarrow> (\<exists>p. x = Inr p \<and> pr_returncode p = 0)"
    by (simp add: x(2) ipa_outcome_def split: sum.split)
  show ?thesis
    apply (rule exI [of _ "ipa_request P (b64_text admin) (user_add_commands name email pw) True"])
    apply (rule exI [of _ x])
    apply (rule exI [of _ "ipa_remote (b64_text admin) (ipa_script True (user_add_commands name email pw))"])
    apply (rule exI [of _ "b64_text admin"], rule exI [of _ "container_script name email pw"])
    apply (rule exI [of _ "CHR '' '' # add_text name email"])
    apply (rule exI [of _ "'' echo '' @ pw @ '' | ipa passwd '' @ name"])
    using x(1) ok user_add_pipeline [OF assms(1) b64_text_safe, of admin, unfolded docker_words_def append.simps]
      unb64_b64 container_commands [OF assms(1)] container_pipelines [OF assms(1)]
    by (simp only: adm ipa_run_def ipa_request_def process_request.simps simp_thms)
qed

text \<open>
  C31: an addition to a group runs the same command at most four times; every attempt but the last
  failed with an entry that had not settled and is followed by a pause of five seconds, and the result is
  that of the last attempt, which is such a failure only when it is the fourth.
\<close>

theorem group_add_retries:
  assumes "p_environ P ''FREEIPA_ADMIN_PASSWORD'' = Some admin" and "admin \<noteq> []"
    and "ipa_group_add_member P grp user w = (r, w')"
  shows "\<exists>xs x. trace w' = trace w @ concat (map (\<lambda>y. [add_attempt P grp user y, ESleep 5]) xs) @ [add_attempt P grp user x] \<and>
    length xs \<le> 3 \<and> list_all (transient P) xs \<and> r = ipa_outcome P x \<and> (transient P x \<longrightarrow> length xs = 3)"
proof -
  have "admin_password P \<noteq> []" using assms(1,2) by (simp add: admin_password_def)
  from specD [OF spec_ipa_group_add [OF this] assms(3)] obtain es where
    "trace w' = trace w @ es" "retried P grp user 3 es r" .
  then show ?thesis by (auto simp: retried_def failed_attempts_def)
qed


subsection \<open>Witnesses\<close>

definition with_admin :: "string \<Rightarrow> unit platform" where
  "with_admin admin = (scripted (\<lambda>r. JNull) [] False)\<lparr>p_environ := (\<lambda>k. Some admin)\<rparr>"

lemma with_admin_simps [simp]: "p_environ (with_admin admin) k = Some admin"
  by (simp add: with_admin_def)

lemma with_admin_run:
  "run_process (with_admin admin) rq w =
     (Inr \<lparr>pr_returncode = 0, pr_stdout = [], pr_stderr = []\<rparr>,
      emit (ERun rq (Inr \<lparr>pr_returncode = 0, pr_stdout = [], pr_stderr = []\<rparr>)) w)"
  by (cases w) (simp add: run_process_def with_admin_def scripted_def emit_def)

lemma with_admin_channel: "admin \<noteq> [] \<Longrightarrow> \<exists>w'. ipa_admin (with_admin admin) cmds strict w = (Inr (), w')"
proof -
  assume "admin \<noteq> []"
  then have "env_var (with_admin admin) ''FREEIPA_ADMIN_PASSWORD'' = Inr admin" by (simp add: env_var_Inr)
  then show ?thesis by (simp add: ipa_admin_def Let_def io_bind_def with_admin_run ret_def)
qed

definition demo_user :: test_user where
  "demo_user = \<lparr>tu_name = ''test'', tu_email = ''verify-test@dev.lo'', tu_password = ''Zx_9-w'', tu_groups = [''hubble-users'']\<rparr>"

lemma demo_user_safe: "safe_test_user demo_user" "safe_user ''test'' ''verify-test@dev.lo'' ''Zx_9-w''"
  by code_simp+

lemma user_add_delivers_witness:
  "\<exists>w' req x line. ipa_user_add (with_admin ''Secret 1'') ''test'' ''verify-test@dev.lo'' ''Zx_9-w'' blank = (Inr (), w') \<and>
     trace w' = [ERun req x] \<and> pr_argv req = [''ansible'', ''core01'', ''-m'', ''shell'', ''-a'', line]"
proof -
  obtain w' where run: "ipa_user_add (with_admin ''Secret 1'') ''test'' ''verify-test@dev.lo'' ''Zx_9-w'' blank = (Inr (), w')"
    unfolding ipa_user_add_def using with_admin_channel [of "''Secret 1''"] by blast
  from user_add_delivers [OF demo_user_safe(2) with_admin_simps _ run] show ?thesis using run by auto
qed

lemma group_add_retries_witness:
  "\<exists>r w' xs x. ipa_group_add_member (with_admin ''pw'') ''hubble-users'' ''test'' blank = (r, w') \<and>
     trace w' = concat (map (\<lambda>y. [add_attempt (with_admin ''pw'') ''hubble-users'' ''test'' y, ESleep 5]) xs) @
       [add_attempt (with_admin ''pw'') ''hubble-users'' ''test'' x] \<and> length xs \<le> 3"
proof -
  obtain r w' where run: "ipa_group_add_member (with_admin ''pw'') ''hubble-users'' ''test'' blank = (r, w')"
    by (cases "ipa_group_add_member (with_admin ''pw'') ''hubble-users'' ''test'' blank")
  from group_add_retries [OF with_admin_simps _ run] obtain xs x where
    "trace w' = trace (blank :: unit world) @ concat (map (\<lambda>y. [add_attempt (with_admin ''pw'') ''hubble-users'' ''test'' y, ESleep 5]) xs) @
       [add_attempt (with_admin ''pw'') ''hubble-users'' ''test'' x]" "length xs \<le> 3" by auto
  with run show ?thesis by auto
qed

lemma demo_provision: "\<exists>w'. provision_user (with_admin ''pw'') demo_user blank = (Inr (), w')"
proof -
  have c: "\<exists>w'. ipa_admin (with_admin ''pw'') cmds strict w = (Inr (), w')" for cmds strict w
    by (rule with_admin_channel) simp
  obtain w1 where 1: "ipa_user_del (with_admin ''pw'') ''test'' blank = (Inr (), w1)"
    unfolding ipa_user_del_def using c by blast
  obtain w2 where 2: "ipa_user_add (with_admin ''pw'') ''test'' ''verify-test@dev.lo'' ''Zx_9-w'' w1 = (Inr (), w2)"
    unfolding ipa_user_add_def using c by blast
  obtain w3 where 3: "ipa_admin (with_admin ''pw'') (group_add_commands ''hubble-users'' ''test'') True w2 = (Inr (), w3)"
    using c by blast
  have "ipa_group_add_member (with_admin ''pw'') ''hubble-users'' ''test'' w2 = (Inr (), w3)"
    using 3 by (simp add: ipa_group_add_member_def ipa_group_settle_retries_def upt_rec io_bind_def io_then_def
        io_except_def ret_def)
  with 1 2 show ?thesis
    by (simp add: provision_user_def demo_user_def io_then_def io_bind_def ret_def)
qed


end
