(* ===== verification/Verify_Fixtures.thy ===== *)
theory Verify_Fixtures
  imports Verify_Web Verify_Ipa
begin

text \<open>
  The session fixtures of \<open>verify/conftest.py\<close>: the users a run provisions, the wait for Keycloak, the tests
  that use them (a parameter, as whatever code runs while the fixture is live), and the removal.
\<close>

section \<open>The fixtures\<close>

text \<open>\<open>except Exception\<close>.\<close>

definition every_exception :: "exc_kind list" where
  "every_exception =
     [RuntimeError, ValueError, JSONDecodeError, KeyError, IndexError, TypeError, AttributeError, OSError, URLError,
      TimeoutError, ImportError, OverflowError, PexpectTimeout, AssertionError]"

definition teardown_warning :: "test_user \<Rightarrow> string" where
  "teardown_warning u = ''WARNING: teardown for '' @ repr_str (tu_name u) @ '' failed''"

definition teardown_user :: "'w platform \<Rightarrow> test_user \<Rightarrow> ('w, unit) io" where
  "teardown_user P u = io_except every_exception (remove_user P u) (\<lambda>_. print_line (teardown_warning u))"

definition setup_users :: "'w platform \<Rightarrow> test_user list \<Rightarrow> ('w, unit) io" where
  "setup_users P us =
     io_then (io_fold (\<lambda>u _. provision_user P u) us ())
     (io_then (wait_for_keycloak_sync P) (keycloak_clear_user_cache P))"

definition with_users :: "'w platform \<Rightarrow> test_user list \<Rightarrow> ('w, 'a) io \<Rightarrow> ('w, 'a) io" where
  "with_users P us tests =
     io_then (setup_users P us) (io_finally tests (io_fold (\<lambda>u _. teardown_user P u) (rev us) ()))"

definition test_users_fixture :: "'w platform \<Rightarrow> (test_user \<times> test_user \<Rightarrow> ('w, 'a) io) \<Rightarrow> ('w, 'a) io" where
  "test_users_fixture P tests =
     io_bind (make_test_users P) (\<lambda>(user, adm). with_users P [user, adm] (tests (user, adm)))"

definition hubble_tiers_fixture ::
  "'w platform \<Rightarrow> (test_user \<times> test_user \<times> test_user \<Rightarrow> ('w, 'a) io) \<Rightarrow> ('w, 'a) io" where
  "hubble_tiers_fixture P tests =
     io_bind (make_test_users P) (\<lambda>(user0, adm0).
     let user = add_groups [''hubble-users''] user0; adm = add_groups [''hubble-admins''] adm0 in
     io_bind (token_urlsafe P 24) (\<lambda>p.
     let nobody = add_groups [''gitlab-users'']
           \<lparr>tu_name = ''hub-sso-none-test'', tu_email = ''hub-sso-none@dev.lo'', tu_password = p, tu_groups = []\<rparr> in
     with_users P [user, adm, nobody] (tests (user, adm, nobody))))"

definition traefik_tiers_fixture ::
  "'w platform \<Rightarrow> (test_user \<times> test_user \<times> test_user \<Rightarrow> ('w, 'a) io) \<Rightarrow> ('w, 'a) io" where
  "traefik_tiers_fixture P tests =
     io_bind (make_test_users P) (\<lambda>(user, adm).
     io_bind (token_urlsafe P 24) (\<lambda>p.
     let nobody = add_groups [''gitlab-users'']
           \<lparr>tu_name = ''traefik-sso-none-test'', tu_email = ''traefik-sso-none@dev.lo'', tu_password = p, tu_groups = []\<rparr> in
     with_users P [user, adm, nobody] (tests (user, adm, nobody))))"

section \<open>Groups\<close>

text \<open>No group is listed twice, whatever is added; the tiers get exactly what their literals say.\<close>

lemma add_groups_distinct: "distinct (tu_groups u) \<Longrightarrow> distinct (tu_groups (add_groups gs u))"
proof -
  have "distinct acc \<Longrightarrow> distinct (fold (\<lambda>g acc. if g \<in> set acc then acc else acc @ [g]) gs acc)" for acc :: "string list"
    by (induction gs arbitrary: acc) auto
  then show "distinct (tu_groups u) \<Longrightarrow> ?thesis" by (simp add: add_groups_def)
qed

lemma set_add_groups: "set (tu_groups (add_groups gs u)) = set (tu_groups u) \<union> set gs"
proof -
  have "set (fold (\<lambda>g acc. if g \<in> set acc then acc else acc @ [g]) gs acc) = set acc \<union> set gs" for acc :: "string list"
    by (induction gs arbitrary: acc) auto
  then show ?thesis by (simp add: add_groups_def)
qed

lemma add_groups_simps [simp]:
  "tu_name (add_groups gs u) = tu_name u" "tu_email (add_groups gs u) = tu_email u"
  "tu_password (add_groups gs u) = tu_password u"
  by (simp_all add: add_groups_def)

lemma groups_safe: "\<forall>g \<in> set user_groups. safe_word g" "\<forall>g \<in> set admin_groups. safe_word g"
  by code_simp+

lemma make_test_users_facts:
  assumes "make_test_users P w = (Inr (user, adm), w0)"
  shows "trace w0 = trace w" and "tu_name user = ''test''" and "tu_name adm = ''test.adm''"
    and "set (tu_groups user) = set user_groups" and "set (tu_groups adm) = set admin_groups"
    and "safe_word (tu_password user) \<Longrightarrow> safe_test_user user"
    and "safe_word (tu_password adm) \<Longrightarrow> safe_test_user adm"
proof -
  obtain p1 p2 where user: "user = add_groups user_groups
        \<lparr>tu_name = ''test'', tu_email = ''verify-test@dev.lo'', tu_password = p1, tu_groups = []\<rparr>"
    and adm: "adm = add_groups admin_groups
        \<lparr>tu_name = ''test.adm'', tu_email = ''verify-test-adm@dev.lo'', tu_password = p2, tu_groups = []\<rparr>"
    using assms unfolding make_test_users_def Let_def by (auto simp: io_bind_Inr)
  have "only (\<lambda>_. False) (make_test_users P)"
    unfolding make_test_users_def Let_def by (intro only_intros)
  from only_trace [OF this assms] show "trace w0 = trace w" by auto
  have n: "safe_word ''test''" "safe_word ''verify-test@dev.lo''" "safe_word ''test.adm''"
    "safe_word ''verify-test-adm@dev.lo''" by code_simp+
  show "tu_name user = ''test''" "tu_name adm = ''test.adm''" by (simp_all add: user adm)
  show g: "set (tu_groups user) = set user_groups" "set (tu_groups adm) = set admin_groups"
    by (simp_all add: user adm set_add_groups)
  show "safe_word (tu_password user) \<Longrightarrow> safe_test_user user"
    using n groups_safe(1) g(1) by (simp add: safe_test_user_def safe_user_def user)
  show "safe_word (tu_password adm) \<Longrightarrow> safe_test_user adm"
    using n groups_safe(2) g(2) by (simp add: safe_test_user_def safe_user_def adm)
qed

section \<open>The directory while the tests run\<close>

definition dir_entry :: "test_user \<Rightarrow> directory \<Rightarrow> directory" where
  "dir_entry u d = d(tu_name u \<mapsto> \<lparr>du_password = Some (tu_password u), du_groups = set (tu_groups u)\<rparr>)"

lemma dir_all_provisioned:
  "\<forall>u \<in> set us. safe_test_user u \<Longrightarrow> runs (provisioning P) us es (Inr ()) \<Longrightarrow>
     fold dir_event es d = fold dir_entry us d"
proof (induction us arbitrary: es d)
  case (Cons u us)
  then obtain es1 es2 where es: "es = es1 @ es2" "provisioning P u es1 (Inr ())" "runs (provisioning P) us es2 (Inr ())"
    by auto
  have "fold dir_event es1 d = dir_entry u d"
    using dir_provisioning [OF _ es(2)] Cons.prems(1) by (simp add: dir_entry_def)
  moreover have "fold dir_event es2 (dir_entry u d) = fold dir_entry us (dir_entry u d)"
    by (rule Cons.IH) (use Cons.prems(1) es(3) in simp_all)
  ultimately show ?case unfolding es(1) by simp
qed simp

definition no_run :: "event \<Rightarrow> bool" where
  "no_run e \<longleftrightarrow> (case e of ERun _ _ \<Rightarrow> False | _ \<Rightarrow> True)"

lemma dir_no_runs: "\<forall>e \<in> set es. no_run e \<Longrightarrow> fold dir_event es d = d"
  by (induction es) (auto simp: no_run_def dir_event_def split: event.splits)

lemma only_clear_cache: "only no_run (keycloak_clear_user_cache P)"
  unfolding keycloak_clear_user_cache_def keycloak_admin_token_def assert_def
  by (intro only_intros) (simp_all add: no_run_def)

lemma only_wait: "only no_run (wait_for_keycloak_sync P)"
  unfolding wait_for_keycloak_sync_def by (intro only_intros) (simp add: no_run_def)

lemma spec_setup_users:
  assumes "admin_password P \<noteq> []"
  shows "spec (setup_users P us) (\<lambda>es r. \<forall>u. r = Inr u \<longrightarrow>
    (\<exists>es1 es2. es = es1 @ es2 \<and> runs (provisioning P) us es1 (Inr ()) \<and> (\<forall>e \<in> set es2. no_run e)))"
proof -
  have rest: "only no_run (io_then (wait_for_keycloak_sync P) (keycloak_clear_user_cache P))"
    by (intro only_then only_wait only_clear_cache)
  show ?thesis
    unfolding setup_users_def
    by (subst io_then_def, rule spec_bind [OF spec_runs [OF spec_provision_user [OF assms]]], simp,
        rule spec_weaken [OF spec_only [OF rest]]) auto
qed

section \<open>Removal\<close>

text \<open>The removal of one user: the channel runs up to the first that failed, which leaves a warning.\<close>

definition torn_down :: "'w platform \<Rightarrow> test_user \<Rightarrow> event list \<Rightarrow> bool" where
  "torn_down P u es \<longleftrightarrow>
     removal P u es (Inr ()) \<or>
     (\<exists>es0 e. removal P u es0 (Inl e) \<and> es = es0 @ [EPrint False (teardown_warning u)])"

lemma every_exception: "catches every_exception e"
  by (cases e; rename_tac k m; case_tac k) (simp_all add: catches_def every_exception_def)

lemma spec_teardown_user:
  assumes "admin_password P \<noteq> []"
  shows "spec (teardown_user P u) (\<lambda>es r. r = Inr () \<and> torn_down P u es)"
  unfolding teardown_user_def
  by (rule spec_except [OF spec_remove_user [OF assms]])
    (auto simp: every_exception torn_down_def intro!: spec_weaken [OF spec_print])

lemma spec_teardown:
  assumes "admin_password P \<noteq> []"
  shows "spec (io_fold (\<lambda>u _. teardown_user P u) us ())
    (\<lambda>es r. r = Inr () \<and> (\<exists>ess. es = concat ess \<and> list_all2 (torn_down P) us ess))"
proof -
  have "\<exists>ess. es = concat ess \<and> list_all2 (torn_down P) us ess \<and> r = Inr ()"
    if "runs (\<lambda>u es r. r = Inr () \<and> torn_down P u es) us es r" for es r
    using that
  proof (induction us arbitrary: es)
    case (Cons u us)
    then obtain es1 es2 where es: "es = es1 @ es2" "torn_down P u es1"
      "runs (\<lambda>u es r. r = Inr () \<and> torn_down P u es) us es2 r" by auto
    from Cons.IH [OF es(3)] obtain ess where "es2 = concat ess" "list_all2 (torn_down P) us ess" "r = Inr ()" by blast
    with es show ?case by (intro exI [of _ "es1 # ess"]) simp
  qed simp
  then show ?thesis by (intro spec_weaken [OF spec_runs [OF spec_teardown_user [OF assms]]]) blast
qed

section \<open>Properties\<close>


subsection \<open>Witness\<close>

text \<open>On the replaying platform every process succeeds, so the channel only extends the trace.\<close>

abbreviation rp :: "web_response list platform" where
  "rp \<equiv> replay (\<lambda>k. Some ''pw'')"

definition quiet_ok :: "('w, 'a) io \<Rightarrow> bool" where
  "quiet_ok m \<longleftrightarrow> (\<forall>w. \<exists>x tr. m w = (Inr x, w\<lparr>trace := tr\<rparr>))"

lemma quiet_okD: "quiet_ok m \<Longrightarrow> \<exists>x tr. m w = (Inr x, w\<lparr>trace := tr\<rparr>)"
  by (simp add: quiet_ok_def)

lemma quiet_ok_bind: "quiet_ok m \<Longrightarrow> (\<And>x. quiet_ok (k x)) \<Longrightarrow> quiet_ok (io_bind m k)"
  unfolding quiet_ok_def
proof
  fix w
  assume m: "\<forall>w. \<exists>x tr. m w = (Inr x, w\<lparr>trace := tr\<rparr>)" and k: "\<And>x. \<forall>w. \<exists>y tr. k x w = (Inr y, w\<lparr>trace := tr\<rparr>)"
  from m obtain x tr where 1: "m w = (Inr x, w\<lparr>trace := tr\<rparr>)" by blast
  from k [of x] obtain y tr' where "k x (w\<lparr>trace := tr\<rparr>) = (Inr y, (w\<lparr>trace := tr\<rparr>)\<lparr>trace := tr'\<rparr>)" by blast
  with 1 show "\<exists>x tr. io_bind m k w = (Inr x, w\<lparr>trace := tr\<rparr>)" by (auto simp: io_bind_def)
qed

lemma quiet_ok_ret: "quiet_ok (ret x)"
proof -
  have "ret x w = (Inr x, w\<lparr>trace := trace w\<rparr>)" for w by (simp add: ret_def)
  then show ?thesis unfolding quiet_ok_def by blast
qed

lemma quiet_ok_fold: "(\<And>x acc. quiet_ok (f x acc)) \<Longrightarrow> quiet_ok (io_fold f xs acc)"
  by (induction xs arbitrary: acc) (simp_all add: quiet_ok_ret quiet_ok_bind)

lemma quiet_ok_admin: "quiet_ok (ipa_admin rp cmds strict)"
  unfolding quiet_ok_def
proof
  fix w :: "web_response list world"
  have "env_var rp ''FREEIPA_ADMIN_PASSWORD'' = Inr ''pw''" by (simp add: env_var_Inr replay_def)
  then show "\<exists>x tr. ipa_admin rp cmds strict w = (Inr x, w\<lparr>trace := tr\<rparr>)"
    by (cases w) (simp add: ipa_admin_def Let_def io_bind_def run_process_def replay_def emit_def ret_def)
qed

lemma quiet_ok_group: "quiet_ok (ipa_group_add_member rp g n)"
  unfolding quiet_ok_def
proof
  fix w :: "web_response list world"
  obtain x tr where "ipa_admin rp (group_add_commands g n) True w = (Inr x, w\<lparr>trace := tr\<rparr>)"
    using quiet_okD [OF quiet_ok_admin] by blast
  then have "ipa_group_add_member rp g n w = (Inr (), w\<lparr>trace := tr\<rparr>)"
    by (simp add: ipa_group_add_member_def ipa_group_settle_retries_def upt_rec io_bind_def io_then_def
        io_except_def ret_def)
  then show "\<exists>x tr. ipa_group_add_member rp g n w = (Inr x, w\<lparr>trace := tr\<rparr>)" by blast
qed

lemma quiet_ok_provision: "quiet_ok (provision_user rp u)"
  unfolding provision_user_def io_then_def ipa_user_del_def ipa_user_add_def
  by (intro quiet_ok_bind quiet_ok_admin quiet_ok_fold quiet_ok_group)

lemma replay_prims:
  "ext w = y # ys \<Longrightarrow> web (replay env) c req w = (Inr y, emit (EWeb c req (Inr y)) (w\<lparr>ext := ys\<rparr>))"
  "new_session (replay env) w = (Inr 0, w)"
  "sleep (replay env) n w = (Inr (), emit (ESleep n) w)"
  by (cases w; simp add: web_def new_session_def sleep_def replay_def)+

definition cache_answers :: "web_response list" where
  "cache_answers = [answer 200 [] [] [] (JObj [(''access_token'', JStr ''T'')]), answer 204 [] [] [] JNull]"

lemma replay_setup: "\<exists>w1. setup_users rp us (recorded cache_answers) = (Inr (), w1)"
proof -
  obtain u tr where p: "io_fold (\<lambda>u _. provision_user rp u) us () (recorded cache_answers) =
      (Inr u, (recorded cache_answers)\<lparr>trace := tr\<rparr>)"
    using quiet_okD [OF quiet_ok_fold [of "\<lambda>u _. provision_user rp u", OF quiet_ok_provision]] by blast
  have e: "env_var rp ''KEYCLOAK_ADMIN_PASSWORD'' = Inr ''pw''" by (simp add: env_var_Inr replay_def)
  have "\<exists>w1. io_then (wait_for_keycloak_sync rp) (keycloak_clear_user_cache rp)
      ((recorded cache_answers)\<lparr>trace := tr\<rparr>) = (Inr (), w1)"
    by (simp add: wait_for_keycloak_sync_def keycloak_clear_user_cache_def make_session_def keycloak_admin_token_def
        e Let_def io_eval replay_prims recorded_def cache_answers_def answer_def assert_def del: io_run_simps)
  with p show ?thesis by (simp add: setup_users_def io_then_def io_bind_def)
qed


end
