(* ===== verification/Spec2Isabelle.thy ===== *)
theory Spec2Isabelle
  imports Lab_History Overlay_History Verify_Secrets Verify_Fixtures
begin

text \<open>
  A verification library for the Python of an RKE2 lab: the Pulumi program under \<open>infra/pulumi\<close> that places
  and creates the virtual machines of a Proxmox cluster and wires their network, and the harness under
  \<open>verify\<close> that drives the running estate. Paths are relative to the source tree.

  \<^bold>\<open>The program and its parts.\<close> \<open>infra/pulumi/__main__.py\<close> reads the stack's configuration, selects the VMs of
  the current phase from the estate, registers one boot image per node, asks the placement planner for a node
  per VM, registers the VMs, and after their creation applies the SDN configuration and installs the
  forwarding overlay; before an apply it removes orphaned disk volumes. \<open>verify/helpers.py\<close> holds the plumbing
  of the test suite (kubectl, Keycloak logins, the services behind Keycloak, the FreeIPA users of a run) and
  \<open>verify/conftest.py\<close> the fixtures that provision and remove these users.

  \<^bold>\<open>Theories.\<close>
  \<^item> \<open>Lab_Prelude\<close>: exceptions as values (\<open>exn + 'a\<close>), loops that may raise, Python dictionaries as association
    lists in insertion order (locale \<open>dictionary\<close> and its interpretation), codecs (locale \<open>codec\<close>).
  \<^item> \<open>Py_String\<close>, \<open>Py_Json\<close>, \<open>Base64\<close>, \<open>Py_Url\<close>, \<open>Py_Html\<close>: what the program uses of the standard library: string
    methods, decimal numbers, \<open>json\<close>, \<open>base64\<close>, \<open>urllib.parse\<close>, \<open>html.unescape\<close> and the regular expressions.
    The round trips of numbers, JSON, UTF-8, forms and base64 are proved there.
  \<^item> \<open>Platform\<close>: the outside as a parameter (HTTP, \<open>requests\<close>, processes, \<open>pexpect\<close>, clock, environment), the
    world with its files and the trace of effects, and a logic of specifications over that trace.
  \<^item> \<open>Pve_Api\<close>, \<open>Host_Ssh\<close>: what the API clients and the two SSH dialogues share (request, form encoding, host
    part; shell quoting, dialogue, redaction). \<open>Scripted\<close> is a concrete platform for the witnesses.
  \<^item> \<open>Placement\<close>: \<open>modules/placement.py\<close>. The record file (\<open>load_record\<close>, \<open>save_record\<close>), the usage client
    (\<open>online_nodes\<close>, \<open>read_node_capacity\<close>), the planner (\<open>plan\<close>, state \<open>plan_state\<close>) and \<open>plan_placement\<close>.
  \<^item> \<open>Pve_Cleanup\<close>: \<open>modules/pve_cleanup.py\<close>. The client, \<open>find_orphans\<close>, deletion with its task poll, the
    fallback over SSH, \<open>clean_orphans\<close> and the command line entry.
  \<^item> \<open>Sdn\<close>, \<open>Sdn_Fdb\<close>: \<open>modules/sdn.py\<close> and \<open>modules/sdn_fdb.py\<close>. Zone and vnet arguments, the apply with its
    poll; settings, discovery of MACs, the data file, the hook and the loop of the hook, installation, probes.
  \<^item> \<open>Vm_Factory\<close>: \<open>modules/vm_factory.py\<close>, \<open>modules/vm_definitions.py\<close>, \<open>modules/provider.py\<close>. Specifications,
    the arguments of a VM resource, the estate as a table.
  \<^item> \<open>Lab_Program\<close>: \<open>__main__.py\<close>, the composition of the above. \<open>Lab_History\<close>: the steps that follow one another
    in the life of a placement record (runs, previews, failed runs, callbacks, the command line entries), as an
    inductive relation under the locale \<open>growing_store\<close>.
  \<^item> \<open>Overlay_History\<close>: the whole run of the installed hook, what the installation does on a node, and the events in
    the life of the node's device; \<open>bridge fdb append\<close> is a parameter.
  \<^item> \<open>Verify_Env\<close>, \<open>Verify_Token\<close>, \<open>Verify_Web\<close>, \<open>Verify_Ipa\<close>: \<open>verify/helpers.py\<close>, one theory per concern;
    \<open>Verify_Sso\<close> follows the Grafana and GitLab logins through their requests, \<open>Verify_Secrets\<close> says where tokens and
    passwords may go.
    \<open>Verify_Fixtures\<close>: \<open>verify/conftest.py\<close>.

  \<^bold>\<open>What the lemmas show.\<close> Placement: a plan is stable under its record, never overcommits, is a best fit, is
  total exactly when it can be, does not depend on list order; a preview changes nothing. Cleanup: exactly the
  orphans are deleted, in bounded time, and passwords stay out of messages. Network: the overlay that reaches
  the kernel is the full mesh the estate asks for, and the apply ends. Program: what is registered is what
  was selected, with a bootable first disk. Histories: a VM that was placed never moves and the record only
  grows, whatever runs and failures follow one another; the overlay heals when the device is created anew. Harness: the retry is bounded; what reaches the FreeIPA container
  is the intended command line, and its effect on an abstract directory is the intended user; credentials go
  only where the login page sends them; reports and checks are sound for the answers they rest on; fixtures
  always attempt the removal and never mask a test's outcome.

  \<^bold>\<open>Conventions.\<close> A \<open>str\<close> is a list of \<open>char\<close>, one per code point below 256; where library code would
  produce a wider one the theories say what stands for it. Python integers are \<open>int\<close>, sizes in bytes
  included. Every \<open>raise\<close> is a value of \<open>exn\<close> with its class and message; messages of exceptions that the standard library
  or \<open>requests\<close> raises are abbreviated. Resources are records of the arguments they are registered with, in the
  order of registration; Pulumi's secret outputs count as present values and an image's id is its name.
  Statements about effects speak of the trace, so they hold for every platform, however it answers. A write of a file
  either fails and leaves it as it was or writes all of it; a crash in the middle of a write is not modelled.

  \<^bold>\<open>Bounds and fuel.\<close> JSON scanners run on fuel twice the length of the text, which is shown to be enough. The
  task poll of the cleanup is the 60 rounds of the source. The poll of the SDN apply is a
  \<open>partial_function\<close>; with a clock that sleeping advances it is shown to end after at most 63 requests. A group
  addition makes at most 4 attempts, a login visits at most 2 forms and makes at most 6 requests.

  \<^bold>\<open>Not modelled.\<close> The test modules \<open>verify/test_*.py\<close> (assertions on a running cluster, made through the
  helpers), the Ansible roles, templates and manifests, the bootstrap scripts and the documentation: none of it
  is Python of the program. Pulumi's engine, Proxmox, Keycloak, FreeIPA, ansible, kubectl and \<open>requests\<close>
  are parameters. The table of named HTML references is a parameter, the check of bracketed IPv6 hosts in
  \<open>urllib.parse\<close> and the limit on the digits of an integer are left out, and the normalisation of the record
  file's path is not modelled.
\<close>

end
